(* ===== verification/Proto.thy ===== *)
theory Proto
  imports Prelude
begin

text \<open>
  The wire-protocol payload types of \<open>crates/axp-proto\<close>: one datatype or record per
  source type, with the source's constructors and fields (prefixed where two types share a
  name). The type parameter \<open>'j\<close> is \<open>serde_json::Value\<close>, which is carried verbatim.
\<close>

section \<open>Identifiers, tiers and capabilities\<close>

datatype session_id = SessionId string
datatype job_id = JobId string

primrec session_id_as_str :: "session_id \<Rightarrow> string" where
  "session_id_as_str (SessionId s) = s"

primrec job_id_as_str :: "job_id \<Rightarrow> string" where
  "job_id_as_str (JobId s) = s"

datatype enforcement_tier = KernelLsm | Container | ProcessToken | DevNone

datatype capability = Capability string

primrec capability_as_str :: "capability \<Rightarrow> string" where
  "capability_as_str (Capability s) = s"

section \<open>Discovery\<close>

record index_entry =
  ie_name :: string
  ie_desc :: string

record 'j capability_detail =
  cd_signature :: string
  cd_schema :: 'j

record index_request =
  ir_session_id :: session_id
  ir_cap_token :: string

record index_response =
  ix_entries :: "index_entry list"

record describe_request =
  dr_session_id :: session_id
  dr_cap_token :: string
  dr_name :: string

section \<open>Jobs\<close>

datatype 'j job_payload =
  PCommand string
| PCode string "string option"
| PCapability string 'j

record 'j job_start_request =
  js_session_id :: session_id
  js_cap_token :: string
  js_payload :: "'j job_payload"
  js_cwd :: "string option"
  js_capabilities :: "capability list"

record job_start_response =
  jsr_job_id :: job_id

datatype job_status_proto =
  ProtoPending
| ProtoRunning
| ProtoExited i32
| ProtoKilled
| ProtoFailed string

datatype log_stream_proto = ProtoStdout | ProtoStderr

record log_event_frame =
  lf_job_id :: job_id
  lf_seq :: u64
  lf_stream :: log_stream_proto
  lf_data :: "byte list"
  lf_ts_millis :: u64

record job_attach_request =
  ja_session_id :: session_id
  ja_cap_token :: string
  ja_job_id :: job_id
  ja_from_offset :: u64

record job_status_request =
  jt_session_id :: session_id
  jt_cap_token :: string
  jt_job_id :: job_id

record job_status_response =
  jtr_job_id :: job_id
  jtr_status :: job_status_proto
  jtr_seq :: u64

record job_cancel_request =
  jc_session_id :: session_id
  jc_cap_token :: string
  jc_job_id :: job_id

record job_cancel_response =
  jcr_ok :: bool

section \<open>Sessions\<close>

record session_open_request =
  so_workspace :: string
  so_sandbox_tier :: enforcement_tier
  so_capabilities :: "capability list"

record session_open_response =
  sor_session_id :: session_id
  sor_granted_tier :: enforcement_tier
  sor_cap_token :: string

record session_close_request =
  sc_session_id :: session_id
  sc_cap_token :: string

record session_close_response =
  scr_ok :: bool

record session_audit_request =
  sa_session_id :: session_id
  sa_cap_token :: string

datatype session_audit_event_kind =
  WireSessionOpened
| WireSessionClosed
| WireJobStarted job_id
| WireJobFinished job_id job_status_proto

record session_audit_event =
  sae_ts_millis :: u64
  sae_kind :: session_audit_event_kind

record session_audit_response =
  sar_events :: "session_audit_event list"

end
