(* ===== verification/Rust_Text.thy ===== *)
theory Rust_Text
  imports Prelude
begin

text \<open>
  The operations of \<open>str\<close> and \<open>std::path\<close> the sources call. A Rust \<open>String\<close> is its
  UTF-8 byte sequence, an Isabelle \<open>string\<close> (one \<open>char\<close> per byte), so \<open>length\<close> is
  \<open>str::len\<close>. Whitespace is the Unicode property \<open>White_Space\<close>, recognised on the
  encoded bytes. A path is the string it was made from; its components are those of
  \<open>Path::components\<close> on Unix.
\<close>

section \<open>Prefixes and suffixes\<close>

definition starts_with :: "'a list \<Rightarrow> 'a list \<Rightarrow> bool" where
  "starts_with s p \<longleftrightarrow> take (length p) s = p"

definition strip_prefix :: "'a list \<Rightarrow> 'a list \<Rightarrow> 'a list option" where
  "strip_prefix s p = (if starts_with s p then Some (drop (length p) s) else None)"

definition ends_with :: "'a list \<Rightarrow> 'a list \<Rightarrow> bool" where
  "ends_with s p \<longleftrightarrow> length p \<le> length s \<and> drop (length s - length p) s = p"

definition strip_suffix :: "'a list \<Rightarrow> 'a list \<Rightarrow> 'a list option" where
  "strip_suffix s p = (if ends_with s p then Some (take (length s - length p) s) else None)"

lemma starts_with_iff: "starts_with s p \<longleftrightarrow> (\<exists>r. s = p @ r)"
  unfolding starts_with_def by (metis append_eq_conv_conj append_take_drop_id)

lemma starts_with_append [simp]: "starts_with (p @ r) p"
  by (simp add: starts_with_def)

lemma starts_with_Cons [simp]:
  "starts_with s []"
  "starts_with [] (x # p) \<longleftrightarrow> False"
  "starts_with (y # s) (x # p) \<longleftrightarrow> y = x \<and> starts_with s p"
  by (simp_all add: starts_with_def)

lemma strip_prefix_Some_iff: "strip_prefix s p = Some r \<longleftrightarrow> s = p @ r"
  by (auto simp: strip_prefix_def starts_with_iff)

lemma ends_with_iff: "ends_with s p \<longleftrightarrow> (\<exists>r. s = r @ p)"
  unfolding ends_with_def
  by (metis append_take_drop_id append_eq_conv_conj diff_add_inverse2 le_add2 length_append)

lemma strip_suffix_Some_iff: "strip_suffix s p = Some r \<longleftrightarrow> s = r @ p"
  by (auto simp: strip_suffix_def ends_with_iff)

lemma strip_prefix_append [simp]: "strip_prefix (p @ r) p = Some r"
  by (simp add: strip_prefix_Some_iff)

lemma strip_suffix_append [simp]: "strip_suffix (r @ p) p = Some r"
  by (simp add: strip_suffix_Some_iff)

lemma starts_with_iff_strip: "starts_with s p \<longleftrightarrow> strip_prefix s p \<noteq> None"
  by (simp add: strip_prefix_def)

section \<open>Whitespace\<close>

text \<open>
  The number of bytes of the white space character a byte sequence starts with, 0 when it
  starts with none: U+0009 to U+000D, U+0020, U+0085, U+00A0, U+1680, U+2000 to U+200A,
  U+2028, U+2029, U+202F, U+205F and U+3000. In a valid UTF-8 string these byte sequences
  occur at character boundaries only.
\<close>

definition ws2 :: "char \<Rightarrow> char \<Rightarrow> bool" where
  "ws2 a b \<longleftrightarrow> a = CHR 0xC2 \<and> (b = CHR 0x85 \<or> b = CHR 0xA0)"

definition ws3 :: "char \<Rightarrow> char \<Rightarrow> char \<Rightarrow> bool" where
  "ws3 a b c \<longleftrightarrow>
     a = CHR 0xE1 \<and> b = CHR 0x9A \<and> c = CHR 0x80 \<or>
     a = CHR 0xE2 \<and> b = CHR 0x80 \<and>
       (of_char c \<in> {0x80..(0x8A :: nat)} \<or> c \<in> {CHR 0xA8, CHR 0xA9, CHR 0xAF}) \<or>
     a = CHR 0xE2 \<and> b = CHR 0x81 \<and> c = CHR 0x9F \<or>
     a = CHR 0xE3 \<and> b = CHR 0x80 \<and> c = CHR 0x80"

definition ws1 :: "char \<Rightarrow> bool" where
  "ws1 c \<longleftrightarrow> of_char c \<in> {9..(13 :: nat)} \<or> c = CHR '' ''"

fun ws_len :: "string \<Rightarrow> nat" where
  "ws_len [] = 0"
| "ws_len [a] = (if ws1 a then 1 else 0)"
| "ws_len [a, b] = (if ws1 a then 1 else if ws2 a b then 2 else 0)"
| "ws_len (a # b # c # s) =
     (if ws1 a then 1 else if ws2 a b then 2 else if ws3 a b c then 3 else 0)"

text \<open>\<open>s.chars().any(|c| c.is_whitespace())\<close>.\<close>

fun any_whitespace :: "string \<Rightarrow> bool" where
  "any_whitespace [] = False"
| "any_whitespace (c # s) = (ws_len (c # s) \<noteq> 0 \<or> any_whitespace s)"

text \<open>\<open>str::trim\<close>: white space removed at the start, then at the end (on the reversed bytes).\<close>

lemma ws_len_le: "ws_len s \<le> length s"
  by (induction s rule: ws_len.induct) auto

function trim_start :: "string \<Rightarrow> string" where
  "trim_start s = (if ws_len s = 0 then s else trim_start (drop (ws_len s) s))"
  by pat_completeness auto
termination
proof (relation "measure length", goal_cases)
  case 1
  show ?case by simp
next
  case (2 s)
  moreover have "ws_len s \<le> length s" by (rule ws_len_le)
  ultimately show ?case by simp
qed

declare trim_start.simps [simp del]

fun ws_rev_len :: "string \<Rightarrow> nat" where
  "ws_rev_len [] = 0"
| "ws_rev_len [a] = (if ws1 a then 1 else 0)"
| "ws_rev_len [b, a] = (if ws1 b then 1 else if ws2 a b then 2 else 0)"
| "ws_rev_len (c # b # a # s) =
     (if ws1 c then 1 else if ws2 b c then 2 else if ws3 a b c then 3 else 0)"

lemma ws_rev_len_le: "ws_rev_len s \<le> length s"
  by (induction s rule: ws_rev_len.induct) auto

function trim_rev :: "string \<Rightarrow> string" where
  "trim_rev s = (if ws_rev_len s = 0 then s else trim_rev (drop (ws_rev_len s) s))"
  by pat_completeness auto
termination
proof (relation "measure length", goal_cases)
  case 1
  show ?case by simp
next
  case (2 s)
  moreover have "ws_rev_len s \<le> length s" by (rule ws_rev_len_le)
  ultimately show ?case by simp
qed

declare trim_rev.simps [simp del]

definition trim :: "string \<Rightarrow> string" where
  "trim s = rev (trim_rev (rev (trim_start s)))"

section \<open>Numbers in strings\<close>

fun dec_digits :: "nat \<Rightarrow> string" where
  "dec_digits n = (if n < 10 then [char_of (48 + n)] else dec_digits (n div 10) @ [char_of (48 + n mod 10)])"

declare dec_digits.simps [simp del]

fun dec_value :: "string \<Rightarrow> nat" where
  "dec_value s = foldl (\<lambda>acc c. 10 * acc + (of_char c - 48)) 0 s"

lemma dec_value_append_one: "dec_value (s @ [c]) = 10 * dec_value s + (of_char c - 48)"
  by simp

lemma of_char_digit: "d < 10 \<Longrightarrow> of_char (char_of (48 + d) :: char) = (48 + d :: nat)"
  by simp

lemma dec_value_dec_digits: "dec_value (dec_digits n) = n"
proof (induction n rule: dec_digits.induct)
  case (1 n)
  show ?case
  proof (cases "n < 10")
    case True
    then show ?thesis by (subst dec_digits.simps) simp
  next
    case False
    with 1 have "dec_value (dec_digits (n div 10)) = n div 10" by simp
    with False show ?thesis
      by (subst dec_digits.simps) (simp del: dec_value.simps add: dec_value_append_one of_char_digit)
  qed
qed

lemma dec_digits_inj [simp]: "dec_digits m = dec_digits n \<longleftrightarrow> m = n"
  by (metis dec_value_dec_digits)

section \<open>Paths\<close>

datatype component = RootDir | CurDir | ParentDir | Normal string

text \<open>Split at a separator; the pieces between separators, empty ones included.\<close>

fun split_on :: "'a \<Rightarrow> 'a list \<Rightarrow> 'a list list" where
  "split_on sep [] = [[]]"
| "split_on sep (c # s) =
     (if c = sep then [] # split_on sep s
      else case split_on sep s of [] \<Rightarrow> [[c]] | p # ps \<Rightarrow> (c # p) # ps)"

fun path_component :: "string \<Rightarrow> component list" where
  "path_component p = (if p = '''' \<or> p = ''.'' then [] else if p = ''..'' then [ParentDir] else [Normal p])"

text \<open>
  \<open>Path::components\<close>: repeated and trailing separators and interior \<open>.\<close> are dropped; a
  leading \<open>.\<close> of a relative path is kept.
\<close>

definition components :: "string \<Rightarrow> component list" where
  "components s =
     (let ps = split_on (CHR ''/'') s; cs = concat (map path_component ps) in
      if starts_with s ''/'' then RootDir # cs
      else if hd ps = ''.'' then CurDir # cs else cs)"

definition path_is_absolute :: "string \<Rightarrow> bool" where
  "path_is_absolute s \<longleftrightarrow> starts_with s ''/''"

text \<open>\<open>Path::starts_with\<close> and \<open>==\<close> compare whole components.\<close>

definition path_starts_with :: "string \<Rightarrow> string \<Rightarrow> bool" where
  "path_starts_with p base \<longleftrightarrow> starts_with (components p) (components base)"

definition path_eq :: "string \<Rightarrow> string \<Rightarrow> bool" where
  "path_eq p q \<longleftrightarrow> components p = components q"

text \<open>\<open>Path::join\<close>: an absolute second path replaces the first.\<close>

definition path_join :: "string \<Rightarrow> string \<Rightarrow> string" where
  "path_join base r =
     (if starts_with r ''/'' then r
      else if base \<noteq> [] \<and> last base \<noteq> CHR ''/'' then base @ ''/'' @ r
      else base @ r)"

lemma split_on_not_Nil [simp]: "split_on sep s \<noteq> []"
  by (cases s) (auto split: list.splits)

lemma starts_with_trans: "starts_with a b \<Longrightarrow> starts_with b c \<Longrightarrow> starts_with a c"
  by (auto simp: starts_with_iff)

lemma starts_with_refl [simp]: "starts_with a a"
  by (simp add: starts_with_def)

lemma path_starts_with_refl [simp]: "path_starts_with p p"
  by (simp add: path_starts_with_def)

lemma path_starts_with_trans:
  "path_starts_with p q \<Longrightarrow> path_starts_with q r \<Longrightarrow> path_starts_with p r"
  unfolding path_starts_with_def by (rule starts_with_trans)

lemma path_starts_with_antisym:
  "path_starts_with p q \<Longrightarrow> path_starts_with q p \<Longrightarrow> path_eq p q"
  by (auto simp: path_starts_with_def path_eq_def starts_with_iff)

lemma components_absolute: "starts_with s ''/'' \<Longrightarrow> \<exists>cs. components s = RootDir # cs"
  by (simp add: components_def Let_def)

text \<open>Joining with a separator appends the components of the second part.\<close>

lemma split_on_join: "split_on sep (d @ sep # r) = split_on sep d @ split_on sep r"
  by (induction d) (auto split: list.splits simp: Cons_eq_append_conv)

lemma hd_split_on_join: "hd (split_on sep (d @ sep # r)) = hd (split_on sep d)"
  by (simp add: split_on_join)

lemma split_on_no_sep: "sep \<notin> set s \<Longrightarrow> split_on sep s = [s]"
  by (induction s) auto

lemma starts_with_slash_join: "d \<noteq> [] \<Longrightarrow> starts_with (d @ r) ''/'' = starts_with d ''/''"
  by (cases d) simp_all

lemma components_join:
  "d \<noteq> [] \<Longrightarrow> components (d @ ''/'' @ r) =
     components d @ concat (map path_component (split_on (CHR ''/'') r))"
  using starts_with_slash_join [of d "''/'' @ r"]
  by (simp add: components_def Let_def split_on_join hd_split_on_join)

end
