(* ===== verification/Core_Error.thy ===== *)
theory Core_Error
  imports Proto Rust_Text
begin

text \<open>
  The error types of \<open>axp-sandbox\<close> (\<open>src/error.rs\<close>) and \<open>axp-core\<close>
  (\<open>src/error.rs\<close>), one constructor per variant, with the messages their \<open>Display\<close>
  implementations print. The \<open>std::io::Error\<close> inside \<open>ReplayLogIo\<close> is its message.
  The parameter \<open>dbg\<close> of the messages is Rust's \<open>Debug\<close> format of a string.
\<close>

datatype sandbox_error =
  Unavailable enforcement_tier string
| Apply string

datatype core_error =
  NotImplemented string
| InvalidWorkspace string string             \<comment> \<open>path, reason\<close>
| CapabilityParse string string              \<comment> \<open>raw, reason\<close>
| SessionNotFound session_id
| CapabilityNotFound string                  \<comment> \<open>name\<close>
| InvalidCodePayload string                  \<comment> \<open>reason\<close>
| DuplicateProvider string                   \<comment> \<open>id\<close>
| DuplicateCapability string string          \<comment> \<open>provider, name\<close>
| DescriptionQuality string string string    \<comment> \<open>provider, capability, reason\<close>
| CapabilityDenied string                    \<comment> \<open>required\<close>
| WorkspaceViolation string                  \<comment> \<open>path\<close>
| JobNotFound job_id
| JobSpawn string                            \<comment> \<open>reason\<close>
| LogBufferOverflow nat                      \<comment> \<open>cap\<close>
| ReplayLogIo string string                  \<comment> \<open>path, source\<close>
| ReplayLogCorrupt string nat string         \<comment> \<open>path, offset, reason\<close>
| SandboxUnavailable sandbox_error
| SandboxApply sandbox_error
| Entropy

type_synonym 'a core_result = "(core_error, 'a) result"

primrec tier_debug :: "enforcement_tier \<Rightarrow> string" where
  "tier_debug KernelLsm = ''KernelLsm''"
| "tier_debug Container = ''Container''"
| "tier_debug ProcessToken = ''ProcessToken''"
| "tier_debug DevNone = ''DevNone''"

primrec sandbox_error_display :: "sandbox_error \<Rightarrow> string" where
  "sandbox_error_display (Unavailable tier reason) =
     ''sandbox tier '' @ tier_debug tier @ '' unavailable: '' @ reason"
| "sandbox_error_display (Apply reason) = ''failed to apply sandbox: '' @ reason"

primrec core_error_display :: "(string \<Rightarrow> string) \<Rightarrow> core_error \<Rightarrow> string" where
  "core_error_display dbg (NotImplemented what) = ''not yet implemented: '' @ what"
| "core_error_display dbg (InvalidWorkspace path reason) =
     ''invalid workspace path `'' @ path @ ''`: '' @ reason"
| "core_error_display dbg (CapabilityParse raw reason) =
     ''capability parse error `'' @ raw @ ''`: '' @ reason"
| "core_error_display dbg (SessionNotFound sid) =
     ''session not found: SessionId('' @ dbg (session_id_as_str sid) @ '')''"
| "core_error_display dbg (CapabilityNotFound name) = ''capability not found: `'' @ name @ ''`''"
| "core_error_display dbg (InvalidCodePayload reason) = ''invalid code payload: '' @ reason"
| "core_error_display dbg (DuplicateProvider pid) = ''duplicate provider: `'' @ pid @ ''`''"
| "core_error_display dbg (DuplicateCapability provider name) =
     ''duplicate capability `'' @ name @ ''` within provider `'' @ provider @ ''`''"
| "core_error_display dbg (DescriptionQuality provider capability reason) =
     ''description quality check failed for `'' @ provider @ '':'' @ capability @ ''`: '' @ reason"
| "core_error_display dbg (CapabilityDenied required) =
     ''capability denied: requires `'' @ required @ ''`''"
| "core_error_display dbg (WorkspaceViolation path) =
     ''workspace violation: path `'' @ path @ ''` is outside the session workspace''"
| "core_error_display dbg (JobNotFound jid) =
     ''job not found: JobId('' @ dbg (job_id_as_str jid) @ '')''"
| "core_error_display dbg (JobSpawn reason) = ''failed to spawn job process: '' @ reason"
| "core_error_display dbg (LogBufferOverflow cap) =
     ''log buffer overflow: exceeded '' @ dec_digits cap @ '' bytes''"
| "core_error_display dbg (ReplayLogIo path source) =
     ''replay log I/O error at `'' @ path @ ''`: '' @ source"
| "core_error_display dbg (ReplayLogCorrupt path offset reason) =
     ''corrupt replay log at `'' @ path @ ''` offset '' @ dec_digits offset @ '': '' @ reason"
| "core_error_display dbg (SandboxUnavailable e) = ''sandbox unavailable: '' @ sandbox_error_display e"
| "core_error_display dbg (SandboxApply e) = ''sandbox apply failed: '' @ sandbox_error_display e"
| "core_error_display dbg Entropy = ''failed to gather entropy for capability token''"

end
