(* ===== verification/Replay_Log.thy ===== *)
theory Replay_Log
  imports Core_Error
begin

text \<open>
  The append/replay boundary of \<open>axp-core/src/job/log.rs\<close>: the trait \<open>JobReplayLog\<close> as
  a locale, and its in-memory implementation \<open>InMemoryJobReplayLog\<close> with the facade
  \<open>LogBuffer\<close>. A method with \<open>&mut self\<close> returns the new state and its result, so
  a failed append's effect on the state is part of the model. The wake signal (tokio's
  \<open>Notify\<close>) is the number of times \<open>notify_waiters\<close> was called: a waiter registered at
  one count wakes when the count has moved on.
\<close>

section \<open>Events\<close>

type_synonym seq = u64

text \<open>Wall-clock time in nanoseconds relative to the Unix epoch.\<close>

type_synonym system_time = int

datatype log_stream = Stdout | Stderr

record log_event =
  ev_seq :: seq
  ev_stream :: log_stream
  ev_data :: "byte list"
  ev_timestamp :: system_time

record append_log_event =
  ap_stream :: log_stream
  ap_data :: "byte list"
  ap_timestamp :: system_time

definition DEFAULT_LOG_BYTE_CAP :: nat where
  "DEFAULT_LOG_BYTE_CAP = 64 * 1024 * 1024"

definition event_at :: "seq \<Rightarrow> append_log_event \<Rightarrow> log_event" where
  "event_at s e =
     \<lparr>ev_seq = s, ev_stream = ap_stream e, ev_data = ap_data e, ev_timestamp = ap_timestamp e\<rparr>"

text \<open>\<open>since\<close>: the suffix from \<open>min(from_seq, len)\<close>.\<close>

definition events_since :: "log_event list \<Rightarrow> seq \<Rightarrow> log_event list" where
  "events_since evs from_seq = (let start = min (unat from_seq) (length evs) in drop start evs)"

text \<open>The \<open>i\<close>-th event carries the sequence number \<open>i\<close>.\<close>

definition numbered :: "log_event list \<Rightarrow> bool" where
  "numbered evs \<longleftrightarrow> length evs \<le> usize_max \<and> (\<forall>i < length evs. ev_seq (evs ! i) = of_nat i)"

definition data_total :: "log_event list \<Rightarrow> nat" where
  "data_total evs = sum_list (map (\<lambda>e. length (ev_data e)) evs)"

lemma event_at_sel [simp]:
  "ev_seq (event_at s e) = s" "ev_stream (event_at s e) = ap_stream e"
  "ev_data (event_at s e) = ap_data e" "ev_timestamp (event_at s e) = ap_timestamp e"
  by (simp_all add: event_at_def)

lemma events_since_eq [simp]: "events_since evs s = drop (unat s) evs"
  by (simp add: events_since_def Let_def min_def)

lemma data_total_simps [simp]:
  "data_total [] = 0"
  "data_total (e # evs) = length (ev_data e) + data_total evs"
  "data_total (evs @ fs) = data_total evs + data_total fs"
  by (simp_all add: data_total_def)

lemma numbered_Nil [simp]: "numbered []"
  by (simp add: numbered_def)

lemma numbered_append_one:
  "numbered evs \<Longrightarrow> length evs < usize_max \<Longrightarrow> ev_seq e = of_nat (length evs) \<Longrightarrow> numbered (evs @ [e])"
  by (auto simp: numbered_def nth_append less_Suc_eq)

lemma numbered_unat:
  assumes "numbered evs" and "i < length evs"
  shows "unat (ev_seq (evs ! i)) = i"
  using assms unat_of_nat_u64 [of i] by (auto simp: numbered_def)

text \<open>Replay from a sequence number is exactly the events with at least that number.\<close>

lemma numbered_drop_filter:
  assumes "numbered evs"
  shows "drop n evs = filter (\<lambda>e. n \<le> unat (ev_seq e)) evs"
proof -
  have take: "filter (\<lambda>e. n \<le> unat (ev_seq e)) (take n evs) = []"
    using assms by (auto simp: filter_empty_conv in_set_conv_nth numbered_unat)
  have drop: "filter (\<lambda>e. n \<le> unat (ev_seq e)) (drop n evs) = drop n evs"
    using assms by (auto simp: filter_id_conv in_set_conv_nth numbered_unat)
  show ?thesis
    by (metis append_Nil append_take_drop_id drop filter_append take)
qed

section \<open>The replay view\<close>

text \<open>\<open>LogReplay\<close> over the copy-on-write slice \<open>Cow\<close>.\<close>

datatype 'a cow = Borrowed 'a | Owned 'a

fun cow_as_ref :: "'a cow \<Rightarrow> 'a" where
  "cow_as_ref (Borrowed a) = a"
| "cow_as_ref (Owned a) = a"

record log_replay =
  lr_events :: "log_event list cow"

definition replay_borrowed :: "log_event list \<Rightarrow> log_replay" where
  "replay_borrowed events = \<lparr>lr_events = Borrowed events\<rparr>"

definition replay_owned :: "log_event list \<Rightarrow> log_replay" where
  "replay_owned events = \<lparr>lr_events = Owned events\<rparr>"

definition replay_events :: "log_replay \<Rightarrow> log_event list" where
  "replay_events replay = cow_as_ref (lr_events replay)"

definition replay_is_empty :: "log_replay \<Rightarrow> bool" where
  "replay_is_empty replay \<longleftrightarrow> cow_as_ref (lr_events replay) = []"

definition replay_into_iter :: "log_replay \<Rightarrow> log_event list" where
  "replay_into_iter replay = replay_events replay"

lemma replay_view [simp]:
  "replay_events (replay_borrowed evs) = evs" "replay_events (replay_owned evs) = evs"
  "replay_is_empty r \<longleftrightarrow> replay_events r = []" "replay_into_iter r = replay_events r"
  by (simp_all add: replay_borrowed_def replay_owned_def replay_events_def replay_is_empty_def replay_into_iter_def)

section \<open>The trait\<close>

text \<open>
  \<open>JobReplayLog\<close>: \<open>events\<close> is what the log holds, \<open>inv\<close> what an implementation
  keeps true between calls. The laws are the trait's documentation: an append assigns
  \<open>seq == offset\<close> and keeps the order, a failed append leaves the replayable data
  unchanged, replay returns the events from a cursor on, and a successful append signals the
  wake handle.
\<close>

locale replay_log =
  fixes append :: "'l \<Rightarrow> append_log_event \<Rightarrow> 'l \<times> seq core_result"
    and replay_from :: "'l \<Rightarrow> seq \<Rightarrow> log_replay"
    and subscribe :: "'l \<Rightarrow> nat"
    and next_seq :: "'l \<Rightarrow> seq"
    and len :: "'l \<Rightarrow> nat"
    and events :: "'l \<Rightarrow> log_event list"
    and inv :: "'l \<Rightarrow> bool"
  assumes append_ok: "inv l \<Longrightarrow> append l e = (l', Inr s) \<Longrightarrow>
      s = of_nat (length (events l)) \<and> events l' = events l @ [event_at s e]"
    and append_err: "inv l \<Longrightarrow> append l e = (l', Inl err) \<Longrightarrow> events l' = events l"
    and append_inv: "inv l \<Longrightarrow> length (events l) < usize_max \<Longrightarrow> append l e = (l', r) \<Longrightarrow> inv l'"
    and append_wakes: "inv l \<Longrightarrow> append l e = (l', Inr s) \<Longrightarrow> subscribe l' = Suc (subscribe l)"
    and replay_eq: "inv l \<Longrightarrow> replay_events (replay_from l s) = drop (unat s) (events l)"
    and next_seq_eq: "inv l \<Longrightarrow> next_seq l = of_nat (length (events l))"
    and len_eq: "inv l \<Longrightarrow> len l = length (events l)"
    and inv_numbered: "inv l \<Longrightarrow> numbered (events l)"
begin

text \<open>A reader at the end of the log is woken by the next append and sees exactly the event it adds.\<close>

lemma replay_after_append:
  assumes "inv l" and "append l e = (l', Inr s)" and "length (events l) < usize_max"
  shows "replay_events (replay_from l' (next_seq l)) = [event_at s e] \<and> s = next_seq l \<and> subscribe l' \<noteq> subscribe l"
proof -
  have "inv l'" using assms append_inv by blast
  moreover have "s = of_nat (length (events l))" "events l' = events l @ [event_at s e]"
    using append_ok [OF assms(1,2)] by simp_all
  ultimately show ?thesis
    using assms append_wakes by (simp add: replay_eq next_seq_eq unat_of_nat_u64)
qed

text \<open>An append never changes what was already replayable.\<close>

lemma append_extends:
  assumes "inv l" and "append l e = (l', r)"
  shows "prefix (events l) (events l')"
proof (cases r)
  case (Inl err)
  with assms show ?thesis using append_err by (metis prefix_order.order_refl)
next
  case (Inr s)
  with assms show ?thesis using append_ok by (metis prefixI)
qed

lemma replay_filter: "inv l \<Longrightarrow> replay_events (replay_from l s) = filter (\<lambda>e. s \<le> ev_seq e) (events l)"
  using numbered_drop_filter [OF inv_numbered] by (simp add: replay_eq word_le_nat_alt)

lemma replay_past_end: "inv l \<Longrightarrow> next_seq l \<le> s \<Longrightarrow> replay_is_empty (replay_from l s)"
  using inv_numbered [of l]
  by (simp add: replay_eq next_seq_eq word_le_nat_alt numbered_def unat_of_nat_u64)

text \<open>Replaying in two parts is replaying at once: a cursor loses and repeats nothing.\<close>

lemma replay_split:
  assumes "inv l" and "unat s \<le> n"
  shows "replay_events (replay_from l s) = take (n - unat s) (replay_events (replay_from l s)) @ drop n (events l)"
  using assms by (simp add: replay_eq) (metis append_take_drop_id drop_drop le_add_diff_inverse2)

end

section \<open>In-memory log\<close>

record mem_log =
  ml_events :: "log_event list"
  ml_byte_total :: nat
  ml_byte_cap :: nat
  ml_notify :: nat

definition mem_with_cap :: "nat \<Rightarrow> mem_log" where
  "mem_with_cap byte_cap =
     \<lparr>ml_events = [], ml_byte_total = 0, ml_byte_cap = byte_cap, ml_notify = 0\<rparr>"

definition mem_new :: mem_log where
  "mem_new = mem_with_cap DEFAULT_LOG_BYTE_CAP"

definition mem_next_seq :: "mem_log \<Rightarrow> seq" where
  "mem_next_seq l = of_nat (length (ml_events l))"

definition mem_len :: "mem_log \<Rightarrow> nat" where
  "mem_len l = length (ml_events l)"

definition mem_is_empty :: "mem_log \<Rightarrow> bool" where
  "mem_is_empty l \<longleftrightarrow> mem_len l = 0"

definition mem_since :: "mem_log \<Rightarrow> seq \<Rightarrow> log_event list" where
  "mem_since l from_seq = events_since (ml_events l) from_seq"

definition mem_append :: "mem_log \<Rightarrow> append_log_event \<Rightarrow> mem_log \<times> seq core_result" where
  "mem_append l event =
     (case checked_add_usize (ml_byte_total l) (length (ap_data event)) of
        None \<Rightarrow> (l, Inl (LogBufferOverflow (ml_byte_cap l)))
      | Some new_total \<Rightarrow>
          if new_total > ml_byte_cap l then (l, Inl (LogBufferOverflow (ml_byte_cap l)))
          else
            let seq = mem_next_seq l in
            (l\<lparr>ml_byte_total := new_total,
               ml_events := ml_events l @ [event_at seq event],
               ml_notify := Suc (ml_notify l)\<rparr>, Inr seq))"

definition mem_replay_from :: "mem_log \<Rightarrow> seq \<Rightarrow> log_replay" where
  "mem_replay_from l from_seq = replay_borrowed (mem_since l from_seq)"

definition mem_subscribe :: "mem_log \<Rightarrow> nat" where
  "mem_subscribe l = ml_notify l"

definition mem_inv :: "mem_log \<Rightarrow> bool" where
  "mem_inv l \<longleftrightarrow>
     numbered (ml_events l) \<and> ml_byte_total l = data_total (ml_events l) \<and>
     ml_byte_total l \<le> ml_byte_cap l"

lemma mem_with_cap_inv [simp]: "mem_inv (mem_with_cap cap)"
  by (simp add: mem_inv_def mem_with_cap_def)

text \<open>Every branch of an append in one equation.\<close>

lemma mem_append_eq:
  assumes "mem_inv l" and "ml_byte_cap l \<le> usize_max"
  shows "mem_append l e =
    (if data_total (ml_events l) + length (ap_data e) \<le> ml_byte_cap l
     then (l\<lparr>ml_byte_total := data_total (ml_events l) + length (ap_data e),
             ml_events := ml_events l @ [event_at (of_nat (length (ml_events l))) e],
             ml_notify := Suc (ml_notify l)\<rparr>, Inr (of_nat (length (ml_events l))))
     else (l, Inl (LogBufferOverflow (ml_byte_cap l))))"
  using assms
  by (auto simp: mem_append_def mem_inv_def mem_next_seq_def checked_add_usize_def Let_def)

lemma mem_append_cases:
  "mem_append l e = (l', r) \<Longrightarrow>
     l' = l \<and> r = Inl (LogBufferOverflow (ml_byte_cap l)) \<or>
     ml_byte_total l + length (ap_data e) \<le> ml_byte_cap l \<and> r = Inr (mem_next_seq l) \<and>
     l' = l\<lparr>ml_byte_total := ml_byte_total l + length (ap_data e),
            ml_events := ml_events l @ [event_at (mem_next_seq l) e],
            ml_notify := Suc (ml_notify l)\<rparr>"
  by (auto simp: mem_append_def Let_def checked_add_usize_def split: if_splits)

interpretation mem_log: replay_log mem_append mem_replay_from mem_subscribe mem_next_seq mem_len ml_events mem_inv
proof unfold_locales
  fix l e l' s
  assume "mem_inv l" and "mem_append l e = (l', Inr s)"
  then show "s = of_nat (length (ml_events l)) \<and> ml_events l' = ml_events l @ [event_at s e]"
    by (auto dest!: mem_append_cases simp: mem_next_seq_def)
next
  fix l e l' err
  assume "mem_inv l" and "mem_append l e = (l', Inl err)"
  then show "ml_events l' = ml_events l"
    by (auto dest!: mem_append_cases)
next
  fix l e l' r
  assume "mem_inv l" and "length (ml_events l) < usize_max" and "mem_append l e = (l', r)"
  then show "mem_inv l'"
    by (auto dest!: mem_append_cases simp: mem_inv_def mem_next_seq_def intro!: numbered_append_one)
qed (auto dest!: mem_append_cases simp: mem_subscribe_def mem_replay_from_def mem_since_def mem_next_seq_def mem_len_def mem_inv_def)

section \<open>The facade LogBuffer\<close>

record log_buffer =
  lb_inner :: mem_log

definition log_buffer_new :: log_buffer where
  "log_buffer_new = \<lparr>lb_inner = mem_new\<rparr>"

definition log_buffer_with_cap :: "nat \<Rightarrow> log_buffer" where
  "log_buffer_with_cap byte_cap = \<lparr>lb_inner = mem_with_cap byte_cap\<rparr>"

definition log_buffer_append :: "log_buffer \<Rightarrow> append_log_event \<Rightarrow> log_buffer \<times> seq core_result" where
  "log_buffer_append b event =
     (case mem_append (lb_inner b) event of (l, r) \<Rightarrow> (b\<lparr>lb_inner := l\<rparr>, r))"

definition log_buffer_push ::
    "log_buffer \<Rightarrow> log_stream \<Rightarrow> byte list \<Rightarrow> system_time \<Rightarrow> log_buffer \<times> seq core_result" where
  "log_buffer_push b stream data timestamp =
     log_buffer_append b \<lparr>ap_stream = stream, ap_data = data, ap_timestamp = timestamp\<rparr>"

definition log_buffer_subscribe :: "log_buffer \<Rightarrow> nat" where
  "log_buffer_subscribe b = mem_subscribe (lb_inner b)"

definition log_buffer_since :: "log_buffer \<Rightarrow> seq \<Rightarrow> log_event list" where
  "log_buffer_since b from_seq = mem_since (lb_inner b) from_seq"

definition log_buffer_replay_from :: "log_buffer \<Rightarrow> seq \<Rightarrow> log_replay" where
  "log_buffer_replay_from b from_seq = mem_replay_from (lb_inner b) from_seq"

definition log_buffer_len :: "log_buffer \<Rightarrow> nat" where
  "log_buffer_len b = mem_len (lb_inner b)"

definition log_buffer_next_seq :: "log_buffer \<Rightarrow> seq" where
  "log_buffer_next_seq b = mem_next_seq (lb_inner b)"

definition log_buffer_is_empty :: "log_buffer \<Rightarrow> bool" where
  "log_buffer_is_empty b = mem_is_empty (lb_inner b)"

interpretation log_buffer: replay_log log_buffer_append log_buffer_replay_from log_buffer_subscribe log_buffer_next_seq
  log_buffer_len "\<lambda>b. ml_events (lb_inner b)" "\<lambda>b. mem_inv (lb_inner b)"
  by unfold_locales
    (auto simp: log_buffer_append_def log_buffer_replay_from_def log_buffer_next_seq_def log_buffer_subscribe_def
        log_buffer_len_def mem_log.replay_eq mem_log.next_seq_eq mem_log.len_eq mem_log.inv_numbered
        split: prod.splits dest: mem_log.append_ok mem_log.append_err mem_log.append_inv mem_log.append_wakes)

end
