(* ===== verification/File_Log.thy ===== *)
theory File_Log
  imports Replay_Log
begin

text \<open>
  \<open>FileJobReplayLog\<close> of \<open>axp-core/src/job/log.rs\<close>: the binary frame format, its
  decoder with every corruption check, and the log over a file. The file is its byte
  sequence; what the operating system did is an argument of the operations (\<open>file_io\<close>):
  \<open>write_all\<close> may fail after any number of bytes, \<open>sync_data\<close> may fail after all of
  them. A \<open>SystemTime\<close> is nanoseconds from the epoch; on Unix its seconds are an \<open>i64\<close>.
\<close>

section \<open>Constants and byte-level reads\<close>

definition FILE_LOG_MAGIC :: "byte list" where
  "FILE_LOG_MAGIC = [65, 88, 80, 74, 79, 66, 76, 79, 71, 49, 10]" \<comment> \<open>AXPJOBLOG1 and a line feed\<close>

definition FILE_LOG_HEADER_LEN :: nat where
  "FILE_LOG_HEADER_LEN = length FILE_LOG_MAGIC"

definition FILE_LOG_FRAME_FIXED_LEN :: nat where
  "FILE_LOG_FRAME_FIXED_LEN = 8 + 1 + 8 + 4 + 8"

definition STREAM_STDOUT :: byte where "STREAM_STDOUT = 1"
definition STREAM_STDERR :: byte where "STREAM_STDERR = 2"

definition slice :: "byte list \<Rightarrow> nat \<Rightarrow> nat \<Rightarrow> byte list" where
  "slice bytes from to = take (to - from) (drop from bytes)"

definition checked_read_end :: "string \<Rightarrow> byte list \<Rightarrow> nat \<Rightarrow> nat \<Rightarrow> nat core_result" where
  "checked_read_end path bytes offset n =
     rbind (ok_or (checked_add_usize offset n) (ReplayLogCorrupt path offset ''frame offset overflow''))
       (\<lambda>end_off.
          if end_off > length bytes then Inl (ReplayLogCorrupt path offset ''truncated frame'')
          else Inr end_off)"

definition read_u8 :: "string \<Rightarrow> byte list \<Rightarrow> nat \<Rightarrow> (byte \<times> nat) core_result" where
  "read_u8 path bytes offset =
     (if offset < length bytes then Inr (bytes ! offset, offset + 1)
      else Inl (ReplayLogCorrupt path offset ''truncated frame''))"

definition read_u32 :: "string \<Rightarrow> byte list \<Rightarrow> nat \<Rightarrow> (u32 \<times> nat) core_result" where
  "read_u32 path bytes offset =
     rbind (checked_read_end path bytes offset 4)
       (\<lambda>end_off. Inr (u32_from_le_bytes (slice bytes offset end_off), end_off))"

definition read_i64 :: "string \<Rightarrow> byte list \<Rightarrow> nat \<Rightarrow> (i64 \<times> nat) core_result" where
  "read_i64 path bytes offset =
     rbind (checked_read_end path bytes offset 8)
       (\<lambda>end_off. Inr (u64_from_le_bytes (slice bytes offset end_off), end_off))"

definition read_u64 :: "string \<Rightarrow> byte list \<Rightarrow> nat \<Rightarrow> (u64 \<times> nat) core_result" where
  "read_u64 path bytes offset =
     rbind (checked_read_end path bytes offset 8)
       (\<lambda>end_off. Inr (u64_from_le_bytes (slice bytes offset end_off), end_off))"

section \<open>Stream tags and timestamps\<close>

primrec encode_stream :: "log_stream \<Rightarrow> byte" where
  "encode_stream Stdout = STREAM_STDOUT"
| "encode_stream Stderr = STREAM_STDERR"

definition decode_stream :: "byte \<Rightarrow> string \<Rightarrow> nat \<Rightarrow> log_stream core_result" where
  "decode_stream tag path offset =
     (if tag = STREAM_STDOUT then Inr Stdout
      else if tag = STREAM_STDERR then Inr Stderr
      else Inl (ReplayLogCorrupt path offset (''invalid stream tag '' @ dec_digits (unat tag))))"

definition i64_max :: int where "i64_max = 2 ^ 63 - 1"
definition nanos_per_sec :: int where "nanos_per_sec = 1000000000"

definition encode_timestamp :: "system_time \<Rightarrow> string \<Rightarrow> nat \<Rightarrow> (i64 \<times> u32) core_result" where
  "encode_timestamp timestamp path offset =
     (let err = ReplayLogCorrupt path offset ''timestamp seconds exceed frame range'' in
      if 0 \<le> timestamp then
        let secs = timestamp div nanos_per_sec; nanos = timestamp mod nanos_per_sec in
        if secs \<le> i64_max then Inr (word_of_int secs, word_of_int nanos) else Inl err
      else
        let duration = - timestamp;
            secs = duration div nanos_per_sec; nanos = duration mod nanos_per_sec in
        if secs > i64_max then Inl err
        else if nanos = 0 then Inr (word_of_int (- secs), 0)
        else if secs + 1 > i64_max then Inl err
        else Inr (word_of_int (- (secs + 1)), word_of_int (nanos_per_sec - nanos)))"

text \<open>\<open>UNIX_EPOCH.checked_add\<close> and \<open>checked_sub\<close>: the seconds must stay an \<open>i64\<close>.\<close>

definition epoch_offset :: "int \<Rightarrow> system_time option" where
  "epoch_offset t =
     (if - (i64_max + 1) \<le> t div nanos_per_sec \<and> t div nanos_per_sec \<le> i64_max
      then Some t else None)"

definition decode_timestamp :: "i64 \<Rightarrow> u32 \<Rightarrow> string \<Rightarrow> nat \<Rightarrow> system_time core_result" where
  "decode_timestamp secs nanos path offset =
     (if uint nanos \<ge> nanos_per_sec then
        Inl (ReplayLogCorrupt path offset (''invalid timestamp nanos '' @ dec_digits (unat nanos)))
      else
        let err = ReplayLogCorrupt path offset ''timestamp exceeds system time range'' in
        if sint secs \<ge> 0 then ok_or (epoch_offset (sint secs * nanos_per_sec + uint nanos)) err
        else if nanos = 0 then ok_or (epoch_offset (- (\<bar>sint secs\<bar> * nanos_per_sec))) err
        else
          let secs_before_epoch = \<bar>sint secs\<bar> - 1; nanos_before_epoch = nanos_per_sec - uint nanos in
          ok_or (epoch_offset (- (secs_before_epoch * nanos_per_sec + nanos_before_epoch))) err)"

text \<open>The timestamps a frame can carry.\<close>

definition time_encodable :: "system_time \<Rightarrow> bool" where
  "time_encodable t \<longleftrightarrow> - (i64_max * nanos_per_sec) \<le> t \<and> t < (i64_max + 1) * nanos_per_sec"

text \<open>The timestamps a frame can be read with: one second more, at the lower end, than the encoder
  writes.\<close>

definition time_decodable :: "system_time \<Rightarrow> bool" where
  "time_decodable t \<longleftrightarrow> - ((i64_max + 1) * nanos_per_sec) \<le> t \<and> t < (i64_max + 1) * nanos_per_sec"

lemma time_encodable_decodable [simp, intro]: "time_encodable t \<Longrightarrow> time_decodable t"
  by (simp add: time_encodable_def time_decodable_def i64_max_def nanos_per_sec_def)

lemma time_decodable_encodable:
  "time_decodable t \<Longrightarrow> time_encodable t \<longleftrightarrow> \<not> t < - (i64_max * nanos_per_sec)"
  by (auto simp: time_encodable_def time_decodable_def)

definition time_secs :: "system_time \<Rightarrow> i64" where
  "time_secs t = word_of_int (t div nanos_per_sec)"

definition time_nanos :: "system_time \<Rightarrow> u32" where
  "time_nanos t = word_of_int (t mod nanos_per_sec)"

lemma decode_stream_encode [simp]: "decode_stream (encode_stream s) path offset = Inr s"
  by (cases s) (simp_all add: decode_stream_def STREAM_STDOUT_def STREAM_STDERR_def)

lemma neg_div_mod:
  fixes d :: int
  assumes "d mod k \<noteq> 0" and "0 < k"
  shows "(- d) div k = - (d div k + 1)" and "(- d) mod k = k - d mod k"
  using assms by (simp_all add: zdiv_zminus1_eq_if zmod_zminus1_eq_if)

text \<open>The encoder computes floor seconds and non-negative nanoseconds, on its exact range.\<close>

lemma encode_timestamp_eq:
  "encode_timestamp t path offset =
     (if time_encodable t then Inr (time_secs t, time_nanos t)
      else Inl (ReplayLogCorrupt path offset ''timestamp seconds exceed frame range''))"
proof (cases "0 \<le> t")
  case True
  have "time_encodable t \<longleftrightarrow> t div nanos_per_sec \<le> i64_max"
    using True by (auto simp: time_encodable_def nanos_per_sec_def i64_max_def)
  then show ?thesis
    using True by (simp add: encode_timestamp_def Let_def time_secs_def time_nanos_def)
next
  case neg: False
  show ?thesis
  proof (cases "(- t) mod nanos_per_sec = 0")
    case True
    have e: "time_encodable t \<longleftrightarrow> (- t) div nanos_per_sec \<le> i64_max"
      using neg True by (auto simp: time_encodable_def nanos_per_sec_def i64_max_def)
    have "t mod nanos_per_sec = 0" "t div nanos_per_sec = - ((- t) div nanos_per_sec)"
      using True by (simp_all add: nanos_per_sec_def zmod_zminus1_eq_if zdiv_zminus1_eq_if split: if_splits)
    with e neg True show ?thesis
      by (simp add: encode_timestamp_def Let_def time_secs_def time_nanos_def not_le)
  next
    case False
    obtain q r where q: "(- t) div nanos_per_sec = q" and t: "- t = q * 1000000000 + r"
        and r: "0 < r" "r < 1000000000"
    proof -
      have "(- t) div nanos_per_sec * nanos_per_sec + (- t) mod nanos_per_sec = - t"
        by (rule div_mult_mod_eq)
      moreover have "0 \<le> (- t) mod nanos_per_sec" "(- t) mod nanos_per_sec < nanos_per_sec"
        by (simp_all add: nanos_per_sec_def)
      ultimately show thesis
        using False that [of "(- t) div nanos_per_sec" "(- t) mod nanos_per_sec"]
        by (simp add: nanos_per_sec_def)
    qed
    have e: "time_encodable t \<longleftrightarrow> (- t) div nanos_per_sec + 1 \<le> i64_max"
      unfolding q using neg t r by (auto simp: time_encodable_def nanos_per_sec_def i64_max_def)
    have d: "t div nanos_per_sec = - ((- t) div nanos_per_sec + 1)"
        "t mod nanos_per_sec = nanos_per_sec - (- t) mod nanos_per_sec"
      using neg_div_mod [OF False] by (simp_all add: nanos_per_sec_def)
    show ?thesis
      using neg False e
      by (auto simp add: encode_timestamp_def Let_def time_secs_def time_nanos_def d)
  qed
qed

lemma sint_word_of_int_i64:
  "- (i64_max + 1) \<le> x \<Longrightarrow> x \<le> i64_max \<Longrightarrow> sint (word_of_int x :: i64) = x"
  by (simp add: i64_max_def sint_sbintrunc' signed_take_bit_int_eq_self)

lemma decode_timestamp_time:
  assumes "time_decodable t"
  shows "decode_timestamp (time_secs t) (time_nanos t) path offset = Inr t"
proof -
  let ?s = "t div nanos_per_sec" and ?n = "t mod nanos_per_sec"
  have n: "0 \<le> ?n" "?n < nanos_per_sec" by (simp_all add: nanos_per_sec_def)
  have un: "uint (time_nanos t) = ?n"
    using n by (simp add: time_nanos_def nanos_per_sec_def uint_word_of_int)
  have s: "- (i64_max + 1) \<le> ?s" "?s \<le> i64_max"
    using assms by (auto simp: time_decodable_def nanos_per_sec_def i64_max_def)
  have ss: "sint (time_secs t) = ?s"
    using s by (simp add: time_secs_def sint_word_of_int_i64)
  have n0: "time_nanos t = 0 \<longleftrightarrow> ?n = 0" using un by (metis uint_0_iff)
  have t: "?s * nanos_per_sec + ?n = t" by simp
  have ep: "epoch_offset t = Some t"
    using s by (simp add: epoch_offset_def)
  have neg: "- ((\<bar>?s\<bar> - 1) * nanos_per_sec + (nanos_per_sec - ?n)) = t" if "?s < 0"
    using that t by (simp add: algebra_simps)
  have neg0: "- (\<bar>?s\<bar> * nanos_per_sec) = t" if "?s < 0" "?n = 0"
    using that t by simp
  show ?thesis
    unfolding decode_timestamp_def Let_def un ss n0
    using n(2) neg neg0 t ep by (auto simp: not_le)
qed

section \<open>Frames\<close>

definition seq_from_len :: "nat \<Rightarrow> string \<Rightarrow> nat \<Rightarrow> seq core_result" where
  "seq_from_len n path offset =
     (if n \<le> usize_max then Inr (of_nat n)
      else Inl (ReplayLogCorrupt path offset ''event count exceeds sequence range''))"

definition frame_bytes :: "seq \<Rightarrow> log_stream \<Rightarrow> i64 \<Rightarrow> u32 \<Rightarrow> byte list \<Rightarrow> byte list" where
  "frame_bytes seq stream secs nanos data =
     u64_to_le_bytes seq @ [encode_stream stream] @ u64_to_le_bytes secs @
     u32_to_le_bytes nanos @ u64_to_le_bytes (of_nat (length data)) @ data"

definition encode_frame :: "string \<Rightarrow> seq \<Rightarrow> append_log_event \<Rightarrow> byte list core_result" where
  "encode_frame path seq event =
     rbind (encode_timestamp (ap_timestamp event) path 0) (\<lambda>(secs, nanos).
     if length (ap_data event) > usize_max then
       Inl (ReplayLogCorrupt path 0 ''log event data length exceeds frame range'')
     else
       rbind (ok_or (checked_add_usize FILE_LOG_FRAME_FIXED_LEN (length (ap_data event)))
           (ReplayLogCorrupt path 0 ''frame length exceeds addressable memory''))
         (\<lambda>frame_cap. Inr (frame_bytes seq (ap_stream event) secs nanos (ap_data event))))"

text \<open>The body of the decoder's loop: one frame at \<open>offset\<close>, the \<open>n\<close>-th of the file.\<close>

definition decode_frame ::
    "string \<Rightarrow> byte list \<Rightarrow> nat \<Rightarrow> nat \<Rightarrow> nat \<Rightarrow> nat \<Rightarrow> (log_event \<times> nat \<times> nat) core_result" where
  "decode_frame path bytes byte_cap offset n byte_total =
     (let frame_start = offset in
      rbind (read_u64 path bytes offset) (\<lambda>(seq, offset).
      rbind (read_u8 path bytes offset) (\<lambda>(tag, offset).
      rbind (decode_stream tag path frame_start) (\<lambda>stream.
      rbind (read_i64 path bytes offset) (\<lambda>(secs, offset).
      rbind (read_u32 path bytes offset) (\<lambda>(nanos, offset).
      rbind (read_u64 path bytes offset) (\<lambda>(data_len, offset).
      rbind (ok_or (checked_add_usize offset (unat data_len))
          (ReplayLogCorrupt path frame_start ''frame data length overflows file offset''))
        (\<lambda>data_end.
      if data_end > length bytes then
        Inl (ReplayLogCorrupt path offset ''truncated frame data'')
      else
      rbind (seq_from_len n path frame_start) (\<lambda>expected_seq.
      if seq \<noteq> expected_seq then
        Inl (ReplayLogCorrupt path frame_start
          (''expected seq '' @ dec_digits (unat expected_seq) @ '', found '' @ dec_digits (unat seq)))
      else
      rbind (ok_or (checked_add_usize byte_total (unat data_len)) (LogBufferOverflow byte_cap))
        (\<lambda>byte_total.
      if byte_total > byte_cap then Inl (LogBufferOverflow byte_cap)
      else
      rbind (decode_timestamp secs nanos path frame_start) (\<lambda>timestamp.
      Inr (\<lparr>ev_seq = seq, ev_stream = stream, ev_data = slice bytes offset data_end,
            ev_timestamp = timestamp\<rparr>, byte_total, data_end))))))))))))"

lemma checked_read_end_Inr:
  "checked_read_end path bytes offset n = Inr e \<longleftrightarrow>
     e = offset + n \<and> offset + n \<le> usize_max \<and> offset + n \<le> length bytes"
  by (auto simp: checked_read_end_def result_simps checked_add_usize_Some_iff not_less split: if_splits)

lemma read_Inr:
  "read_u64 path bytes offset = Inr (w, offset') \<Longrightarrow> offset' = offset + 8 \<and> offset' \<le> length bytes"
  "read_i64 path bytes offset = Inr (w, offset') \<Longrightarrow> offset' = offset + 8 \<and> offset' \<le> length bytes"
  "read_u32 path bytes offset = Inr (v, offset') \<Longrightarrow> offset' = offset + 4 \<and> offset' \<le> length bytes"
  "read_u8 path bytes offset = Inr (b, offset') \<Longrightarrow> offset' = offset + 1 \<and> offset' \<le> length bytes"
  by (auto simp: read_u64_def read_i64_def read_u32_def read_u8_def result_simps
      checked_read_end_Inr split: if_splits)

text \<open>A decoded frame lies inside the file and has at least its fixed part.\<close>

lemma decode_frame_progress:
  assumes "decode_frame path bytes cap offset n tot = Inr (ev, tot', offset')"
  shows "offset + 29 \<le> offset' \<and> offset' \<le> length bytes \<and> tot' \<le> cap"
  using assms
  by (auto simp: decode_frame_def Let_def result_simps checked_add_usize_Some_iff
      split: prod.splits if_splits dest!: read_Inr)

lemma rbind_cong [fundef_cong]:
  "r = r' \<Longrightarrow> (\<And>a. r' = Inr a \<Longrightarrow> f a = g a) \<Longrightarrow> rbind r f = rbind r' g"
  by (cases r') auto

text \<open>The loop \<open>while offset < bytes.len()\<close>; every iteration moves the offset forward.\<close>

function decode_frames ::
    "string \<Rightarrow> byte list \<Rightarrow> nat \<Rightarrow> nat \<Rightarrow> log_event list \<Rightarrow> nat \<Rightarrow> (log_event list \<times> nat) core_result" where
  "decode_frames path bytes byte_cap offset events byte_total =
     (if offset < length bytes then
        rbind (decode_frame path bytes byte_cap offset (length events) byte_total)
          (\<lambda>(ev, byte_total', offset').
             decode_frames path bytes byte_cap offset' (events @ [ev]) byte_total')
      else Inr (events, byte_total))"
  by pat_completeness auto
termination
  by (relation "measure (\<lambda>(path, bytes, cap, offset, events, tot). length bytes - offset)")
    (auto dest!: decode_frame_progress)

declare decode_frames.simps [simp del]

definition decode_file_log :: "string \<Rightarrow> byte list \<Rightarrow> nat \<Rightarrow> (log_event list \<times> nat) core_result" where
  "decode_file_log path bytes byte_cap =
     (if \<not> starts_with bytes FILE_LOG_MAGIC then
        Inl (ReplayLogCorrupt path 0 ''missing replay log magic header'')
      else decode_frames path bytes byte_cap FILE_LOG_HEADER_LEN [] 0)"

section \<open>Decoding what was encoded\<close>

text \<open>The bytes the log writes for an event that carries its sequence number.\<close>

definition event_frame :: "log_event \<Rightarrow> byte list" where
  "event_frame e =
     frame_bytes (ev_seq e) (ev_stream e) (time_secs (ev_timestamp e)) (time_nanos (ev_timestamp e))
       (ev_data e)"

lemma length_frame_bytes [simp]: "length (frame_bytes s st secs nanos data) = 29 + length data"
  by (simp add: frame_bytes_def)

lemma length_event_frame [simp]: "length (event_frame e) = 29 + length (ev_data e)"
  by (simp add: event_frame_def)

lemma encode_frame_eq:
  "encode_frame path s e =
     (if \<not> time_encodable (ap_timestamp e) then
        Inl (ReplayLogCorrupt path 0 ''timestamp seconds exceed frame range'')
      else if length (ap_data e) > usize_max then
        Inl (ReplayLogCorrupt path 0 ''log event data length exceeds frame range'')
      else if 29 + length (ap_data e) > usize_max then
        Inl (ReplayLogCorrupt path 0 ''frame length exceeds addressable memory'')
      else Inr (event_frame (event_at s e)))"
  by (simp add: encode_frame_def encode_timestamp_eq checked_add_usize_def event_frame_def
      FILE_LOG_FRAME_FIXED_LEN_def)

text \<open>Reading the field that the remaining bytes start with.\<close>

lemma drop_append_length: "drop i bs = xs @ rest \<Longrightarrow> drop (i + length xs) bs = rest"
  by (metis add.commute append_eq_conv_conj drop_drop)

lemma read_field_bounds:
  assumes "drop i bs = xs @ rest" and "xs \<noteq> []"
  shows "i + length xs \<le> length bs"
proof -
  have "length bs - i = length xs + length rest" using assms(1) by (metis length_append length_drop)
  then show ?thesis using assms(2) by (cases "i \<le> length bs") auto
qed

lemma read_fields:
  assumes "length bs \<le> usize_max"
  shows "drop i bs = u64_to_le_bytes w @ rest \<Longrightarrow> read_u64 path bs i = Inr (w, i + 8)"
    and "drop i bs = u64_to_le_bytes w @ rest \<Longrightarrow> read_i64 path bs i = Inr (w, i + 8)"
    and "drop i bs = u32_to_le_bytes v @ rest \<Longrightarrow> read_u32 path bs i = Inr (v, i + 4)"
    and "drop i bs = b # rest \<Longrightarrow> read_u8 path bs i = Inr (b, i + 1)"
proof -
  have 8: "checked_read_end path bs i 8 = Inr (i + 8)" if "drop i bs = u64_to_le_bytes w @ rest"
    using read_field_bounds [OF that] assms by (simp add: checked_read_end_Inr flip: length_0_conv)
  show "read_u64 path bs i = Inr (w, i + 8)" "read_i64 path bs i = Inr (w, i + 8)"
    if "drop i bs = u64_to_le_bytes w @ rest"
    using 8 [OF that] that by (simp_all add: read_u64_def read_i64_def slice_def)
  show "read_u32 path bs i = Inr (v, i + 4)" if "drop i bs = u32_to_le_bytes v @ rest"
  proof -
    have "checked_read_end path bs i 4 = Inr (i + 4)"
      using read_field_bounds [OF that] assms by (simp add: checked_read_end_Inr flip: length_0_conv)
    with that show ?thesis by (simp add: read_u32_def slice_def)
  qed
  show "read_u8 path bs i = Inr (b, i + 1)" if "drop i bs = b # rest"
  proof -
    have "i < length bs" using that by (metis drop_all list.distinct(1) not_le)
    with that show ?thesis by (simp add: read_u8_def) (metis Cons_nth_drop_Suc list.inject)
  qed
qed

lemma drop_fields:
  "drop i bs = u64_to_le_bytes w @ rest \<Longrightarrow> drop (i + 8) bs = rest"
  "drop i bs = u32_to_le_bytes v @ rest \<Longrightarrow> drop (i + 4) bs = rest"
  "drop i bs = b # rest \<Longrightarrow> drop (i + 1) bs = rest"
  using drop_append_length [of i bs "u64_to_le_bytes w" rest]
    drop_append_length [of i bs "u32_to_le_bytes v" rest] drop_append_length [of i bs "[b]" rest]
  by simp_all

text \<open>The five fixed fields of a frame, whatever follows them.\<close>

lemma read_frame_fields:
  assumes len: "length bs \<le> usize_max"
    and at: "drop i bs = u64_to_le_bytes s @ [tag] @ u64_to_le_bytes secs @ u32_to_le_bytes nanos @
      u64_to_le_bytes dl @ rest"
  shows "read_u64 path bs i = Inr (s, i + 8)" "read_u8 path bs (i + 8) = Inr (tag, i + 9)"
    "read_i64 path bs (i + 9) = Inr (secs, i + 17)" "read_u32 path bs (i + 17) = Inr (nanos, i + 21)"
    "read_u64 path bs (i + 21) = Inr (dl, i + 29)" "drop (i + 29) bs = rest"
proof -
  note read = read_fields [OF len]
  from at show "read_u64 path bs i = Inr (s, i + 8)" by (rule read)
  from drop_fields(1) [OF at] have d1: "drop (i + 8) bs = tag # u64_to_le_bytes secs @
      u32_to_le_bytes nanos @ u64_to_le_bytes dl @ rest" by simp
  then show "read_u8 path bs (i + 8) = Inr (tag, i + 9)" using read(4) by fastforce
  from drop_fields(3) [OF d1] have d2: "drop (i + 9) bs = u64_to_le_bytes secs @
      u32_to_le_bytes nanos @ u64_to_le_bytes dl @ rest" by (simp add: add.commute)
  then show "read_i64 path bs (i + 9) = Inr (secs, i + 17)" using read(2) by fastforce
  from drop_fields(1) [OF d2] have d3: "drop (i + 17) bs = u32_to_le_bytes nanos @
      u64_to_le_bytes dl @ rest" by (simp add: add.commute)
  then show "read_u32 path bs (i + 17) = Inr (nanos, i + 21)" using read(3) by fastforce
  from drop_fields(2) [OF d3] have d4: "drop (i + 21) bs = u64_to_le_bytes dl @ rest"
    by (simp add: add.commute)
  then show "read_u64 path bs (i + 21) = Inr (dl, i + 29)" using read(1) by fastforce
  from drop_fields(1) [OF d4] show "drop (i + 29) bs = rest" by (simp add: add.commute)
qed

text \<open>What the decoder makes of a whole frame, with the checks that may still fail.\<close>

lemma decode_frame_at:
  assumes len: "length bs \<le> usize_max" and n: "n \<le> usize_max"
    and at: "drop i bs = event_frame e @ rest"
    and time: "time_decodable (ev_timestamp e)"
  shows "decode_frame path bs cap i n tot =
    (if ev_seq e \<noteq> of_nat n then
       Inl (ReplayLogCorrupt path i (''expected seq '' @ dec_digits (unat (of_nat n :: seq)) @
         '', found '' @ dec_digits (unat (ev_seq e))))
     else if tot + length (ev_data e) \<le> usize_max \<and> tot + length (ev_data e) \<le> cap then
       Inr (e, tot + length (ev_data e), i + 29 + length (ev_data e))
     else Inl (LogBufferOverflow cap))"
proof -
  let ?d = "ev_data e"
  have bound: "i + 29 + length ?d \<le> length bs"
    using read_field_bounds [OF at] by (simp flip: length_0_conv)
  with len have dl: "unat (of_nat (length ?d) :: u64) = length ?d"
    by (intro unat_of_nat_u64) simp
  have at': "drop i bs = u64_to_le_bytes (ev_seq e) @ [encode_stream (ev_stream e)] @
      u64_to_le_bytes (time_secs (ev_timestamp e)) @ u32_to_le_bytes (time_nanos (ev_timestamp e)) @
      u64_to_le_bytes (of_nat (length ?d)) @ (?d @ rest)"
    using at by (simp add: event_frame_def frame_bytes_def)
  note fields = read_frame_fields [OF len at']
  have data: "slice bs (i + 29) (i + 29 + length ?d) = ?d"
    using fields(6) by (simp add: slice_def)
  have ca: "checked_add_usize (i + 29) (length ?d) = Some (i + 29 + length ?d)"
    using bound len by (simp add: checked_add_usize_Some_iff)
  show ?thesis
    using bound n len
    by (simp add: decode_frame_def fields(1-5) dl ca data decode_timestamp_time [OF time]
        seq_from_len_def checked_add_usize_def not_less Let_def)
qed

definition frames_of :: "log_event list \<Rightarrow> byte list" where
  "frames_of evs = concat (map event_frame evs)"

lemma frames_of_simps [simp]:
  "frames_of [] = []"
  "frames_of (e # evs) = event_frame e @ frames_of evs"
  "frames_of (evs @ evs') = frames_of evs @ frames_of evs'"
  by (simp_all add: frames_of_def)

text \<open>Decoding consumes the frames of well-numbered events that fit the cap, and goes on after them.\<close>

lemma decode_frames_prefix:
  assumes "length bs \<le> usize_max" and "numbered (acc @ evs)"
    and "drop i bs = frames_of evs @ rest"
    and "\<forall>e \<in> set evs. time_decodable (ev_timestamp e)"
    and "data_total (acc @ evs) \<le> cap" and "cap \<le> usize_max"
  shows "decode_frames path bs cap i acc (data_total acc) =
    decode_frames path bs cap (i + length (frames_of evs)) (acc @ evs) (data_total (acc @ evs))"
  using assms(2-5)
proof (induction evs arbitrary: i acc)
  case Nil
  then show ?case by simp
next
  case (Cons e evs)
  have at: "drop i bs = event_frame e @ (frames_of evs @ rest)" using Cons.prems(2) by simp
  have n: "length acc \<le> usize_max" using Cons.prems(1) by (simp add: numbered_def)
  have "(acc @ e # evs) ! length acc = e" by simp
  then have s: "ev_seq e = of_nat (length acc)"
    using Cons.prems(1) unfolding numbered_def by (metis length_append length_Cons less_add_Suc1 add_Suc_right)
  have "i < length bs"
    using read_field_bounds [OF at] by (simp flip: length_0_conv)
  moreover have "decode_frame path bs cap i (length acc) (data_total acc) =
      Inr (e, data_total (acc @ [e]), i + 29 + length (ev_data e))"
    using decode_frame_at [OF assms(1) n at, of path cap "data_total acc"] Cons.prems(3,4) assms(6)
    by (simp add: s)
  ultimately have "decode_frames path bs cap i acc (data_total acc) =
      decode_frames path bs cap (i + 29 + length (ev_data e)) (acc @ [e]) (data_total (acc @ [e]))"
    by (subst decode_frames.simps) simp
  moreover have "drop (i + 29 + length (ev_data e)) bs = frames_of evs @ rest"
    using drop_append_length [OF at] by (simp add: add.assoc)
  ultimately show ?case
    using Cons.IH [of "acc @ [e]" "i + 29 + length (ev_data e)"] Cons.prems
    by (simp add: add.assoc)
qed

lemma decode_frames_end: "length bs \<le> i \<Longrightarrow> decode_frames path bs cap i evs tot = Inr (evs, tot)"
  by (subst decode_frames.simps) simp

text \<open>A file of the header and the frames of events, then more bytes.\<close>

lemma decode_file_decodable:
  assumes "length (FILE_LOG_MAGIC @ frames_of evs @ rest) \<le> usize_max" and "numbered evs"
    and "\<forall>e \<in> set evs. time_decodable (ev_timestamp e)"
    and "data_total evs \<le> cap" and "cap \<le> usize_max"
  shows "decode_file_log path (FILE_LOG_MAGIC @ frames_of evs @ rest) cap =
    decode_frames path (FILE_LOG_MAGIC @ frames_of evs @ rest) cap
      (FILE_LOG_HEADER_LEN + length (frames_of evs)) evs (data_total evs)"
  using decode_frames_prefix [where bs = "FILE_LOG_MAGIC @ frames_of evs @ rest" and acc = "[]"
      and evs = evs and i = FILE_LOG_HEADER_LEN and rest = rest and cap = cap and path = path] assms
  by (simp add: decode_file_log_def FILE_LOG_HEADER_LEN_def)

lemma decode_file_prefix:
  assumes "length (FILE_LOG_MAGIC @ frames_of evs @ rest) \<le> usize_max" and "numbered evs"
    and "\<forall>e \<in> set evs. time_encodable (ev_timestamp e)"
    and "data_total evs \<le> cap" and "cap \<le> usize_max"
  shows "decode_file_log path (FILE_LOG_MAGIC @ frames_of evs @ rest) cap =
    decode_frames path (FILE_LOG_MAGIC @ frames_of evs @ rest) cap
      (FILE_LOG_HEADER_LEN + length (frames_of evs)) evs (data_total evs)"
  using assms by (intro decode_file_decodable) simp_all

section \<open>Only what was encoded decodes\<close>

text \<open>A timestamp the decoder accepts has the fields it was read from.\<close>

lemma decode_timestamp_Inr:
  assumes "decode_timestamp secs nanos path offset = Inr t"
  shows "time_secs t = secs \<and> time_nanos t = nanos \<and> time_decodable t"
proof -
  have n: "uint nanos < nanos_per_sec" "0 \<le> uint nanos"
    using assms by (auto simp: decode_timestamp_def split: if_splits)
  have t: "t = sint secs * nanos_per_sec + uint nanos"
    using assms n
    by (auto simp: decode_timestamp_def Let_def epoch_offset_def result_simps algebra_simps
        split: if_splits)
  have "t div nanos_per_sec = sint secs" "t mod nanos_per_sec = uint nanos"
    using n unfolding t by (simp_all add: nanos_per_sec_def)
  moreover have s: "- 9223372036854775808 \<le> sint secs" "sint secs < 9223372036854775808"
    using sint_ge [of secs] sint_lt [of secs] by simp_all
  have "time_decodable t"
    unfolding t time_decodable_def i64_max_def nanos_per_sec_def
    by (rule conjI; simp; use n s in \<open>simp only: nanos_per_sec_def; linarith\<close>)
  ultimately show ?thesis by (simp add: time_secs_def time_nanos_def)
qed

lemma read_Inr_field:
  "read_u64 path bs i = Inr (w, j) \<Longrightarrow> drop i bs = u64_to_le_bytes w @ drop j bs"
  "read_i64 path bs i = Inr (w, j) \<Longrightarrow> drop i bs = u64_to_le_bytes w @ drop j bs"
  "read_u32 path bs i = Inr (v, j) \<Longrightarrow> drop i bs = u32_to_le_bytes v @ drop j bs"
  "read_u8 path bs i = Inr (b, j) \<Longrightarrow> drop i bs = b # drop j bs"
proof -
  have field: "take n (drop i bs) @ drop (i + n) bs = drop i bs" for n
    by (metis add.commute append_take_drop_id drop_drop)
  show "read_u64 path bs i = Inr (w, j) \<Longrightarrow> drop i bs = u64_to_le_bytes w @ drop j bs"
    using field [of 8] by (auto simp: read_u64_def result_simps checked_read_end_Inr slice_def u64_from_le_inverse)
  show "read_i64 path bs i = Inr (w, j) \<Longrightarrow> drop i bs = u64_to_le_bytes w @ drop j bs"
    using field [of 8] by (auto simp: read_i64_def result_simps checked_read_end_Inr slice_def u64_from_le_inverse)
  show "read_u32 path bs i = Inr (v, j) \<Longrightarrow> drop i bs = u32_to_le_bytes v @ drop j bs"
    using field [of 4] by (auto simp: read_u32_def result_simps checked_read_end_Inr slice_def u32_from_le_inverse)
  show "read_u8 path bs i = Inr (b, j) \<Longrightarrow> drop i bs = b # drop j bs"
    by (auto simp: read_u8_def Cons_nth_drop_Suc split: if_splits)
qed

lemma decode_stream_Inr: "decode_stream tag path i = Inr s \<Longrightarrow> encode_stream s = tag"
  by (auto simp: decode_stream_def split: if_splits)

lemma decode_frame_Inr:
  assumes "decode_frame path bs cap i n tot = Inr (e, tot', j)"
  shows "drop i bs = event_frame e @ drop j bs" and "ev_seq e = of_nat n" and "n \<le> usize_max"
    and "tot' = tot + length (ev_data e)" and "tot' \<le> cap" and "time_decodable (ev_timestamp e)"
proof -
  obtain s i1 tag i2 secs i3 nanos i4 dl i5 where
      reads: "read_u64 path bs i = Inr (s, i1)" "read_u8 path bs i1 = Inr (tag, i2)"
        "read_i64 path bs i2 = Inr (secs, i3)" "read_u32 path bs i3 = Inr (nanos, i4)"
        "read_u64 path bs i4 = Inr (dl, i5)"
    and st: "decode_stream tag path i = Inr (ev_stream e)"
    and j: "j = i5 + unat dl" "j \<le> length bs"
    and ev: "ev_seq e = s" "ev_data e = slice bs i5 j" "s = of_nat n" "n \<le> usize_max"
    and ti: "decode_timestamp secs nanos path i = Inr (ev_timestamp e)"
    and tot: "tot' = tot + unat dl" "tot' \<le> cap"
    using assms
    by (auto simp: decode_frame_def Let_def result_simps checked_add_usize_Some_iff
        seq_from_len_def split: if_splits)
  have len: "length (ev_data e) = unat dl" using j by (simp add: ev slice_def)
  have "drop i5 bs = ev_data e @ drop j bs"
    by (simp add: ev slice_def j) (metis add.commute append_take_drop_id drop_drop)
  then show "drop i bs = event_frame e @ drop j bs"
    using reads(1,5) [THEN read_Inr_field(1)] reads(2) [THEN read_Inr_field(4)]
      reads(3) [THEN read_Inr_field(2)] reads(4) [THEN read_Inr_field(3)]
      decode_stream_Inr [OF st] decode_timestamp_Inr [OF ti] len ev(1)
    by (simp add: event_frame_def frame_bytes_def)
  show "ev_seq e = of_nat n" "n \<le> usize_max" "tot' = tot + length (ev_data e)" "tot' \<le> cap"
    using ev tot len by simp_all
  show "time_decodable (ev_timestamp e)" using decode_timestamp_Inr [OF ti] by simp
qed


text \<open>Everything the loop accepts is the frames of the events it returns.\<close>

lemma decode_frames_Inr:
  assumes "decode_frames path bs cap i acc tot = Inr (evs, tot')" and "numbered acc"
    and "tot = data_total acc" and "tot \<le> cap" and "i \<le> length bs" and "length bs \<le> usize_max"
    and "length acc \<le> i"
  shows "\<exists>new. evs = acc @ new \<and> drop i bs = frames_of new \<and> numbered evs \<and>
    tot' = data_total evs \<and> tot' \<le> cap \<and> (\<forall>e \<in> set new. time_decodable (ev_timestamp e))"
  using assms
proof (induction path bs cap i acc tot rule: decode_frames.induct)
  case (1 path bs cap i acc tot)
  show ?case
  proof (cases "i < length bs")
    case False
    then show ?thesis
      using "1.prems" by (subst (asm) decode_frames.simps) auto
  next
    case True
    then obtain e tot1 j where f: "decode_frame path bs cap i (length acc) tot = Inr (e, tot1, j)"
        and rest: "decode_frames path bs cap j (acc @ [e]) tot1 = Inr (evs, tot')"
      using "1.prems"(1) by (subst (asm) decode_frames.simps) (auto simp: result_simps)
    note frame = decode_frame_Inr [OF f] and prog = decode_frame_progress [OF f]
    have "numbered (acc @ [e])"
      using "1.prems"(2,6,7) True frame(2) by (intro numbered_append_one) simp_all
    then obtain new where "evs = (acc @ [e]) @ new" "drop j bs = frames_of new" "numbered evs"
        "tot' = data_total evs" "tot' \<le> cap" "\<forall>e \<in> set new. time_decodable (ev_timestamp e)"
      using "1.IH" [OF True f _ _ rest] prog frame "1.prems"(3,6,7) by auto
    then show ?thesis
      using frame(1,6) by (intro exI [of _ "e # new"]) simp
  qed
qed

section \<open>The log over a file\<close>

text \<open>
  What the operating system did with one \<open>write_all\<close> followed by \<open>sync\<close>: both
  succeeded, \<open>write_all\<close> failed after \<open>k\<close> bytes had reached the file, or all bytes
  were written and the sync failed.
\<close>

datatype file_io = IoOk | IoWriteErr nat string | IoSyncErr string

record file_log =
  fl_path :: string
  fl_file :: "byte list"
  fl_events :: "log_event list"
  fl_byte_total :: nat
  fl_byte_cap :: nat
  fl_notify :: nat

primrec file_write :: "file_io \<Rightarrow> byte list \<Rightarrow> byte list \<Rightarrow> byte list \<times> string option" where
  "file_write IoOk contents bytes = (contents @ bytes, None)"
| "file_write (IoWriteErr k source) contents bytes = (contents @ take k bytes, Some source)"
| "file_write (IoSyncErr source) contents bytes = (contents @ bytes, Some source)"

text \<open>
  \<open>FileJobReplayLog::with_cap\<close> on a file that holds \<open>contents\<close> (none when it was just
  created): an empty file gets the header, then every frame is validated. The other I/O
  calls fail with the message they are given.
\<close>

record open_io =
  oi_open :: "string option"
  oi_metadata :: "string option"
  oi_write :: file_io
  oi_seek_start :: "string option"
  oi_read :: "string option"
  oi_seek_end :: "string option"

definition open_io_ok :: open_io where
  "open_io_ok = \<lparr>oi_open = None, oi_metadata = None, oi_write = IoOk, oi_seek_start = None,
     oi_read = None, oi_seek_end = None\<rparr>"

definition io_step :: "string \<Rightarrow> string option \<Rightarrow> unit core_result" where
  "io_step path failure = (case failure of None \<Rightarrow> Inr () | Some source \<Rightarrow> Inl (ReplayLogIo path source))"

definition file_with_cap ::
    "open_io \<Rightarrow> string \<Rightarrow> nat \<Rightarrow> byte list \<Rightarrow> byte list \<times> file_log core_result" where
  "file_with_cap io path byte_cap contents =
     (case rbind (io_step path (oi_open io)) (\<lambda>_. io_step path (oi_metadata io)) of
        Inl e \<Rightarrow> (contents, Inl e)
      | Inr _ \<Rightarrow>
          let (contents, header) =
            (if length contents = 0 then file_write (oi_write io) contents FILE_LOG_MAGIC
             else (contents, None)) in
          (contents,
           rbind (io_step path header) (\<lambda>_.
           rbind (io_step path (oi_seek_start io)) (\<lambda>_.
           rbind (io_step path (oi_read io)) (\<lambda>_.
           rbind (decode_file_log path contents byte_cap) (\<lambda>(events, byte_total).
           rbind (io_step path (oi_seek_end io)) (\<lambda>_.
           Inr \<lparr>fl_path = path, fl_file = contents, fl_events = events, fl_byte_total = byte_total,
                fl_byte_cap = byte_cap, fl_notify = 0\<rparr>)))))))"

definition file_open :: "open_io \<Rightarrow> string \<Rightarrow> byte list \<Rightarrow> byte list \<times> file_log core_result" where
  "file_open io path contents = file_with_cap io path DEFAULT_LOG_BYTE_CAP contents"

definition file_next_seq :: "file_log \<Rightarrow> seq" where
  "file_next_seq l = of_nat (length (fl_events l))"

definition file_len :: "file_log \<Rightarrow> nat" where
  "file_len l = length (fl_events l)"

definition file_since :: "file_log \<Rightarrow> seq \<Rightarrow> log_event list" where
  "file_since l from_seq = events_since (fl_events l) from_seq"

definition file_replay_from :: "file_log \<Rightarrow> seq \<Rightarrow> log_replay" where
  "file_replay_from l from_seq = replay_borrowed (file_since l from_seq)"

definition file_subscribe :: "file_log \<Rightarrow> nat" where
  "file_subscribe l = fl_notify l"

definition file_append ::
    "file_io \<Rightarrow> file_log \<Rightarrow> append_log_event \<Rightarrow> file_log \<times> seq core_result" where
  "file_append io l event =
     (case checked_add_usize (fl_byte_total l) (length (ap_data event)) of
        None \<Rightarrow> (l, Inl (LogBufferOverflow (fl_byte_cap l)))
      | Some new_total \<Rightarrow>
          if new_total > fl_byte_cap l then (l, Inl (LogBufferOverflow (fl_byte_cap l)))
          else
            case rbind (seq_from_len (length (fl_events l)) (fl_path l) (length (fl_events l)))
                (\<lambda>seq. rbind (encode_frame (fl_path l) seq event) (\<lambda>frame. Inr (seq, frame))) of
              Inl e \<Rightarrow> (l, Inl e)
            | Inr (seq, frame) \<Rightarrow>
                (case file_write io (fl_file l) frame of
                   (contents, Some source) \<Rightarrow>
                     (l\<lparr>fl_file := contents\<rparr>, Inl (ReplayLogIo (fl_path l) source))
                 | (contents, None) \<Rightarrow>
                     (l\<lparr>fl_file := contents, fl_byte_total := new_total,
                        fl_events := fl_events l @ [event_at seq event],
                        fl_notify := Suc (fl_notify l)\<rparr>, Inr seq)))"

text \<open>What every call keeps, whatever the I/O did: the state in memory.\<close>

definition file_inv :: "file_log \<Rightarrow> bool" where
  "file_inv l \<longleftrightarrow>
     numbered (fl_events l) \<and> fl_byte_total l = data_total (fl_events l) \<and>
     fl_byte_total l \<le> fl_byte_cap l"

text \<open>What the calls whose I/O succeeded keep: the file holds the header and the events' frames.\<close>

definition file_synced :: "file_log \<Rightarrow> bool" where
  "file_synced l \<longleftrightarrow>
     file_inv l \<and> fl_file l = FILE_LOG_MAGIC @ frames_of (fl_events l) \<and>
     (\<forall>e \<in> set (fl_events l). time_encodable (ev_timestamp e))"

lemma file_append_cases:
  assumes "file_append io l e = (l', r)"
  obtains (refused) err where "l' = l" "r = Inl err" "\<And>p source. err \<noteq> ReplayLogIo p source"
  | (io_failed) source where
      "l' = l\<lparr>fl_file := fst (file_write io (fl_file l) (event_frame (event_at (file_next_seq l) e)))\<rparr>"
      "r = Inl (ReplayLogIo (fl_path l) source)"
      "snd (file_write io (fl_file l) (event_frame (event_at (file_next_seq l) e))) = Some source"
      "time_encodable (ap_timestamp e)" "fl_byte_total l + length (ap_data e) \<le> fl_byte_cap l"
  | (appended)
      "l' = l\<lparr>fl_file := fl_file l @ event_frame (event_at (file_next_seq l) e),
         fl_byte_total := fl_byte_total l + length (ap_data e),
         fl_events := fl_events l @ [event_at (file_next_seq l) e], fl_notify := Suc (fl_notify l)\<rparr>"
      "r = Inr (file_next_seq l)" "io = IoOk"
      "time_encodable (ap_timestamp e)" "fl_byte_total l + length (ap_data e) \<le> fl_byte_cap l"
  using assms
  by (cases io)
    (auto simp: file_append_def checked_add_usize_def seq_from_len_def encode_frame_eq
      file_next_seq_def split: if_splits)

interpretation file_log: replay_log "file_append io" file_replay_from file_subscribe file_next_seq file_len
  fl_events file_inv for io
proof unfold_locales
  fix l e l' s
  assume "file_inv l" and "file_append io l e = (l', Inr s)"
  then show "s = of_nat (length (fl_events l)) \<and> fl_events l' = fl_events l @ [event_at s e]"
    by (auto elim!: file_append_cases simp: file_next_seq_def)
next
  fix l e l' err
  assume "file_inv l" and "file_append io l e = (l', Inl err)"
  then show "fl_events l' = fl_events l"
    by (auto elim!: file_append_cases)
next
  fix l e l' r
  assume "file_inv l" and "length (fl_events l) < usize_max" and "file_append io l e = (l', r)"
  then show "file_inv l'"
    by (auto elim!: file_append_cases simp: file_inv_def file_next_seq_def intro!: numbered_append_one)
qed (auto elim!: file_append_cases simp: file_subscribe_def file_replay_from_def file_since_def file_next_seq_def file_len_def file_inv_def)

section \<open>Opening, appending and opening again\<close>

definition file_fresh :: "string \<Rightarrow> nat \<Rightarrow> file_log" where
  "file_fresh path cap =
     \<lparr>fl_path = path, fl_file = FILE_LOG_MAGIC, fl_events = [], fl_byte_total = 0,
      fl_byte_cap = cap, fl_notify = 0\<rparr>"

text \<open>A run of appends whose I/O succeeds; a refused one leaves the log as it is.\<close>

definition file_appends :: "file_log \<Rightarrow> append_log_event list \<Rightarrow> file_log" where
  "file_appends l es = foldl (\<lambda>l e. fst (file_append IoOk l e)) l es"

lemma length_frames_of: "length (frames_of evs) = 29 * length evs + data_total evs"
  by (induction evs) auto

lemma magic_starts [simp]: "starts_with (FILE_LOG_MAGIC @ r) FILE_LOG_MAGIC"
  by (rule starts_with_append)

lemma magic_not_Nil [simp]: "FILE_LOG_MAGIC \<noteq> []"
  by (simp add: FILE_LOG_MAGIC_def)

lemma file_with_cap_nonempty:
  assumes "contents \<noteq> []"
  shows "file_with_cap open_io_ok path cap contents =
    (contents, rbind (decode_file_log path contents cap) (\<lambda>(events, tot).
       Inr \<lparr>fl_path = path, fl_file = contents, fl_events = events, fl_byte_total = tot,
            fl_byte_cap = cap, fl_notify = 0\<rparr>))"
  using assms by (simp add: file_with_cap_def open_io_ok_def io_step_def)

lemma file_synced_fresh [simp]: "file_synced (file_fresh path cap)"
  by (simp add: file_synced_def file_inv_def file_fresh_def)

lemma file_synced_append:
  assumes "file_synced l" and "length (fl_events l) < usize_max" and "file_append IoOk l e = (l', r)"
  shows "file_synced l'"
proof -
  have "file_inv l'"
    using assms file_log.append_inv by (auto simp: file_synced_def)
  then show ?thesis
    using assms by (auto simp: file_synced_def elim!: file_append_cases)
qed

lemma file_append_grows:
  "file_append io l e = (l', r) \<Longrightarrow> length (fl_file l) \<le> length (fl_file l')"
  by (cases io) (auto elim!: file_append_cases)

lemma file_append_config:
  "file_append io l e = (l', r) \<Longrightarrow> fl_path l' = fl_path l \<and> fl_byte_cap l' = fl_byte_cap l"
  by (auto elim!: file_append_cases)

lemma file_synced_events_bound:
  "file_synced l \<Longrightarrow> length (fl_file l) \<le> usize_max \<Longrightarrow> length (fl_events l) < usize_max"
  by (auto simp: file_synced_def length_frames_of usize_max_def)

lemma file_appends_simps [simp]:
  "file_appends l [] = l"
  "file_appends l (e # es) = file_appends (fst (file_append IoOk l e)) es"
  by (simp_all add: file_appends_def)

lemma file_appends_grows: "length (fl_file l) \<le> length (fl_file (file_appends l es))"
proof (induction es arbitrary: l)
  case Nil
  then show ?case by simp
next
  case (Cons e es)
  then show ?case
    using file_append_grows [of IoOk l e] by (metis file_appends_simps(2) order_trans prod.collapse)
qed

lemma file_appends_synced:
  assumes "file_synced l" and "length (fl_file (file_appends l es)) \<le> usize_max"
  shows "file_synced (file_appends l es) \<and> fl_path (file_appends l es) = fl_path l \<and>
    fl_byte_cap (file_appends l es) = fl_byte_cap l"
  using assms
proof (induction es arbitrary: l)
  case Nil
  then show ?case by simp
next
  case (Cons e es)
  let ?l = "fst (file_append IoOk l e)"
  have app: "file_append IoOk l e = (?l, snd (file_append IoOk l e))" by simp
  have "length (fl_file l) \<le> usize_max"
    using file_append_grows [OF app] file_appends_grows [of ?l es] Cons.prems(2) by simp
  then have "file_synced ?l"
    using file_synced_append [OF Cons.prems(1) _ app] file_synced_events_bound [OF Cons.prems(1)] by simp
  then show ?case
    using Cons.IH [of ?l] Cons.prems(2) file_append_config [OF app] by simp
qed

lemma file_synced_reopen:
  assumes "file_synced l" and "length (fl_file l) \<le> usize_max"
    and "data_total (fl_events l) \<le> cap" and "cap \<le> usize_max"
  shows "file_with_cap open_io_ok path cap (fl_file l) =
    (fl_file l, Inr (l\<lparr>fl_path := path, fl_byte_cap := cap, fl_notify := 0\<rparr>))"
proof -
  have "decode_file_log path (fl_file l) cap = Inr (fl_events l, data_total (fl_events l))"
    using assms decode_file_prefix [of "fl_events l" "[]" cap path] decode_frames_end
    by (simp add: file_synced_def file_inv_def FILE_LOG_HEADER_LEN_def)
  then show ?thesis
    using assms by (simp add: file_with_cap_nonempty file_synced_def file_inv_def)
qed

text \<open>A truncated frame is never accepted: some read fails, or its data runs past the end.\<close>

lemma decode_frame_truncated:
  assumes len: "length bs \<le> usize_max" and at: "drop i bs = take k (event_frame e)"
    and k: "0 < k" "k < length (event_frame e)" and dl: "length (ev_data e) \<le> usize_max"
  shows "\<exists>off reason. decode_frame path bs cap i n tot = Inl (ReplayLogCorrupt path off reason)"
proof (cases "k < 29")
  case True
  have "length bs < i + 29"
  proof -
    have "length (drop i bs) = k" using at k by simp
    with True show ?thesis by simp
  qed
  then have "decode_frame path bs cap i n tot \<noteq> Inr r" for r
    using decode_frame_progress [of path bs cap i n tot] by (cases r) fastforce
  then have bad: "\<not> i + 29 \<le> length bs" using \<open>length bs < i + 29\<close> by simp
  show ?thesis
    using bad
    by (auto simp: decode_frame_def Let_def rbind_def read_u64_def read_i64_def read_u32_def
        read_u8_def checked_read_end_def ok_or_def decode_stream_def checked_add_usize_def
        split: option.splits sum.splits if_splits)
next
  case False
  let ?d = "ev_data e"
  have dl': "unat (of_nat (length ?d) :: u64) = length ?d" using dl by (rule unat_of_nat_u64)
  have at': "drop i bs = u64_to_le_bytes (ev_seq e) @ [encode_stream (ev_stream e)] @
      u64_to_le_bytes (time_secs (ev_timestamp e)) @ u32_to_le_bytes (time_nanos (ev_timestamp e)) @
      u64_to_le_bytes (of_nat (length ?d)) @ take (k - 29) ?d"
  proof -
    have cut: "take k (xs @ ys) = xs @ take (k - 29) ys" if "length xs = 29" for xs ys :: "byte list"
      using that False by simp
    show ?thesis
      using at cut [of "u64_to_le_bytes (ev_seq e) @ [encode_stream (ev_stream e)] @
        u64_to_le_bytes (time_secs (ev_timestamp e)) @ u32_to_le_bytes (time_nanos (ev_timestamp e)) @
        u64_to_le_bytes (of_nat (length ?d))" ?d]
      by (simp add: event_frame_def frame_bytes_def)
  qed
  have "length (drop i bs) = k" using at k by simp
  then have "length bs = i + k" using k by simp
  then have short: "length bs < i + 29 + length ?d" using k by simp
  note fields = read_frame_fields [OF len at']
  show ?thesis
    using short
    by (simp add: decode_frame_def fields(1-5) dl' Let_def checked_add_usize_def)
qed

section \<open>Properties\<close>

text \<open>The file log read as an in-memory log.\<close>

definition file_abs :: "file_log \<Rightarrow> mem_log" where
  "file_abs l = \<lparr>ml_events = fl_events l, ml_byte_total = fl_byte_total l,
     ml_byte_cap = fl_byte_cap l, ml_notify = fl_notify l\<rparr>"

text \<open>A concrete event, for the witnesses.\<close>

definition wit_event :: append_log_event where
  "wit_event = \<lparr>ap_stream = Stdout, ap_data = [104, 105], ap_timestamp = 5\<rparr>"

lemmas wit_simps = file_append_def checked_add_usize_def usize_max_def file_fresh_def
  seq_from_len_def encode_frame_eq time_encodable_def i64_max_def nanos_per_sec_def wit_event_def

lemma file_appends_wit:
  "length (fl_file (file_appends (file_fresh p 100) [wit_event])) \<le> usize_max"
  "fl_events (file_appends (file_fresh p 100) [wit_event]) = [event_at 0 wit_event]"
proof -
  have "fl_file (file_appends (file_fresh p 100) [wit_event]) = FILE_LOG_MAGIC @ event_frame (event_at 0 wit_event)
     \<and> fl_events (file_appends (file_fresh p 100) [wit_event]) = [event_at 0 wit_event]"
    by (simp add: wit_simps)
  then show "length (fl_file (file_appends (file_fresh p 100) [wit_event])) \<le> usize_max"
     "fl_events (file_appends (file_fresh p 100) [wit_event]) = [event_at 0 wit_event]"
    by (simp_all add: usize_max_def FILE_LOG_MAGIC_def wit_event_def)
qed

lemma length_frame_of: "e \<in> set evs \<Longrightarrow> 29 + length (ev_data e) \<le> length (frames_of evs)"
  by (induction evs) auto

text \<open>C8: Exactly which files decode: a file of addressable size decodes to \<open>evs\<close> and a total if and only
  if it is, byte for byte, the magic header and the frames of \<open>evs\<close>, these are numbered from 0
  without a gap, each timestamp's seconds fit an \<open>i64\<close>, and the byte total is the sum of their data,
  within the cap. Each of those frames is the one \<open>encode_frame\<close> writes for its event, with one
  exception: it refuses the timestamps of the last second before the range ends (seconds
  \<open>i64::MIN\<close>), which the decoder accepts.\<close>

theorem file_log_exact:
  assumes "length bs \<le> usize_max" and "cap \<le> usize_max"
  shows "(decode_file_log path bs cap = Inr (evs, tot) \<longleftrightarrow>
      bs = FILE_LOG_MAGIC @ frames_of evs \<and> numbered evs \<and>
      (\<forall>e \<in> set evs. - (2 ^ 63 * 10 ^ 9) \<le> ev_timestamp e \<and> ev_timestamp e < 2 ^ 63 * 10 ^ 9) \<and>
      tot = data_total evs \<and> tot \<le> cap) \<and>
    (decode_file_log path bs cap = Inr (evs, tot) \<longrightarrow>
      (\<forall>e \<in> set evs. encode_frame path (ev_seq e)
          \<lparr>ap_stream = ev_stream e, ap_data = ev_data e, ap_timestamp = ev_timestamp e\<rparr> =
        (if ev_timestamp e < - ((2 ^ 63 - 1) * 10 ^ 9)
         then Inl (ReplayLogCorrupt path 0 ''timestamp seconds exceed frame range'')
         else Inr (event_frame e))))"
proof -
  have range: "time_decodable t \<longleftrightarrow> - (2 ^ 63 * 10 ^ 9) \<le> t \<and> t < 2 ^ 63 * 10 ^ 9" for t
    by (simp add: time_decodable_def i64_max_def nanos_per_sec_def)
  have fwd: "bs = FILE_LOG_MAGIC @ frames_of evs \<and> numbered evs \<and>
      (\<forall>e \<in> set evs. time_decodable (ev_timestamp e)) \<and> tot = data_total evs \<and> tot \<le> cap"
    if "decode_file_log path bs cap = Inr (evs, tot)"
  proof -
    have d: "starts_with bs FILE_LOG_MAGIC"
        "decode_frames path bs cap FILE_LOG_HEADER_LEN [] 0 = Inr (evs, tot)"
      using that by (auto simp: decode_file_log_def split: if_splits)
    then obtain rest where "bs = FILE_LOG_MAGIC @ rest" by (auto simp: starts_with_iff)
    then show ?thesis
      using decode_frames_Inr [OF d(2)] assms(1) by (auto simp: FILE_LOG_HEADER_LEN_def)
  qed
  have enc: "encode_frame path (ev_seq e)
          \<lparr>ap_stream = ev_stream e, ap_data = ev_data e, ap_timestamp = ev_timestamp e\<rparr> =
        (if ev_timestamp e < - ((2 ^ 63 - 1) * 10 ^ 9)
         then Inl (ReplayLogCorrupt path 0 ''timestamp seconds exceed frame range'')
         else Inr (event_frame e))"
    if "decode_file_log path bs cap = Inr (evs, tot)" "e \<in> set evs" for e
  proof -
    have len: "29 + length (ev_data e) \<le> usize_max"
      using length_frame_of [OF that(2)] fwd [OF that(1)] assms(1) by simp
    have time: "time_encodable (ev_timestamp e) \<longleftrightarrow> \<not> ev_timestamp e < - ((2 ^ 63 - 1) * 10 ^ 9)"
      using time_decodable_encodable [of "ev_timestamp e"] fwd [OF that(1)] that(2)
      by (simp add: i64_max_def nanos_per_sec_def)
    have self: "event_at (ev_seq e)
        \<lparr>ap_stream = ev_stream e, ap_data = ev_data e, ap_timestamp = ev_timestamp e\<rparr> = e"
      by (cases e) (simp add: event_at_def)
    show ?thesis unfolding encode_frame_eq self using len time by simp
  qed
  have "decode_file_log path (FILE_LOG_MAGIC @ frames_of evs) cap = Inr (evs, data_total evs)"
    if "numbered evs" "\<forall>e \<in> set evs. time_decodable (ev_timestamp e)" "data_total evs \<le> cap"
      "bs = FILE_LOG_MAGIC @ frames_of evs"
    using decode_file_decodable [of evs "[]" cap path] assms that
    by (simp add: decode_frames_end FILE_LOG_HEADER_LEN_def)
  then show ?thesis using fwd enc unfolding range [symmetric] by metis
qed

lemma file_log_exact_witness:
  "\<exists>bs evs tot. decode_file_log ''p'' bs 100 = Inr (evs, tot) \<and> length evs = 1 \<and>
     bs = FILE_LOG_MAGIC @ frames_of evs \<and> numbered evs \<and> tot = data_total evs \<and> tot \<le> 100"
proof -
  let ?e = "event_at 0 wit_event"
  let ?bs = "FILE_LOG_MAGIC @ frames_of [?e]"
  have len: "length ?bs \<le> usize_max"
    by (simp add: usize_max_def FILE_LOG_MAGIC_def wit_event_def)
  have "numbered [?e]" by (simp add: numbered_def usize_max_def)
  then have dec: "decode_file_log ''p'' ?bs 100 = Inr ([?e], 2)"
    using decode_file_prefix [of "[?e]" "[]" 100 "''p''"] len
    by (simp add: decode_frames_end usize_max_def wit_event_def time_encodable_def i64_max_def
        nanos_per_sec_def FILE_LOG_HEADER_LEN_def)
  show ?thesis
    using file_log_exact [OF len, of 100 "''p''" "[?e]" 2] dec
    by (intro exI [of _ ?bs] exI [of _ "[?e]"] exI [of _ 2]) (simp add: usize_max_def)
qed

text \<open>Opening a fresh file, appending any events and opening the file again restores the log: the
  same events, byte total, cap and file, whichever of the appends the cap or the timestamp check
  refused, as long as the I/O succeeds and the file stays addressable.\<close>

theorem file_log_reopen:
  assumes "length (fl_file (file_appends (file_fresh path cap) es)) \<le> usize_max" and "cap \<le> usize_max"
  shows "file_with_cap open_io_ok path cap (fl_file (file_appends (file_fresh path cap) es)) =
    (fl_file (file_appends (file_fresh path cap) es),
     Inr ((file_appends (file_fresh path cap) es)\<lparr>fl_notify := 0\<rparr>))"
proof -
  let ?l = "file_appends (file_fresh path cap) es"
  have l: "file_synced ?l" "fl_path ?l = path" "fl_byte_cap ?l = cap"
    using file_appends_synced [OF file_synced_fresh assms(1)] by (simp_all add: file_fresh_def)
  then have "data_total (fl_events ?l) \<le> cap" by (simp add: file_synced_def file_inv_def)
  then show ?thesis
    using file_synced_reopen [OF l(1) assms(1) _ assms(2), of path] l(2,3) by simp
qed

lemma file_log_reopen_witness:
  "fl_events (file_appends (file_fresh ''p'' 100) [wit_event]) = [event_at 0 wit_event] \<and>
   file_with_cap open_io_ok ''p'' 100 (fl_file (file_appends (file_fresh ''p'' 100) [wit_event])) =
    (fl_file (file_appends (file_fresh ''p'' 100) [wit_event]),
     Inr ((file_appends (file_fresh ''p'' 100) [wit_event])\<lparr>fl_notify := 0\<rparr>))"
  using file_log_reopen [OF file_appends_wit(1), of "''p''"] file_appends_wit(2)
  by (simp add: usize_max_def)

text \<open>A torn write makes the file unreadable: after an append whose \<open>write_all\<close> failed with at
  least one but not all bytes of the frame in the file, the log in memory is unchanged, but every
  later open of the file reports corruption.\<close>

theorem torn_append_poisons_reopen:
  assumes "file_synced l" and "0 < k" and "file_append (IoWriteErr k source) l e = (l', r)"
    and "k < 29 + length (ap_data e)" and "r = Inl (ReplayLogIo p source)"
    and "length (fl_file l') \<le> usize_max" and "fl_byte_cap l \<le> usize_max"
  shows "fl_events l' = fl_events l \<and>
    (\<exists>off reason. file_with_cap open_io_ok path (fl_byte_cap l) (fl_file l') =
      (fl_file l', Inl (ReplayLogCorrupt path off reason)))"
proof -
  let ?e = "event_at (file_next_seq l) e"
  have l': "fl_file l' = FILE_LOG_MAGIC @ frames_of (fl_events l) @ take k (event_frame ?e)"
     "fl_events l' = fl_events l" "length (ap_data e) \<le> usize_max"
    using assms(3,1,5,7) by (auto elim!: file_append_cases simp: file_synced_def)
  have dec: "decode_file_log path (fl_file l') (fl_byte_cap l) =
      decode_frames path (fl_file l') (fl_byte_cap l)
        (FILE_LOG_HEADER_LEN + length (frames_of (fl_events l))) (fl_events l) (data_total (fl_events l))"
    using assms unfolding l' by (intro decode_file_prefix) (auto simp: l' file_synced_def file_inv_def)
  have at: "drop (FILE_LOG_HEADER_LEN + length (frames_of (fl_events l))) (fl_file l') =
      take k (event_frame ?e)"
    by (simp add: l' FILE_LOG_HEADER_LEN_def)
  obtain off reason where "decode_frame path (fl_file l') (fl_byte_cap l)
        (FILE_LOG_HEADER_LEN + length (frames_of (fl_events l))) (length (fl_events l))
        (data_total (fl_events l)) = Inl (ReplayLogCorrupt path off reason)"
    using decode_frame_truncated [OF assms(6) at assms(2), of path "fl_byte_cap l"
      "length (fl_events l)" "data_total (fl_events l)"] assms(4) l'(3) by auto
  moreover have "FILE_LOG_HEADER_LEN + length (frames_of (fl_events l)) < length (fl_file l')"
    using assms(2) by (simp add: l' FILE_LOG_HEADER_LEN_def)
  ultimately show ?thesis
    using dec l'(1,2) by (subst (asm) decode_frames.simps) (simp add: file_with_cap_nonempty)
qed


lemma torn_append_poisons_reopen_witness:
  "\<exists>l' off reason. file_append (IoWriteErr 3 ''disk full'') (file_fresh ''p'' 100) wit_event =
      (l', Inl (ReplayLogIo ''p'' ''disk full'')) \<and> fl_events l' = [] \<and>
    file_with_cap open_io_ok ''p'' 100 (fl_file l') =
      (fl_file l', Inl (ReplayLogCorrupt ''p'' off reason))"
proof -
  let ?l = "file_fresh ''p'' 100"
  let ?l' = "?l\<lparr>fl_file := FILE_LOG_MAGIC @ take 3 (event_frame (event_at 0 wit_event))\<rparr>"
  have app: "file_append (IoWriteErr 3 ''disk full'') ?l wit_event =
      (?l', Inl (ReplayLogIo ''p'' ''disk full''))"
    by (simp add: wit_simps)
  have "length (fl_file ?l') \<le> usize_max" by (simp add: usize_max_def FILE_LOG_MAGIC_def)
  then show ?thesis
    using torn_append_poisons_reopen [OF file_synced_fresh _ app, where path = "''p''"] app
    by (simp add: usize_max_def file_fresh_def wit_event_def)
qed

text \<open>The same holds of the header: when its first write fails part way the file is not empty any more, so
  no later open writes it again, and every one of them rejects the file.\<close>

lemma torn_header_poisons_open:
  assumes "0 < k" and "k < FILE_LOG_HEADER_LEN"
    and "oi_open io = None" and "oi_metadata io = None" and "oi_write io = IoWriteErr k source"
  shows "file_with_cap io path cap [] = (take k FILE_LOG_MAGIC, Inl (ReplayLogIo path source))"
    and "file_with_cap open_io_ok path cap (take k FILE_LOG_MAGIC) =
      (take k FILE_LOG_MAGIC, Inl (ReplayLogCorrupt path 0 ''missing replay log magic header''))"
proof -
  show "file_with_cap io path cap [] = (take k FILE_LOG_MAGIC, Inl (ReplayLogIo path source))"
    using assms(3-5) by (simp add: file_with_cap_def io_step_def)
  have "\<not> starts_with (take k FILE_LOG_MAGIC) FILE_LOG_MAGIC"
    using assms(2) by (auto simp: starts_with_iff FILE_LOG_HEADER_LEN_def dest!: arg_cong [of _ _ length])
  moreover have "take k FILE_LOG_MAGIC \<noteq> []" using assms(1) by simp
  ultimately show "file_with_cap open_io_ok path cap (take k FILE_LOG_MAGIC) =
      (take k FILE_LOG_MAGIC, Inl (ReplayLogCorrupt path 0 ''missing replay log magic header''))"
    by (simp add: file_with_cap_nonempty decode_file_log_def)
qed

text \<open>A frame whose sequence number is not the next one makes the file unreadable.\<close>

lemma wrong_seq_rejected:
  assumes "length (FILE_LOG_MAGIC @ frames_of evs @ event_frame ev) \<le> usize_max" and "numbered evs"
    and "\<forall>e \<in> set (evs @ [ev]). time_encodable (ev_timestamp e)" and "data_total evs \<le> cap" and "cap \<le> usize_max"
    and "length evs \<le> usize_max" and "unat (ev_seq ev) \<noteq> length evs"
  shows "snd (file_with_cap open_io_ok path cap (FILE_LOG_MAGIC @ frames_of evs @ event_frame ev)) =
    Inl (ReplayLogCorrupt path (FILE_LOG_HEADER_LEN + length (frames_of evs))
      (''expected seq '' @ dec_digits (length evs) @ '', found '' @ dec_digits (unat (ev_seq ev))))"
proof -
  let ?bs = "FILE_LOG_MAGIC @ frames_of evs @ event_frame ev" and ?i = "FILE_LOG_HEADER_LEN + length (frames_of evs)"
  have at: "drop ?i ?bs = event_frame ev @ []" by (simp add: FILE_LOG_HEADER_LEN_def)
  have n: "unat (of_nat (length evs) :: seq) = length evs" using assms(6) by (rule unat_of_nat_u64)
  then have "ev_seq ev \<noteq> of_nat (length evs)" using assms(7) by metis
  then have "decode_frame path ?bs cap ?i (length evs) (data_total evs) =
      Inl (ReplayLogCorrupt path ?i (''expected seq '' @ dec_digits (length evs) @
        '', found '' @ dec_digits (unat (ev_seq ev))))"
    using decode_frame_at [OF assms(1,6) at, of path cap "data_total evs"] assms(3) n by simp
  moreover have "?i < length ?bs" by (simp add: FILE_LOG_HEADER_LEN_def)
  ultimately have "decode_frames path ?bs cap ?i evs (data_total evs) =
      Inl (ReplayLogCorrupt path ?i (''expected seq '' @ dec_digits (length evs) @
        '', found '' @ dec_digits (unat (ev_seq ev))))"
    by (subst decode_frames.simps) simp
  then show ?thesis using decode_file_prefix [OF assms(1,2) _ assms(4,5)] assms(3)
    by (simp add: file_with_cap_nonempty)
qed

text \<open>After a write that reached the file whole, the file holds one event more than the log.\<close>

lemma failed_sync_synced:
  assumes "file_synced l" and "file_append (IoSyncErr source) l e = (l1, Inl (ReplayLogIo p source))"
    and "Suc (length (fl_events l)) < usize_max"
  shows "l1 = l\<lparr>fl_file := fl_file l @ event_frame (event_at (of_nat (length (fl_events l))) e)\<rparr>"
    and "file_synced (l1\<lparr>fl_events := fl_events l @ [event_at (of_nat (length (fl_events l))) e],
      fl_byte_total := fl_byte_total l + length (ap_data e)\<rparr>)"
    and "fl_byte_total l + length (ap_data e) \<le> fl_byte_cap l"
proof -
  let ?e = "event_at (of_nat (length (fl_events l))) e"
  show l1: "l1 = l\<lparr>fl_file := fl_file l @ event_frame ?e\<rparr>"
      and "fl_byte_total l + length (ap_data e) \<le> fl_byte_cap l"
    using assms(2) by (auto elim!: file_append_cases simp: file_next_seq_def)
  have "time_encodable (ap_timestamp e)" "fl_byte_total l + length (ap_data e) \<le> fl_byte_cap l"
    using assms(2) by (auto elim!: file_append_cases)
  moreover have "numbered (fl_events l @ [?e])"
    using assms(1,3) by (intro numbered_append_one) (auto simp: file_synced_def file_inv_def)
  ultimately show "file_synced (l1\<lparr>fl_events := fl_events l @ [?e],
      fl_byte_total := fl_byte_total l + length (ap_data e)\<rparr>)"
    using assms(1) l1 by (auto simp: file_synced_def file_inv_def)
qed

text \<open>C40: When \<open>write_all\<close> succeeds and \<open>sync\<close> fails, the append is reported as failed and
  the log in memory keeps its old events, but reopening the file brings the failed event back; and
  when a later append succeeds instead, it reuses the sequence number, so reopening rejects the
  file: "expected seq n+1, found n".\<close>

theorem failed_sync_then_append_poisons_reopen:
  assumes "file_synced l" and "fl_byte_cap l \<le> usize_max"
    and "file_append (IoSyncErr source) l e = (l1, Inl (ReplayLogIo p source))"
    and "file_append IoOk l1 e' = (l2, Inr s)"
    and "length (fl_file l2) \<le> usize_max"
  shows "fl_events l1 = fl_events l \<and>
    snd (file_with_cap open_io_ok path (fl_byte_cap l) (fl_file l1)) =
      Inr (l1\<lparr>fl_path := path, fl_events := fl_events l @ [event_at s e],
        fl_byte_total := fl_byte_total l + length (ap_data e), fl_notify := 0\<rparr>) \<and>
    fl_events l2 = fl_events l @ [event_at s e'] \<and>
    (\<exists>off. snd (file_with_cap open_io_ok path (fl_byte_cap l) (fl_file l2)) =
      Inl (ReplayLogCorrupt path off (''expected seq '' @ dec_digits (length (fl_events l) + 1) @
        '', found '' @ dec_digits (length (fl_events l)))))"
proof -
  let ?n = "length (fl_events l)"
  let ?e = "event_at (of_nat ?n) e" and ?e' = "event_at (of_nat ?n) e'"
  let ?l = "l1\<lparr>fl_events := fl_events l @ [?e], fl_byte_total := fl_byte_total l + length (ap_data e)\<rparr>"
  have unsynced: "fl_file l1 = fl_file l @ event_frame ?e" "fl_events l1 = fl_events l"
    using assms(3) by (auto elim!: file_append_cases simp: file_next_seq_def)
  then have l2: "fl_file l2 = fl_file l @ event_frame ?e @ event_frame ?e'" "s = of_nat ?n"
      "time_encodable (ap_timestamp e')" "fl_events l2 = fl_events l @ [?e']"
    using assms(4) by (auto elim!: file_append_cases simp: file_next_seq_def)
  have n: "Suc ?n < usize_max"
    using assms(1,5) l2(1) by (auto simp: file_synced_def length_frames_of)
  note l1 = failed_sync_synced [OF assms(1,3) n]
  have inv: "data_total (fl_events ?l) \<le> fl_byte_cap l" "numbered (fl_events ?l)"
      "\<forall>e \<in> set (fl_events ?l). time_encodable (ev_timestamp e)"
      "fl_file l2 = FILE_LOG_MAGIC @ frames_of (fl_events ?l) @ event_frame ?e'"
    using assms(1) l1(2,3) l2(1) by (auto simp: file_synced_def file_inv_def)
  have "length (fl_file ?l) \<le> usize_max" using assms(5) unsynced(1) l2(1) by simp
  from file_synced_reopen [OF l1(2) this inv(1) assms(2)]
  have r1: "snd (file_with_cap open_io_ok path (fl_byte_cap l) (fl_file l1)) =
      Inr (?l\<lparr>fl_path := path, fl_notify := 0\<rparr>)"
    using l1(1) by simp
  have "unat (of_nat ?n :: seq) = ?n" using n by (intro unat_of_nat_u64) simp
  then have "snd (file_with_cap open_io_ok path (fl_byte_cap l) (fl_file l2)) =
      Inl (ReplayLogCorrupt path (FILE_LOG_HEADER_LEN + length (frames_of (fl_events ?l)))
        (''expected seq '' @ dec_digits (?n + 1) @ '', found '' @ dec_digits ?n))"
    unfolding inv(4) using wrong_seq_rejected [of "fl_events ?l" ?e' "fl_byte_cap l" path] inv assms(2,5) n l2(3)
    by simp
  then show ?thesis using r1 l2(2,4) unsynced(2) l1(1) by auto
qed

lemma failed_sync_then_append_poisons_reopen_witness:
  "\<exists>l1 l2. file_append (IoSyncErr ''sync'') (file_fresh ''p'' 100) wit_event =
      (l1, Inl (ReplayLogIo ''p'' ''sync'')) \<and>
    file_append IoOk l1 wit_event = (l2, Inr 0) \<and>
    snd (file_with_cap open_io_ok ''p'' 100 (fl_file l1)) =
      Inr (l1\<lparr>fl_events := [event_at 0 wit_event], fl_byte_total := 2\<rparr>) \<and>
    (\<exists>off. snd (file_with_cap open_io_ok ''p'' 100 (fl_file l2)) =
      Inl (ReplayLogCorrupt ''p'' off ''expected seq 1, found 0''))"
proof -
  let ?l = "file_fresh ''p'' 100" and ?f = "event_frame (event_at 0 wit_event)"
  let ?l1 = "?l\<lparr>fl_file := FILE_LOG_MAGIC @ ?f\<rparr>"
  let ?l2 = "?l1\<lparr>fl_file := FILE_LOG_MAGIC @ ?f @ ?f, fl_byte_total := 2,
    fl_events := [event_at 0 wit_event], fl_notify := 1\<rparr>"
  have app: "file_append (IoSyncErr ''sync'') ?l wit_event = (?l1, Inl (ReplayLogIo ''p'' ''sync''))"
      "file_append IoOk ?l1 wit_event = (?l2, Inr 0)"
    by (simp_all add: wit_simps)
  have digits: "dec_digits 0 = ''0''" "dec_digits (Suc 0) = ''1''" by code_simp+
  have "length (fl_file ?l2) \<le> usize_max"
    by (simp add: usize_max_def FILE_LOG_MAGIC_def wit_event_def)
  then show ?thesis
    using failed_sync_then_append_poisons_reopen [OF file_synced_fresh _ app, where path = "''p''"] app
    by (simp add: usize_max_def file_fresh_def wit_event_def digits)
qed

text \<open>C7: The file log whose I/O succeeds refines the in-memory log: read as one, it appends with the
  same result and the same new state, and replays the same events, for every event whose timestamp
  and size a frame can carry.\<close>

theorem file_log_refines_mem_log:
  assumes "length (fl_events l) \<le> usize_max" and "time_encodable (ap_timestamp e)"
    and "29 + length (ap_data e) \<le> usize_max"
  shows "mem_append (file_abs l) e =
    (file_abs (fst (file_append IoOk l e)), snd (file_append IoOk l e)) \<and>
    mem_replay_from (file_abs l) s = file_replay_from l s \<and>
    mem_next_seq (file_abs l) = file_next_seq l \<and> mem_len (file_abs l) = file_len l"
  using assms
  by (simp add: file_abs_def mem_append_def file_append_def encode_frame_eq seq_from_len_def
      mem_next_seq_def mem_replay_from_def mem_since_def file_replay_from_def file_since_def
      file_next_seq_def mem_len_def file_len_def Let_def split: option.split)

lemma file_log_refines_mem_log_witness:
  "mem_append (file_abs (file_fresh ''p'' 100)) wit_event =
    (file_abs (fst (file_append IoOk (file_fresh ''p'' 100) wit_event)), Inr 0)"
  using file_log_refines_mem_log [of "file_fresh ''p'' 100" wit_event]
  by (simp add: wit_simps)

end
