(* ===== verification/Codemode.thy ===== *)
theory Codemode
  imports Rust_Text
begin

text \<open>
  \<open>crates/axp-codemode\<close>: the runner of WebAssembly components (\<open>runner.rs\<close>) and its errors
  (\<open>error.rs\<close>). \<open>wasmtime\<close> is the record \<open>wasm\<close> of what it answers; a component may only
  import what was defined in the linker. The second part is the interruption of a run from another
  thread: the atomic steps of \<open>interrupt\<close> and those of the run that arm its store.
\<close>

section \<open>Configuration and errors\<close>

definition DEFAULT_ENTRYPOINT :: string where "DEFAULT_ENTRYPOINT = ''run''"
definition DEFAULT_FUEL :: u64 where "DEFAULT_FUEL = 10000000"
definition DEFAULT_EPOCH_DEADLINE :: nat where "DEFAULT_EPOCH_DEADLINE = 1"
definition DEFAULT_HOST_RESULT_IMPORT :: string where "DEFAULT_HOST_RESULT_IMPORT = ''host-result''"
definition DEFAULT_CAPABILITY_INVOKE_IMPORT :: string where
  "DEFAULT_CAPABILITY_INVOKE_IMPORT = ''axp:capability/invoke''"

datatype codemode_error =
  CmEngine string
| CmCompile string
| CmFuel string
| CmInstantiate string
| CmEntrypoint string string                 \<comment> \<open>name, source\<close>
| CmRun string

primrec codemode_error_display :: "codemode_error \<Rightarrow> string" where
  "codemode_error_display (CmEngine e) = ''failed to configure WASM engine: '' @ e"
| "codemode_error_display (CmCompile e) = ''failed to compile WASM component: '' @ e"
| "codemode_error_display (CmFuel e) = ''failed to initialize WASM fuel: '' @ e"
| "codemode_error_display (CmInstantiate e) = ''failed to instantiate WASM component: '' @ e"
| "codemode_error_display (CmEntrypoint name source) =
     ''WASM component entrypoint `'' @ name @ ''` is not callable with the configured signature''"
| "codemode_error_display (CmRun e) = ''WASM component execution failed: '' @ e"

type_synonym invoke_handler = "string \<Rightarrow> string \<Rightarrow> (string, string) result"

record run_output =
  ro_entrypoint :: string
  ro_result :: "string option"

record host_imports =
  hi_host_result :: "string option"

definition host_imports_default :: host_imports where
  "host_imports_default = \<lparr>hi_host_result = None\<rparr>"

record runner_config =
  rn_entrypoint :: string
  rn_fuel :: u64
  rn_host_imports :: host_imports
  rn_capability_invoke :: "invoke_handler option"

definition runner_config_default :: runner_config where
  "runner_config_default = \<lparr>rn_entrypoint = DEFAULT_ENTRYPOINT, rn_fuel = DEFAULT_FUEL,
     rn_host_imports = host_imports_default, rn_capability_invoke = None\<rparr>"

text \<open>Engines are told apart by a number. A handle is read with its flag's current value.\<close>

record code_mode_runner =
  cr_engine :: nat
  cr_config :: runner_config

record interrupt_handle =
  ih_engine :: nat
  ih_interrupted :: bool

record code_mode_store =
  cs_host_result :: string
  cs_capability_invoke :: "invoke_handler option"
  cs_fuel :: u64
  cs_epoch_delta :: nat

section \<open>wasmtime\<close>

text \<open>The host functions a linker can hold, under their import names.\<close>

datatype host_import = ImportHostResult | ImportCapabilityInvoke

type_synonym linker = "(string \<times> host_import) list"

record ('c, 'i) wasm =
  wm_engine :: "(string, nat) result"
  wm_compile :: "byte list \<Rightarrow> (string, 'c) result"
  wm_func_wrap :: "linker \<Rightarrow> string \<Rightarrow> string option"
  wm_set_fuel :: "u64 \<Rightarrow> string option"
  wm_instantiate :: "linker \<Rightarrow> code_mode_store \<Rightarrow> 'c \<Rightarrow> (string, 'i) result"
  wm_string_func :: "'i \<Rightarrow> string \<Rightarrow> string option"
  wm_unit_func :: "'i \<Rightarrow> string \<Rightarrow> string option"
  wm_call_string :: "'i \<Rightarrow> string \<Rightarrow> code_mode_store \<Rightarrow> (string, string) result"
  wm_call_unit :: "'i \<Rightarrow> string \<Rightarrow> code_mode_store \<Rightarrow> (string, unit) result"

text \<open>The closures behind the two imports.\<close>

definition host_result_import :: "code_mode_store \<Rightarrow> (string, string) result" where
  "host_result_import store = Inr (cs_host_result store)"

definition capability_invoke_import :: "code_mode_store \<Rightarrow> string \<Rightarrow> string \<Rightarrow> (string, string) result" where
  "capability_invoke_import store name params_json =
     (case cs_capability_invoke store of
        None \<Rightarrow> Inl ''capability invoke handler not configured''
      | Some handler \<Rightarrow> handler name params_json)"

section \<open>The runner\<close>

definition with_config :: "('c, 'i) wasm \<Rightarrow> runner_config \<Rightarrow> (codemode_error, code_mode_runner) result" where
  "with_config wm config =
     rbind (map_err CmEngine (wm_engine wm)) (\<lambda>engine. Inr \<lparr>cr_engine = engine, cr_config = config\<rparr>)"

definition runner_new :: "('c, 'i) wasm \<Rightarrow> (codemode_error, code_mode_runner) result" where
  "runner_new wm = with_config wm runner_config_default"

definition new_interrupt_handle :: "code_mode_runner \<Rightarrow> interrupt_handle" where
  "new_interrupt_handle runner = \<lparr>ih_engine = cr_engine runner, ih_interrupted = False\<rparr>"

definition define_import ::
    "('c, 'i) wasm \<Rightarrow> bool \<Rightarrow> string \<Rightarrow> host_import \<Rightarrow> linker \<Rightarrow> (codemode_error, linker) result" where
  "define_import wm wanted name f linker =
     (if wanted then
        (case wm_func_wrap wm linker name of
           Some e \<Rightarrow> Inl (CmInstantiate e)
         | None \<Rightarrow> Inr (linker @ [(name, f)]))
      else Inr linker)"

definition make_store :: "runner_config \<Rightarrow> interrupt_handle \<Rightarrow> code_mode_store" where
  "make_store config interrupt =
     \<lparr>cs_host_result = (case hi_host_result (rn_host_imports config) of Some s \<Rightarrow> s | None \<Rightarrow> ''''),
      cs_capability_invoke = rn_capability_invoke config, cs_fuel = rn_fuel config,
      cs_epoch_delta = (if ih_interrupted interrupt then 0 else DEFAULT_EPOCH_DEADLINE)\<rparr>"

definition call_string ::
    "('c, 'i) wasm \<Rightarrow> 'i \<Rightarrow> string \<Rightarrow> code_mode_store \<Rightarrow> (codemode_error, string option) result" where
  "call_string wm inst name store =
     rbind (map_err CmRun (wm_call_string wm inst name store)) (\<lambda>result. Inr (Some result))"

definition call_unit ::
    "('c, 'i) wasm \<Rightarrow> 'i \<Rightarrow> string \<Rightarrow> code_mode_store \<Rightarrow> (codemode_error, string option) result" where
  "call_unit wm inst name store =
     rbind (map_err CmRun (wm_call_unit wm inst name store)) (\<lambda>_. Inr None)"

text \<open>The entrypoint: a string result is required, accepted or not looked for.\<close>

definition call_entrypoint ::
    "('c, 'i) wasm \<Rightarrow> runner_config \<Rightarrow> 'i \<Rightarrow> code_mode_store \<Rightarrow> (codemode_error, string option) result" where
  "call_entrypoint wm config inst store =
     (let name = rn_entrypoint config;
          requires_string_result = hi_host_result (rn_host_imports config) \<noteq> None;
          accepts_string_result = requires_string_result \<or> rn_capability_invoke config \<noteq> None in
      if requires_string_result then
        (case wm_string_func wm inst name of
           Some e \<Rightarrow> Inl (CmEntrypoint name e)
         | None \<Rightarrow> call_string wm inst name store)
      else if accepts_string_result then
        (case wm_string_func wm inst name of
           None \<Rightarrow> call_string wm inst name store
         | Some string_source \<Rightarrow>
             (case wm_unit_func wm inst name of
                Some _ \<Rightarrow> Inl (CmEntrypoint name string_source)
              | None \<Rightarrow> call_unit wm inst name store))
      else
        (case wm_unit_func wm inst name of
           Some e \<Rightarrow> Inl (CmEntrypoint name e)
         | None \<Rightarrow> call_unit wm inst name store))"

definition run_component_with_interrupt ::
    "('c, 'i) wasm \<Rightarrow> code_mode_runner \<Rightarrow> byte list \<Rightarrow> interrupt_handle \<Rightarrow> (codemode_error, run_output) result" where
  "run_component_with_interrupt wm runner bytes interrupt =
     (let config = cr_config runner in
      if cr_engine runner \<noteq> ih_engine interrupt then
        Inl (CmRun ''interrupt handle belongs to a different code-mode runner'')
      else
        rbind (map_err CmCompile (wm_compile wm bytes)) (\<lambda>component.
        rbind (define_import wm (hi_host_result (rn_host_imports config) \<noteq> None) DEFAULT_HOST_RESULT_IMPORT ImportHostResult [])
          (\<lambda>linker.
        rbind (define_import wm (rn_capability_invoke config \<noteq> None) DEFAULT_CAPABILITY_INVOKE_IMPORT
            ImportCapabilityInvoke linker) (\<lambda>linker.
        let store = make_store config interrupt in
        case wm_set_fuel wm (rn_fuel config) of
          Some e \<Rightarrow> Inl (CmFuel e)
        | None \<Rightarrow>
            rbind (map_err CmInstantiate (wm_instantiate wm linker store component)) (\<lambda>inst.
            rbind (call_entrypoint wm config inst store) (\<lambda>result.
            Inr \<lparr>ro_entrypoint = rn_entrypoint config, ro_result = result\<rparr>))))))"

definition run_component ::
    "('c, 'i) wasm \<Rightarrow> code_mode_runner \<Rightarrow> byte list \<Rightarrow> (codemode_error, run_output) result" where
  "run_component wm runner bytes = run_component_with_interrupt wm runner bytes (new_interrupt_handle runner)"

section \<open>Interruption\<close>

text \<open>
  The engine's epoch, the handle's flag and the run's deadline. The epoch counts interruptions;
  it is a number here, as \<open>2 ^ 64\<close> of them do not occur. wasmtime traps a store at the next check
  once the epoch has reached its deadline. \<open>iw_half\<close> counts the calls of \<open>interrupt\<close> on the
  handle that have set the flag and not yet moved the epoch, \<open>iw_done\<close> those that returned.
\<close>

datatype run_point =
  RStart
| RArmed
| RLoaded bool
| RExecuting

record interrupt_world =
  iw_epoch :: nat
  iw_flag :: bool
  iw_deadline :: nat
  iw_point :: run_point
  iw_half :: nat
  iw_done :: nat

definition interrupt_flag :: "interrupt_world \<Rightarrow> interrupt_world" where
  "interrupt_flag w = w\<lparr>iw_flag := True, iw_half := Suc (iw_half w)\<rparr>"

definition interrupt_epoch :: "interrupt_world \<Rightarrow> interrupt_world" where
  "interrupt_epoch w = w\<lparr>iw_epoch := Suc (iw_epoch w), iw_half := iw_half w - 1, iw_done := Suc (iw_done w)\<rparr>"

definition set_epoch_deadline :: "nat \<Rightarrow> interrupt_world \<Rightarrow> interrupt_world" where
  "set_epoch_deadline delta w = w\<lparr>iw_deadline := iw_epoch w + delta\<rparr>"

text \<open>The steps of the run, in program order.\<close>

definition run_arm :: "interrupt_world \<Rightarrow> interrupt_world" where
  "run_arm w = (case iw_point w of
     RStart \<Rightarrow> (set_epoch_deadline DEFAULT_EPOCH_DEADLINE w)\<lparr>iw_point := RArmed\<rparr>
   | RArmed \<Rightarrow> w\<lparr>iw_point := RLoaded (iw_flag w)\<rparr>
   | RLoaded True \<Rightarrow> (set_epoch_deadline 0 w)\<lparr>iw_point := RExecuting\<rparr>
   | RLoaded False \<Rightarrow> w\<lparr>iw_point := RExecuting\<rparr>
   | RExecuting \<Rightarrow> w)"

text \<open>Another handle of the same engine can move the epoch too.\<close>

inductive interrupt_step :: "interrupt_world \<Rightarrow> interrupt_world \<Rightarrow> bool" where
  is_flag: "interrupt_step w (interrupt_flag w)"
| is_epoch: "0 < iw_half w \<Longrightarrow> interrupt_step w (interrupt_epoch w)"
| is_other: "interrupt_step w (w\<lparr>iw_epoch := Suc (iw_epoch w)\<rparr>)"
| is_run: "interrupt_step w (run_arm w)"

definition interrupt_new :: "nat \<Rightarrow> interrupt_world" where
  "interrupt_new epoch = \<lparr>iw_epoch = epoch, iw_flag = False, iw_deadline = 0, iw_point = RStart, iw_half = 0, iw_done = 0\<rparr>"

definition will_trap :: "interrupt_world \<Rightarrow> bool" where
  "will_trap w \<longleftrightarrow> iw_deadline w \<le> iw_epoch w"

definition interrupt_inv :: "interrupt_world \<Rightarrow> bool" where
  "interrupt_inv w \<longleftrightarrow> (0 < iw_half w \<or> 0 < iw_done w \<longleftrightarrow> iw_flag w) \<and>
     (case iw_point w of
        RStart \<Rightarrow> True
      | RArmed \<Rightarrow> iw_deadline w \<le> Suc (iw_epoch w)
      | RLoaded True \<Rightarrow> True
      | RLoaded False \<Rightarrow> iw_deadline w \<le> Suc (iw_epoch w) \<and> (0 < iw_done w \<longrightarrow> will_trap w)
      | RExecuting \<Rightarrow> iw_deadline w \<le> Suc (iw_epoch w) \<and> (0 < iw_done w \<longrightarrow> will_trap w))"

lemma interrupt_step_inv: "interrupt_step w w' \<Longrightarrow> interrupt_inv w \<Longrightarrow> interrupt_inv w'"
proof (induction rule: interrupt_step.induct)
  case (is_flag w)
  then show ?case
    by (cases "iw_point w") (auto simp: interrupt_inv_def interrupt_flag_def will_trap_def split: bool.splits)
next
  case (is_epoch w)
  then show ?case
    by (cases "iw_point w") (auto simp: interrupt_inv_def interrupt_epoch_def will_trap_def split: bool.splits)
next
  case (is_other w)
  then show ?case
    by (cases "iw_point w") (auto simp: interrupt_inv_def will_trap_def split: bool.splits)
next
  case (is_run w)
  then show ?case
    by (cases "iw_point w")
      (auto simp: interrupt_inv_def run_arm_def set_epoch_deadline_def will_trap_def DEFAULT_EPOCH_DEADLINE_def
        split: bool.splits)
qed

text \<open>C32: No interruption is lost: in every interleaving of a run's setup with calls of \<open>interrupt\<close> on
  its handle, once a call has returned and the run executes, the run's store traps at its next epoch
  check; and nothing else than a moved epoch or a set flag makes it trap.\<close>

theorem interrupt_not_lost:
  assumes "interrupt_step\<^sup>*\<^sup>* (interrupt_new epoch) w" and "iw_point w = RExecuting"
  shows "(0 < iw_done w \<longrightarrow> will_trap w) \<and> (iw_epoch w = epoch \<and> \<not> iw_flag w \<longrightarrow> \<not> will_trap w)"
proof -
  have "interrupt_inv w \<and> epoch \<le> iw_epoch w \<and>
      (iw_epoch w = epoch \<and> \<not> iw_flag w \<longrightarrow> iw_point w = RStart \<or> iw_point w \<noteq> RLoaded True \<and> iw_deadline w = Suc epoch)"
    using assms(1)
  proof (induction rule: rtranclp_induct)
    case base
    then show ?case by (simp add: interrupt_new_def interrupt_inv_def)
  next
    case (step w w')
    have "interrupt_inv w'" using interrupt_step_inv step by blast
    moreover from step.hyps(2) step.IH have "epoch \<le> iw_epoch w' \<and> (iw_epoch w' = epoch \<and> \<not> iw_flag w' \<longrightarrow>
        iw_point w' = RStart \<or> iw_point w' \<noteq> RLoaded True \<and> iw_deadline w' = Suc epoch)"
      by cases (auto simp: interrupt_flag_def interrupt_epoch_def run_arm_def set_epoch_deadline_def
          DEFAULT_EPOCH_DEADLINE_def split: run_point.splits bool.splits)
    ultimately show ?case by simp
  qed
  then show ?thesis using assms(2) by (auto simp: interrupt_inv_def will_trap_def)
qed

lemma interrupt_not_lost_witness:
  "\<exists>w. interrupt_step\<^sup>*\<^sup>* (interrupt_new 5) w \<and> iw_point w = RExecuting \<and> iw_done w = 1 \<and> will_trap w"
proof -
  let ?w0 = "interrupt_new 5"
  let ?w1 = "run_arm ?w0" let ?w2 = "interrupt_flag ?w1" let ?w3 = "run_arm ?w2"
  let ?w4 = "run_arm ?w3" let ?w5 = "interrupt_epoch ?w4"
  have "interrupt_step ?w0 ?w1" "interrupt_step ?w1 ?w2" "interrupt_step ?w2 ?w3" "interrupt_step ?w3 ?w4"
    by (auto intro: interrupt_step.intros)
  moreover have "interrupt_step ?w4 ?w5"
    by (rule is_epoch) code_simp
  ultimately have "interrupt_step\<^sup>*\<^sup>* ?w0 ?w5"
    by (meson converse_rtranclp_into_rtranclp rtranclp.rtrancl_refl)
  moreover have "iw_point ?w5 = RExecuting" "iw_done ?w5 = 1" by code_simp+
  ultimately show ?thesis using interrupt_not_lost [of 5 ?w5] by (metis zero_less_one)
qed

section \<open>What a successful run established\<close>

definition configured_imports :: "runner_config \<Rightarrow> linker" where
  "configured_imports config =
     (if hi_host_result (rn_host_imports config) \<noteq> None then [(DEFAULT_HOST_RESULT_IMPORT, ImportHostResult)] else []) @
     (if rn_capability_invoke config \<noteq> None then [(DEFAULT_CAPABILITY_INVOKE_IMPORT, ImportCapabilityInvoke)] else [])"

lemma run_component_imports:
  assumes "run_component_with_interrupt wm runner bytes interrupt = Inr out"
  shows "cr_engine runner = ih_engine interrupt \<and>
    (\<exists>component inst. wm_compile wm bytes = Inr component \<and>
      wm_instantiate wm (configured_imports (cr_config runner)) (make_store (cr_config runner) interrupt) component = Inr inst \<and>
      call_entrypoint wm (cr_config runner) inst (make_store (cr_config runner) interrupt) = Inr (ro_result out))"
  using assms
  by (auto simp: run_component_with_interrupt_def define_import_def configured_imports_def result_simps Let_def
      split: if_splits option.splits)

end
