(* ===== verification/Auth.thy ===== *)
theory Auth
  imports Core_Error
begin

text \<open>
  \<open>axp-core/src/auth.rs\<close>: the session credential. The bytes of the operating system's
  entropy source are an argument of \<open>cap_token_generate\<close> (\<open>None\<close> when it fails); the
  constant-time comparison is the fold of the source, byte by byte.
\<close>

definition TOKEN_BYTES :: nat where "TOKEN_BYTES = 32"
definition TOKEN_PREFIX :: string where "TOKEN_PREFIX = ''ct_''"

datatype cap_token = CapToken string

text \<open>One byte of a UTF-8 string.\<close>

definition char_byte :: "char \<Rightarrow> byte" where
  "char_byte c = of_nat (of_char c)"

text \<open>\<open>{byte:02x}\<close>: two lowercase hexadecimal digits.\<close>

definition hex_digit :: "nat \<Rightarrow> char" where
  "hex_digit n = char_of (if n < 10 then 48 + n else 87 + n)"

definition hex_byte :: "byte \<Rightarrow> string" where
  "hex_byte b = [hex_digit (unat b div 16), hex_digit (unat b mod 16)]"

definition cap_token_generate :: "byte list option \<Rightarrow> cap_token core_result" where
  "cap_token_generate entropy =
     (case entropy of
        None \<Rightarrow> Inl Entropy
      | Some bytes \<Rightarrow>
          let token = foldl (\<lambda>token byte. token @ hex_byte byte) TOKEN_PREFIX bytes in
          Inr (CapToken token))"

primrec cap_token_expose :: "cap_token \<Rightarrow> string" where
  "cap_token_expose (CapToken s) = s"

text \<open>\<open>verify\<close>: a length check, then the XOR of every pair of bytes ORed into an accumulator.\<close>

definition cap_token_verify :: "cap_token \<Rightarrow> string \<Rightarrow> bool" where
  "cap_token_verify t presented =
     (let stored = map char_byte (cap_token_expose t); presented = map char_byte presented in
      if length stored \<noteq> length presented then False
      else
        let acc = foldl (\<lambda>acc (a, b). or acc (xor a b)) (0 :: byte) (zip stored presented) in
        acc = 0)"

text \<open>\<open>fmt::Debug\<close> never shows the token; the mark in the middle is the ellipsis in UTF-8.\<close>

definition cap_token_debug :: "cap_token \<Rightarrow> string" where
  "cap_token_debug t = ''CapToken(\"ct_'' @ map char_of [0xE2, 0x80, 0xA6 :: nat] @ ''redacted\")''"

lemma cap_token_debug_redacted: "cap_token_debug t = cap_token_debug u"
  by (simp add: cap_token_debug_def)

section \<open>The comparison\<close>

lemma char_byte_inj [simp]: "char_byte a = char_byte b \<longleftrightarrow> a = b"
proof
  assume eq: "char_byte a = char_byte b"
  have "unat (char_byte c) = of_char c" for c
    by (simp add: char_byte_def unat_of_nat)
  then have "(of_char a :: nat) = of_char b" using eq by metis
  then show "a = b" by simp
qed simp

lemma xor_eq_0_iff_byte: "xor a b = (0 :: byte) \<longleftrightarrow> a = b"
proof
  assume "xor a b = 0"
  then have "xor (xor a b) b = b" by simp
  then show "a = b" by (simp add: xor.assoc)
qed simp

lemma fold_xor_zero:
  "length xs = length ys \<Longrightarrow>
     foldl (\<lambda>acc (a, b). or acc (xor a b)) (acc :: byte) (zip xs ys) = 0 \<longleftrightarrow> acc = 0 \<and> xs = ys"
  by (induction xs ys arbitrary: acc rule: list_induct2)
    (auto simp: or_eq_0_iff xor_eq_0_iff_byte)

lemma cap_token_verify_iff: "cap_token_verify t presented \<longleftrightarrow> presented = cap_token_expose t"
proof -
  have "map char_byte xs = map char_byte ys \<longleftrightarrow> xs = ys" for xs ys
    by (rule inj_map_eq_map) (simp add: inj_def)
  then show ?thesis
    using fold_xor_zero [of "map char_byte (cap_token_expose t)" "map char_byte presented" 0]
    by (auto simp: cap_token_verify_def Let_def)
qed

section \<open>Minting\<close>

lemma foldl_hex: "foldl (\<lambda>token byte. token @ hex_byte byte) p bytes = p @ concat (map hex_byte bytes)"
  by (induction bytes arbitrary: p) auto

lemma hex_digit_inj: "m < 16 \<Longrightarrow> n < 16 \<Longrightarrow> hex_digit m = hex_digit n \<longleftrightarrow> m = n"
proof -
  assume "m < 16" "n < 16"
  moreover have "of_char (hex_digit k) = (if k < 10 then 48 + k else 87 + k)" if "k < 16" for k :: nat
    using that by (simp add: hex_digit_def)
  ultimately show ?thesis
    by (auto dest!: arg_cong [where f = "of_char :: char \<Rightarrow> nat"] split: if_splits)
qed

lemma hex_byte_inj: "hex_byte a = hex_byte b \<longleftrightarrow> a = b"
proof
  assume eq: "hex_byte a = hex_byte b"
  have lt: "unat c < 256" for c :: byte using unsigned_less [of c, where ?'a = nat] by simp
  have "unat a div 16 = unat b div 16" "unat a mod 16 = unat b mod 16"
    using eq lt [of a] lt [of b] by (auto simp: hex_byte_def hex_digit_inj)
  then have "unat a = unat b" by (metis div_mult_mod_eq)
  then show "a = b" by (simp add: word_unat_eq_iff)
qed simp

lemma length_hex_byte [simp]: "length (hex_byte b) = 2"
  by (simp add: hex_byte_def)

lemma hex_bytes_inj:
  "length xs = length ys \<Longrightarrow>
     concat (map hex_byte xs) = concat (map hex_byte ys) \<longleftrightarrow> xs = ys"
  by (induction xs ys rule: list_induct2) (auto simp: hex_byte_inj)

lemma cap_token_generate_eq:
  "cap_token_generate (Some bytes) = Inr (CapToken (TOKEN_PREFIX @ concat (map hex_byte bytes)))"
  by (simp add: cap_token_generate_def foldl_hex)

lemma length_hex_bytes: "length (concat (map hex_byte bytes)) = 2 * length bytes"
  by (induction bytes) auto

text \<open>C34: The constant-time comparison decides equality: \<open>verify\<close> accepts exactly the stored token.
  A minted token has the prefix and two digits for each of its 32 bytes, and it is accepted in place
  of another minted token only when both came from the same bytes of entropy.\<close>

theorem cap_token_unforgeable:
  "(cap_token_verify t presented \<longleftrightarrow> presented = cap_token_expose t) \<and>
   (cap_token_generate (Some xs) = Inr t \<and> cap_token_generate (Some ys) = Inr u \<and>
      length xs = TOKEN_BYTES \<and> length ys = TOKEN_BYTES \<longrightarrow>
    length (cap_token_expose t) = 67 \<and> starts_with (cap_token_expose t) TOKEN_PREFIX \<and>
    (cap_token_verify t (cap_token_expose u) \<longleftrightarrow> xs = ys))"
proof (intro conjI impI)
  show "cap_token_verify t presented \<longleftrightarrow> presented = cap_token_expose t"
    by (rule cap_token_verify_iff)
next
  assume gen: "cap_token_generate (Some xs) = Inr t \<and> cap_token_generate (Some ys) = Inr u \<and>
    length xs = TOKEN_BYTES \<and> length ys = TOKEN_BYTES"
  then have t: "cap_token_expose t = TOKEN_PREFIX @ concat (map hex_byte xs)"
      "cap_token_expose u = TOKEN_PREFIX @ concat (map hex_byte ys)"
    by (auto simp: cap_token_generate_eq)
  show "length (cap_token_expose t) = 67"
    using gen unfolding t by (simp only: length_append length_hex_bytes) (simp add: TOKEN_BYTES_def TOKEN_PREFIX_def)
  show "starts_with (cap_token_expose t) TOKEN_PREFIX"
    unfolding t by (rule starts_with_append)
  show "cap_token_verify t (cap_token_expose u) \<longleftrightarrow> xs = ys"
    using gen hex_bytes_inj [of ys xs] unfolding cap_token_verify_iff t by (simp only: same_append_eq) auto
qed

lemma cap_token_unforgeable_witness:
  "\<exists>t u. cap_token_generate (Some (replicate 32 0)) = Inr t \<and>
     cap_token_generate (Some (1 # replicate 31 0)) = Inr u \<and>
     length (cap_token_expose t) = 67 \<and> \<not> cap_token_verify t (cap_token_expose u)"
proof -
  obtain t u where t: "cap_token_generate (Some (replicate 32 0)) = Inr t"
      "cap_token_generate (Some (1 # replicate 31 0)) = Inr u"
    using cap_token_generate_eq by blast
  moreover have "length (replicate 32 (0 :: byte)) = TOKEN_BYTES"
      "length (1 # replicate 31 (0 :: byte)) = TOKEN_BYTES"
      "hd (replicate 32 0) \<noteq> hd (1 # replicate 31 (0 :: byte))"
    by (simp_all add: TOKEN_BYTES_def)
  ultimately show ?thesis
    using cap_token_unforgeable [of t _ "replicate 32 0" "1 # replicate 31 0" u] by metis
qed

end
