(* ===== verification/Capability.thy ===== *)
theory Capability
  imports Core_Error
begin

text \<open>
  \<open>axp-core/src/capability.rs\<close>: parsing and printing of runtime capabilities, the
  attenuation order \<open>permits\<close> and the capability set of a session. The order is stated as
  a locale (a preorder whose related elements share a verb) which the capabilities, and the
  sets of grants they are collected in, interpret.
\<close>

section \<open>Capabilities and their grammar\<close>

definition PREFIX_FS_READ :: string where "PREFIX_FS_READ = ''fs.read(''"
definition PREFIX_FS_WRITE :: string where "PREFIX_FS_WRITE = ''fs.write(''"
definition PREFIX_NET_CONNECT :: string where "PREFIX_NET_CONNECT = ''net.connect(''"

text \<open>A \<open>PathBuf\<close> is the string it was made from.\<close>

datatype runtime_capability =
  FsRead string
| FsWrite string
| NetConnect string
| ProcSpawn
| PtyOpen
| Tool string

text \<open>The derived \<open>PartialEq\<close>: paths are compared by their components.\<close>

fun cap_eq :: "runtime_capability \<Rightarrow> runtime_capability \<Rightarrow> bool" where
  "cap_eq (FsRead p) (FsRead q) = path_eq p q"
| "cap_eq (FsWrite p) (FsWrite q) = path_eq p q"
| "cap_eq (NetConnect d) (NetConnect e) = (d = e)"
| "cap_eq ProcSpawn ProcSpawn = True"
| "cap_eq PtyOpen PtyOpen = True"
| "cap_eq (Tool m) (Tool n) = (m = n)"
| "cap_eq _ _ = False"

definition extract_paren_inner :: "string \<Rightarrow> string \<Rightarrow> string option" where
  "extract_paren_inner s pre =
     (case strip_prefix s pre of
        None \<Rightarrow> None
      | Some after_prefix \<Rightarrow> strip_suffix after_prefix '')'')"

definition parse_abs_path :: "string \<Rightarrow> string \<Rightarrow> string core_result" where
  "parse_abs_path raw original =
     (if \<not> starts_with raw ''/'' then
        Inl (CapabilityParse original ''path must be absolute (start with `/`)'')
      else if list_ex (\<lambda>c. c = ParentDir) (components raw) then
        Inl (CapabilityParse original ''path must not contain `..` components'')
      else Inr raw)"

definition parse_domain :: "string \<Rightarrow> string \<Rightarrow> string core_result" where
  "parse_domain raw original =
     (let err = (\<lambda>reason. Inl (CapabilityParse original reason)) in
      if raw = [] then err ''domain must not be empty''
      else if CHR ''/'' \<in> set raw then err ''domain must not contain `/`''
      else if any_whitespace raw then err ''domain must not contain whitespace''
      else if sublist ''://'' raw then
        err ''domain must not contain `://` (bare domain expected, not a URL)''
      else if CHR '':'' \<in> set raw then
        err ''port notation not supported (use bare domain without `:port`)''
      else Inr raw)"

definition cap_parse_str :: "string \<Rightarrow> runtime_capability core_result" where
  "cap_parse_str s =
     (let err = (\<lambda>reason. CapabilityParse s reason) in
      if starts_with s PREFIX_FS_READ then
        rbind (ok_or (extract_paren_inner s PREFIX_FS_READ) (err ''expected closing `)` for fs.read(...)''))
          (\<lambda>inner. rbind (parse_abs_path inner s) (\<lambda>path. Inr (FsRead path)))
      else if starts_with s PREFIX_FS_WRITE then
        rbind (ok_or (extract_paren_inner s PREFIX_FS_WRITE) (err ''expected closing `)` for fs.write(...)''))
          (\<lambda>inner. rbind (parse_abs_path inner s) (\<lambda>path. Inr (FsWrite path)))
      else if starts_with s PREFIX_NET_CONNECT then
        rbind (ok_or (extract_paren_inner s PREFIX_NET_CONNECT)
            (err ''expected closing `)` for net.connect(...)''))
          (\<lambda>inner. rbind (parse_domain inner s) (\<lambda>domain. Inr (NetConnect domain)))
      else if s = ''proc.spawn'' then Inr ProcSpawn
      else if s = ''pty.open'' then Inr PtyOpen
      else case strip_prefix s ''tool:'' of
        Some name \<Rightarrow>
          if name = [] then Inl (err ''tool name must not be empty after `tool:`'') else Inr (Tool name)
      | None \<Rightarrow>
          if s = [] then Inl (err ''empty capability string'')
          else if any_whitespace s then Inl (err ''bare tool name must not contain whitespace'')
          else Inr (Tool s))"

definition cap_parse :: "capability \<Rightarrow> runtime_capability core_result" where
  "cap_parse wire = cap_parse_str (capability_as_str wire)"

primrec cap_display :: "runtime_capability \<Rightarrow> string" where
  "cap_display (FsRead p) = ''fs.read('' @ p @ '')''"
| "cap_display (FsWrite p) = ''fs.write('' @ p @ '')''"
| "cap_display (NetConnect d) = ''net.connect('' @ d @ '')''"
| "cap_display ProcSpawn = ''proc.spawn''"
| "cap_display PtyOpen = ''pty.open''"
| "cap_display (Tool n) = ''tool:'' @ n"

definition cap_to_wire :: "runtime_capability \<Rightarrow> capability" where
  "cap_to_wire c = Capability (cap_display c)"

fun cap_permits :: "runtime_capability \<Rightarrow> runtime_capability \<Rightarrow> bool" where
  "cap_permits (FsRead pp) (FsRead cp) = path_starts_with cp pp"
| "cap_permits (FsWrite pp) (FsWrite cp) = path_starts_with cp pp"
| "cap_permits (NetConnect pd) (NetConnect cd) =
     (cd = pd \<or> (case strip_suffix cd pd of None \<Rightarrow> False | Some p \<Rightarrow> ends_with p ''.''))"
| "cap_permits ProcSpawn ProcSpawn = True"
| "cap_permits PtyOpen PtyOpen = True"
| "cap_permits (Tool pn) (Tool cn) = (pn = cn)"
| "cap_permits _ _ = False"

section \<open>Capability sets\<close>

record capability_set =
  cs_grants :: "runtime_capability list"

definition cs_new :: "runtime_capability list \<Rightarrow> capability_set" where
  "cs_new grants = \<lparr>cs_grants = grants\<rparr>"

definition cs_from_wire :: "capability list \<Rightarrow> capability_set core_result" where
  "cs_from_wire wire = rbind (collect_results cap_parse wire) (\<lambda>grants. Inr \<lparr>cs_grants = grants\<rparr>)"

definition cs_permits :: "capability_set \<Rightarrow> runtime_capability \<Rightarrow> bool" where
  "cs_permits cs requested \<longleftrightarrow> list_ex (\<lambda>g. cap_permits g requested) (cs_grants cs)"

section \<open>Parsing\<close>

text \<open>What the parser promises of a capability it returns.\<close>

fun cap_wf :: "runtime_capability \<Rightarrow> bool" where
  "cap_wf (FsRead p) = (path_is_absolute p \<and> ParentDir \<notin> set (components p))"
| "cap_wf (FsWrite p) = (path_is_absolute p \<and> ParentDir \<notin> set (components p))"
| "cap_wf (NetConnect d) = (d \<noteq> [] \<and> CHR ''/'' \<notin> set d \<and> CHR '':'' \<notin> set d \<and> \<not> any_whitespace d)"
| "cap_wf ProcSpawn = True"
| "cap_wf PtyOpen = True"
| "cap_wf (Tool n) = (n \<noteq> [])"

lemma extract_paren_inner_Some [simp]: "extract_paren_inner (pre @ r @ '')'') pre = Some r"
  by (simp add: extract_paren_inner_def)

lemma extract_paren_inner_iff: "extract_paren_inner s pre = Some r \<longleftrightarrow> s = pre @ r @ '')''"
  by (cases "strip_prefix s pre")
    (auto simp: extract_paren_inner_def strip_prefix_Some_iff strip_suffix_Some_iff)

lemma parse_abs_path_iff:
  "parse_abs_path raw original = Inr p \<longleftrightarrow> p = raw \<and> path_is_absolute raw \<and> ParentDir \<notin> set (components raw)"
  by (auto simp: parse_abs_path_def path_is_absolute_def list_ex_iff)

lemma sublist_set: "sublist xs ys \<Longrightarrow> set xs \<subseteq> set ys"
  by (auto simp: sublist_def)

lemma parse_domain_iff:
  "parse_domain raw original = Inr d \<longleftrightarrow> d = raw \<and> cap_wf (NetConnect raw)"
  using sublist_set [of "''://''" raw] by (auto simp: parse_domain_def Let_def)

text \<open>The error every failure of the parser reports, whatever the grammar rule it came from.\<close>

lemma parse_inner_Inl:
  "parse_abs_path raw original = Inl e \<Longrightarrow> \<exists>reason. e = CapabilityParse original reason"
  "parse_domain raw original = Inl e \<Longrightarrow> \<exists>reason. e = CapabilityParse original reason"
  by (auto simp: parse_abs_path_def parse_domain_def Let_def split: if_splits)

lemma cap_parse_str_Inl: "cap_parse_str s = Inl e \<Longrightarrow> \<exists>reason. e = CapabilityParse s reason"
  unfolding cap_parse_str_def Let_def
  by (auto simp: result_simps split: if_splits option.splits dest: parse_inner_Inl)

lemma cap_parse_str_wf: "cap_parse_str s = Inr c \<Longrightarrow> cap_wf c"
  by (auto simp: cap_parse_str_def Let_def result_simps parse_abs_path_iff parse_domain_iff
      strip_prefix_Some_iff split: if_splits option.splits)

lemma cap_parse_str_display:
  assumes "cap_wf c"
  shows "cap_parse_str (cap_display c) = Inr c"
proof (cases c)
  case (FsRead p)
  then show ?thesis
    using assms extract_paren_inner_Some [of PREFIX_FS_READ p]
    by (simp add: cap_parse_str_def PREFIX_FS_READ_def Let_def parse_abs_path_iff result_simps)
next
  case (FsWrite p)
  then show ?thesis
    using assms extract_paren_inner_Some [of PREFIX_FS_WRITE p]
    by (simp add: cap_parse_str_def PREFIX_FS_READ_def PREFIX_FS_WRITE_def Let_def
        parse_abs_path_iff result_simps)
next
  case (NetConnect d)
  then show ?thesis
    using assms extract_paren_inner_Some [of PREFIX_NET_CONNECT d]
    by (simp add: cap_parse_str_def PREFIX_FS_READ_def PREFIX_FS_WRITE_def PREFIX_NET_CONNECT_def
        Let_def parse_domain_iff result_simps)
next
  case (Tool n)
  have "strip_prefix (''tool:'' @ n) ''tool:'' = Some n" by (simp only: strip_prefix_Some_iff)
  then show ?thesis
    using assms Tool
    by (simp add: cap_parse_str_def PREFIX_FS_READ_def PREFIX_FS_WRITE_def PREFIX_NET_CONNECT_def Let_def)
qed (simp_all add: cap_parse_str_def PREFIX_FS_READ_def PREFIX_FS_WRITE_def PREFIX_NET_CONNECT_def Let_def)

section \<open>Attenuation\<close>

text \<open>
  What the session, registry and engine rely on when they compare capabilities: a preorder
  that never relates different verbs.
\<close>

locale attenuation =
  fixes permits :: "'c \<Rightarrow> 'c \<Rightarrow> bool" and verb :: "'c \<Rightarrow> 'v"
  assumes permits_refl: "permits c c"
    and permits_trans: "permits a b \<Longrightarrow> permits b c \<Longrightarrow> permits a c"
    and permits_verb: "permits a b \<Longrightarrow> verb a = verb b"
begin

text \<open>A list of grants permits what one of its members permits.\<close>

lemma grants_permit_self: "g \<in> set gs \<Longrightarrow> list_ex (\<lambda>h. permits h g) gs"
  using permits_refl by (auto simp: list_ex_iff)

text \<open>Grants minted under a parent list authorise nothing the parent list does not.\<close>

lemma grants_narrow:
  assumes "\<forall>g \<in> set child. list_ex (\<lambda>h. permits h g) parent"
    and "list_ex (\<lambda>g. permits g c) child"
  shows "list_ex (\<lambda>h. permits h c) parent"
  using assms permits_trans unfolding list_ex_iff by meson

lemma grants_need_verb:
  assumes "list_ex (\<lambda>g. permits g c) gs"
  shows "\<exists>g \<in> set gs. verb g = verb c"
  using assms permits_verb unfolding list_ex_iff by blast

end

datatype cap_verb = VFsRead | VFsWrite | VNetConnect | VProcSpawn | VPtyOpen | VTool

primrec verb_of :: "runtime_capability \<Rightarrow> cap_verb" where
  "verb_of (FsRead _) = VFsRead"
| "verb_of (FsWrite _) = VFsWrite"
| "verb_of (NetConnect _) = VNetConnect"
| "verb_of ProcSpawn = VProcSpawn"
| "verb_of PtyOpen = VPtyOpen"
| "verb_of (Tool _) = VTool"

lemma net_permits_iff:
  "cap_permits (NetConnect pd) (NetConnect cd) \<longleftrightarrow> cd = pd \<or> (\<exists>sub. cd = sub @ ''.'' @ pd)"
  by (auto simp: strip_suffix_Some_iff ends_with_iff split: option.splits)
    (metis append.assoc append_Cons append_Nil option.distinct(1) strip_suffix_Some_iff)+

lemma cap_permits_verb: "cap_permits a b \<Longrightarrow> verb_of a = verb_of b"
  by (induction a b rule: cap_permits.induct) auto

lemma cap_permits_trans: "cap_permits a b \<Longrightarrow> cap_permits b c \<Longrightarrow> cap_permits a c"
proof (cases a)
  case (NetConnect ad)
  assume ab: "cap_permits a b" and bc: "cap_permits b c"
  obtain bd where b: "b = NetConnect bd"
    using cap_permits_verb [OF ab] NetConnect by (cases b) simp_all
  obtain cd where c: "c = NetConnect cd"
    using cap_permits_verb [OF bc] b by (cases c) simp_all
  show "cap_permits a c"
    using ab bc unfolding NetConnect b c net_permits_iff by (metis append.assoc)
qed (cases b; cases c; auto intro: path_starts_with_trans)+

lemma cap_permits_antisym: "cap_permits a b \<Longrightarrow> cap_permits b a \<Longrightarrow> cap_eq a b"
proof (cases a)
  case (NetConnect ad)
  assume ab: "cap_permits a b" and ba: "cap_permits b a"
  obtain bd where b: "b = NetConnect bd"
    using cap_permits_verb [OF ab] NetConnect by (cases b) simp_all
  show "cap_eq a b"
    using ab ba unfolding NetConnect b net_permits_iff
    by (auto simp: append_eq_append_conv2)
qed (cases b; auto intro: path_starts_with_antisym simp: path_eq_def dest: path_starts_with_antisym)+

interpretation caps: attenuation cap_permits verb_of
proof
  show "cap_permits c c" for c by (cases c) simp_all
qed (auto intro: cap_permits_trans cap_permits_verb)

text \<open>What each kind of request needs.\<close>

lemma cap_permits_exact:
  "cap_permits g (FsRead q) \<longleftrightarrow> (\<exists>p rest. g = FsRead p \<and> components q = components p @ rest)"
  "cap_permits g (FsWrite q) \<longleftrightarrow> (\<exists>p rest. g = FsWrite p \<and> components q = components p @ rest)"
  "cap_permits g (NetConnect e) \<longleftrightarrow> (\<exists>d. g = NetConnect d \<and> (e = d \<or> (\<exists>sub. e = sub @ ''.'' @ d)))"
  "cap_permits g ProcSpawn \<longleftrightarrow> g = ProcSpawn"
  "cap_permits g PtyOpen \<longleftrightarrow> g = PtyOpen"
  "cap_permits g (Tool name) \<longleftrightarrow> g = Tool name"
  by (cases g; simp add: path_starts_with_def starts_with_iff net_permits_iff del: cap_permits.simps(3); blast)+

lemma cs_permits_exact:
  "cs_permits cs request \<longleftrightarrow>
    (case request of
       FsRead q \<Rightarrow> \<exists>p rest. FsRead p \<in> set (cs_grants cs) \<and> components q = components p @ rest
     | FsWrite q \<Rightarrow> \<exists>p rest. FsWrite p \<in> set (cs_grants cs) \<and> components q = components p @ rest
     | NetConnect e \<Rightarrow> \<exists>d. NetConnect d \<in> set (cs_grants cs) \<and> (e = d \<or> (\<exists>sub. e = sub @ ''.'' @ d))
     | ProcSpawn \<Rightarrow> ProcSpawn \<in> set (cs_grants cs)
     | PtyOpen \<Rightarrow> PtyOpen \<in> set (cs_grants cs)
     | Tool name \<Rightarrow> Tool name \<in> set (cs_grants cs))"
  by (cases request) (auto simp: cs_permits_def list_ex_iff cap_permits_exact simp del: cap_permits.simps)

text \<open>So authority is a preorder, with the library's reasoning on orders: a capability is below those
  that permit it, and what a set permits is closed downwards.\<close>

instantiation runtime_capability :: preorder
begin

definition less_eq_runtime_capability :: "runtime_capability \<Rightarrow> runtime_capability \<Rightarrow> bool" where
  "less_eq_runtime_capability c d \<longleftrightarrow> cap_permits d c"

definition less_runtime_capability :: "runtime_capability \<Rightarrow> runtime_capability \<Rightarrow> bool" where
  "less_runtime_capability c d \<longleftrightarrow> cap_permits d c \<and> \<not> cap_permits c d"

instance
  by standard (auto simp: less_eq_runtime_capability_def less_runtime_capability_def
      intro: caps.permits_refl caps.permits_trans)

end

lemma cs_permits_le: "cs_permits cs c \<longleftrightarrow> (\<exists>g \<in> set (cs_grants cs). c \<le> g)"
  by (auto simp: cs_permits_def list_ex_iff less_eq_runtime_capability_def)

lemma cs_permits_down: "c \<le> d \<Longrightarrow> cs_permits cs d \<Longrightarrow> cs_permits cs c"
  using order_trans by (auto simp: cs_permits_le)

section \<open>Properties\<close>

text \<open>A bare name: a string no rule of the grammar before the last one claims.\<close>

definition bare_name :: "string \<Rightarrow> bool" where
  "bare_name n \<longleftrightarrow>
     n \<noteq> [] \<and> \<not> any_whitespace n \<and> n \<noteq> ''proc.spawn'' \<and> n \<noteq> ''pty.open'' \<and>
     \<not> starts_with n PREFIX_FS_READ \<and> \<not> starts_with n PREFIX_FS_WRITE \<and>
     \<not> starts_with n PREFIX_NET_CONNECT \<and> \<not> starts_with n ''tool:''"

lemma cap_parse_str_bare: "bare_name n \<Longrightarrow> cap_parse_str n = Inr (Tool n)"
  by (simp add: bare_name_def cap_parse_str_def strip_prefix_def)

lemma cap_display_prefixes:
  "cap_display (FsRead p) = PREFIX_FS_READ @ p @ '')''"
  "cap_display (FsWrite p) = PREFIX_FS_WRITE @ p @ '')''"
  "cap_display (NetConnect d) = PREFIX_NET_CONNECT @ d @ '')''"
  by (simp_all add: PREFIX_FS_READ_def PREFIX_FS_WRITE_def PREFIX_NET_CONNECT_def)

lemma cap_parse_str_source:
  assumes "cap_parse_str s = Inr c"
  shows "s = cap_display c \<or> c = Tool s \<and> bare_name s"
proof (cases "starts_with s PREFIX_FS_READ \<or> starts_with s PREFIX_FS_WRITE \<or> starts_with s PREFIX_NET_CONNECT")
  case True
  then show ?thesis
    using assms unfolding cap_parse_str_def Let_def
    by (auto simp: result_simps parse_abs_path_iff parse_domain_iff extract_paren_inner_iff
        cap_display_prefixes simp del: cap_display.simps split: if_splits)
next
  case no_verb: False
  show ?thesis
  proof (cases "strip_prefix s ''tool:''")
    case (Some name)
    then have "s = ''tool:'' @ name" by (simp only: strip_prefix_Some_iff)
    with Some no_verb assms show ?thesis
      unfolding cap_parse_str_def Let_def by (auto split: if_splits)
  next
    case None
    then have "\<not> starts_with s ''tool:''" by (simp only: starts_with_iff_strip not_not)
    with None no_verb assms show ?thesis
      unfolding cap_parse_str_def Let_def bare_name_def by (auto split: if_splits)
  qed
qed

text \<open>C33: The capability grammar, exactly: a string parses to a capability iff the capability is well
  formed (absolute path without \<open>..\<close>, bare domain, non-empty tool name) and the string is its
  canonical form or, for a tool, a bare name that no other rule of the grammar claims. So a string
  with a verb prefix is never silently taken for a tool name, and printing then parsing gives the
  capability back.\<close>

theorem cap_parse_exact:
  "cap_parse_str s = Inr c \<longleftrightarrow> cap_wf c \<and> (s = cap_display c \<or> c = Tool s \<and> bare_name s)"
  using cap_parse_str_wf [of s c] cap_parse_str_source [of s c] cap_parse_str_display [of c]
    cap_parse_str_bare [of s] by blast

text \<open>Attenuation is an order: a capability permits itself, permission is transitive, two
  capabilities that permit each other are equal up to the spelling of paths, and verbs are
  orthogonal: permission never crosses from one verb to another.\<close>

theorem cap_permits_order:
  "cap_permits c c \<and> (cap_permits c d \<and> cap_permits d e \<longrightarrow> cap_permits c e) \<and>
   (cap_permits c d \<and> cap_permits d c \<longrightarrow> cap_eq c d) \<and>
   (cap_permits c d \<longrightarrow> verb_of c = verb_of d)"
  using caps.permits_refl caps.permits_trans caps.permits_verb cap_permits_antisym by blast

lemma cap_permits_order_witness:
  "cap_permits (FsRead ''/a'') (FsRead ''/a/b/c'') \<and>
   cap_eq (FsRead ''/a/'') (FsRead ''/a'') \<and> FsRead ''/a/'' \<noteq> FsRead ''/a''"
proof -
  have "cap_permits (FsRead ''/a'') (FsRead ''/a/b'')" "cap_permits (FsRead ''/a/b'') (FsRead ''/a/b/c'')"
    "cap_permits (FsRead ''/a/'') (FsRead ''/a'')" "cap_permits (FsRead ''/a'') (FsRead ''/a/'')"
    by code_simp+
  then show ?thesis
    using cap_permits_order [of "FsRead ''/a''" "FsRead ''/a/b''" "FsRead ''/a/b/c''"]
      cap_permits_order [of "FsRead ''/a/''" "FsRead ''/a''"] by simp
qed

text \<open>C11: What a set of grants permits, exactly, and that attenuation only narrows it. A set permits
  reading (writing) a path iff it has a read (write) grant whose components are an initial part of the
  path's, connecting to a domain iff it has a grant for that domain or for one it ends in after a
  dot, spawning and opening a terminal iff it has that grant, a tool iff it has a grant of that very
  name; no verb stands in for another. When every grant of a child set is permitted by a parent set,
  whatever the child set permits the parent set permits.\<close>

theorem attenuated_set_narrows:
  assumes "\<forall>g \<in> set (cs_grants child). cs_permits parent g" and "cs_permits child c"
  shows "cs_permits parent c \<and> (\<exists>g \<in> set (cs_grants parent). verb_of g = verb_of c) \<and>
    (\<forall>cs request. cs_permits cs request \<longleftrightarrow>
      (case request of
         FsRead q \<Rightarrow> \<exists>p rest. FsRead p \<in> set (cs_grants cs) \<and> components q = components p @ rest
       | FsWrite q \<Rightarrow> \<exists>p rest. FsWrite p \<in> set (cs_grants cs) \<and> components q = components p @ rest
       | NetConnect e \<Rightarrow> \<exists>d. NetConnect d \<in> set (cs_grants cs) \<and> (e = d \<or> (\<exists>sub. e = sub @ ''.'' @ d))
       | ProcSpawn \<Rightarrow> ProcSpawn \<in> set (cs_grants cs)
       | PtyOpen \<Rightarrow> PtyOpen \<in> set (cs_grants cs)
       | Tool name \<Rightarrow> Tool name \<in> set (cs_grants cs)))"
proof -
  have "cs_permits parent c"
    using assms caps.grants_narrow [of "cs_grants child" "cs_grants parent" c] by (simp add: cs_permits_def)
  then show ?thesis
    using caps.grants_need_verb cs_permits_exact by (auto simp: cs_permits_def)
qed

lemma attenuated_set_narrows_witness:
  "cs_permits (cs_new [FsWrite ''/w'', NetConnect ''example.com'']) (NetConnect ''x.api.example.com'')"
proof -
  have "\<forall>g \<in> set (cs_grants (cs_new [NetConnect ''api.example.com''])).
      cs_permits (cs_new [FsWrite ''/w'', NetConnect ''example.com'']) g"
    by code_simp
  moreover have "cs_permits (cs_new [NetConnect ''api.example.com'']) (NetConnect ''x.api.example.com'')"
    by code_simp
  ultimately show ?thesis by (rule attenuated_set_narrows [THEN conjunct1])
qed

text \<open>File-system grants end at component boundaries: a grant on a directory covers every path
  below it, and never a sibling whose name merely starts with the directory's name.\<close>

theorem fs_grant_component_boundary:
  assumes "CHR ''/'' \<notin> set n" and "n \<notin> {'''', ''.'', ''..''}" and "x \<noteq> ''''" and "CHR ''/'' \<notin> set x"
    and "d \<noteq> ''''"
  shows "cap_permits (FsRead (d @ ''/'' @ n)) (FsRead (d @ ''/'' @ n @ ''/'' @ rest)) \<and>
    \<not> cap_permits (FsRead (d @ ''/'' @ n)) (FsRead (d @ ''/'' @ n @ x))"
  using assms components_join [of d n] components_join [of d "n @ x"]
    components_join [of "d @ ''/'' @ n" rest]
  by (auto simp: path_starts_with_def split_on_no_sep starts_with_iff)

lemma fs_grant_component_boundary_witness:
  "cap_permits (FsRead ''/srv/proj'') (FsRead ''/srv/proj/src/x'') \<and>
    \<not> cap_permits (FsRead ''/srv/proj'') (FsRead ''/srv/project'')"
  using fs_grant_component_boundary [of "''proj''" "''ect''" "''/srv''" "''src/x''"] by simp

end
