(* ===== verification/Handle_Store.thy ===== *)
theory Handle_Store
  imports Prelude
begin

text \<open>
  The shape the session store and the job store share:
  \<open>Arc<RwLock<HashMap<K, Arc<RwLock<V>>>>>\<close>. The map holds handles, the cells they point
  to live in a heap that only grows (an \<open>Arc\<close> a caller still holds stays readable after
  its key is removed). The operations are stated as a locale; the stores' clients use its
  lemmas.
\<close>

locale handle_store =
  fixes insert :: "'s \<Rightarrow> 'k \<Rightarrow> 'v \<Rightarrow> 's \<times> nat"
    and get :: "'s \<Rightarrow> 'k \<Rightarrow> nat option"
    and remove :: "'s \<Rightarrow> 'k \<Rightarrow> 's \<times> nat option"
    and deref :: "'s \<Rightarrow> nat \<Rightarrow> 'v option"
    and assign :: "'s \<Rightarrow> nat \<Rightarrow> 'v \<Rightarrow> 's"
    and inv :: "'s \<Rightarrow> bool"
  assumes insert_fresh: "inv s \<Longrightarrow> insert s k v = (s', r) \<Longrightarrow> deref s r = None"
    and insert_inv: "inv s \<Longrightarrow> insert s k v = (s', r) \<Longrightarrow> inv s'"
    and insert_get: "insert s k v = (s', r) \<Longrightarrow> get s' k' = (if k' = k then Some r else get s k')"
    and insert_deref: "insert s k v = (s', r) \<Longrightarrow> deref s' r' = (if r' = r then Some v else deref s r')"
    and remove_inv: "inv s \<Longrightarrow> remove s k = (s', x) \<Longrightarrow> inv s'"
    and remove_get: "remove s k = (s', x) \<Longrightarrow> x = get s k \<and> get s' k' = (if k' = k then None else get s k')"
    and remove_deref: "remove s k = (s', x) \<Longrightarrow> deref s' r = deref s r"
    and assign_inv: "inv s \<Longrightarrow> inv (assign s r v)"
    and assign_get: "get (assign s r v) k = get s k"
    and assign_deref: "deref (assign s r v) r' = (if r' = r \<and> deref s r \<noteq> None then Some v else deref s r')"
    and get_deref: "inv s \<Longrightarrow> get s k = Some r \<Longrightarrow> deref s r \<noteq> None"
    and get_inj: "inv s \<Longrightarrow> get s k = Some r \<Longrightarrow> get s k' = Some r \<Longrightarrow> k = k'"
begin

definition lookup :: "'s \<Rightarrow> 'k \<Rightarrow> 'v option" where
  "lookup s k = Option.bind (get s k) (deref s)"

lemma lookup_insert:
  assumes "inv s" and "insert s k v = (s', r)"
  shows "lookup s' k' = (if k' = k then Some v else lookup s k')"
proof -
  have "deref s r = None" using assms by (rule insert_fresh)
  then have "get s k' \<noteq> Some r" for k' using assms(1) get_deref by fastforce
  then show ?thesis
    by (auto simp: lookup_def insert_get [OF assms(2)] insert_deref [OF assms(2)]
        split: Option.bind_splits)
qed

lemma lookup_remove:
  assumes "remove s k = (s', x)"
  shows "lookup s' k' = (if k' = k then None else lookup s k')"
  using remove_get [OF assms, of k'] remove_deref [OF assms]
  by (auto simp: lookup_def split: Option.bind_splits)

text \<open>A write through the handle of one key changes what that key holds and nothing else.\<close>

lemma lookup_assign:
  assumes "inv s" and "get s k = Some r"
  shows "lookup (assign s r v) k' = (if k' = k then Some v else lookup s k')"
proof (cases "get s k'")
  case None
  then show ?thesis using assms(2) by (auto simp: lookup_def assign_get)
next
  case (Some r')
  moreover have "r' = r \<longleftrightarrow> k' = k"
    using get_inj [OF assms(1)] assms(2) Some by auto
  ultimately show ?thesis
    using get_deref [OF assms] by (simp add: lookup_def assign_get assign_deref)
qed

text \<open>A handle taken before a removal still reads the cell after it.\<close>

lemma removed_readable:
  assumes "inv s" and "remove s k = (s', Some r)"
  shows "deref s' r = lookup s k \<and> deref s' r \<noteq> None"
proof -
  have "get s k = Some r" using remove_get [OF assms(2), of k] by simp
  then show ?thesis
    using remove_deref [OF assms(2)] get_deref [OF assms(1)] by (simp add: lookup_def)
qed

lemma lookup_Some_get: "lookup s k = Some v \<longleftrightarrow> (\<exists>r. get s k = Some r \<and> deref s r = Some v)"
  by (auto simp: lookup_def split: Option.bind_splits)

lemma lookup_None_get: "inv s \<Longrightarrow> lookup s k = None \<longleftrightarrow> get s k = None"
  using get_deref by (auto simp: lookup_def split: Option.bind_splits)

end

section \<open>The map of handles\<close>

record ('k, 'v) arc_map =
  am_map :: "'k \<Rightarrow> nat option"
  am_heap :: "'v list"

definition am_empty :: "('k, 'v) arc_map" where
  "am_empty = \<lparr>am_map = (\<lambda>_. None), am_heap = []\<rparr>"

definition am_insert :: "('k, 'v) arc_map \<Rightarrow> 'k \<Rightarrow> 'v \<Rightarrow> ('k, 'v) arc_map \<times> nat" where
  "am_insert m k v =
     (let r = length (am_heap m) in
      (m\<lparr>am_map := (am_map m)(k := Some r), am_heap := am_heap m @ [v]\<rparr>, r))"

definition am_get :: "('k, 'v) arc_map \<Rightarrow> 'k \<Rightarrow> nat option" where
  "am_get m k = am_map m k"

definition am_remove :: "('k, 'v) arc_map \<Rightarrow> 'k \<Rightarrow> ('k, 'v) arc_map \<times> nat option" where
  "am_remove m k = (m\<lparr>am_map := (am_map m)(k := None)\<rparr>, am_map m k)"

definition am_read :: "('k, 'v) arc_map \<Rightarrow> nat \<Rightarrow> 'v option" where
  "am_read m r = (if r < length (am_heap m) then Some (am_heap m ! r) else None)"

definition am_write :: "('k, 'v) arc_map \<Rightarrow> nat \<Rightarrow> 'v \<Rightarrow> ('k, 'v) arc_map" where
  "am_write m r v = m\<lparr>am_heap := (am_heap m)[r := v]\<rparr>"

definition am_inv :: "('k, 'v) arc_map \<Rightarrow> bool" where
  "am_inv m \<longleftrightarrow>
     (\<forall>k r. am_map m k = Some r \<longrightarrow> r < length (am_heap m)) \<and>
     (\<forall>k k' r. am_map m k = Some r \<longrightarrow> am_map m k' = Some r \<longrightarrow> k = k')"

lemma am_empty_inv [simp]: "am_inv am_empty"
  by (simp add: am_inv_def am_empty_def)

definition am_lookup :: "('k, 'v) arc_map \<Rightarrow> 'k \<Rightarrow> 'v option" where
  "am_lookup m k = Option.bind (am_get m k) (am_read m)"

interpretation arc: handle_store am_insert am_get am_remove am_read am_write am_inv
proof unfold_locales
  fix s :: "('k, 'v) arc_map" and k v s' r
  assume inv: "am_inv s" and ins: "am_insert s k v = (s', r)"
  show "am_inv s'"
    using inv ins unfolding am_inv_def am_insert_def Let_def
    by (auto split: if_splits; fastforce)
qed (auto simp: am_insert_def am_get_def am_remove_def am_read_def am_write_def am_inv_def Let_def
    nth_append nth_list_update split: if_splits)

lemma arc_lookup: "arc.lookup = am_lookup"
  by (simp add: fun_eq_iff am_lookup_def arc.lookup_def)

lemmas am_lookup_insert = arc.lookup_insert [unfolded arc_lookup]
lemmas am_lookup_remove = arc.lookup_remove [unfolded arc_lookup]
lemmas am_lookup_write = arc.lookup_assign [unfolded arc_lookup]
lemmas am_removed_readable = arc.removed_readable [unfolded arc_lookup]
lemmas am_lookup_Some = arc.lookup_Some_get [unfolded arc_lookup]
lemmas am_lookup_None = arc.lookup_None_get [unfolded arc_lookup]

lemma am_empty_lookup [simp]: "am_lookup am_empty k = None" "am_get am_empty k = None"
  by (simp_all add: am_lookup_def am_get_def am_empty_def)

end
