(* ===== verification/Session.thy ===== *)
theory Session
  imports Auth Capability Handle_Store
begin

text \<open>
  \<open>axp-core/src/workspace.rs\<close> and \<open>axp-core/src/session.rs\<close>: the workspace root, the
  session and its audit log, and the store of live sessions. The store is the map of handles
  of \<open>Handle_Store\<close>: a job that holds a session's handle can still write its audit log
  after the session is closed. Times are arguments; \<open>std::fs::canonicalize\<close> is one too.
\<close>

section \<open>Workspace\<close>

record workspace =
  ws_root :: string

definition workspace_new :: "(string \<Rightarrow> (string, string) result) \<Rightarrow> string \<Rightarrow> workspace core_result" where
  "workspace_new canonicalize path =
     rbind (map_err (\<lambda>e. InvalidWorkspace path e) (canonicalize path)) (\<lambda>canonical.
       if \<not> path_is_absolute canonical then
         Inl (InvalidWorkspace path ''canonicalized path is not absolute'')
       else Inr \<lparr>ws_root = canonical\<rparr>)"

definition ws_contains :: "workspace \<Rightarrow> string \<Rightarrow> bool" where
  "ws_contains ws path \<longleftrightarrow> path_starts_with path (ws_root ws)"

section \<open>Session\<close>

datatype audit_event_kind =
  SessionOpened
| SessionClosed
| JobStarted job_id
| JobFinished job_id job_status_proto

record audit_event =
  ae_timestamp :: int
  ae_kind :: audit_event_kind

record session =
  se_id :: session_id
  se_workspace :: workspace
  se_tier :: enforcement_tier
  se_capabilities :: capability_set
  se_cap_token :: cap_token
  se_created_at :: int
  se_audit_events :: "audit_event list"

definition session_new ::
    "int \<Rightarrow> session_id \<Rightarrow> workspace \<Rightarrow> enforcement_tier \<Rightarrow> capability_set \<Rightarrow> cap_token \<Rightarrow> session" where
  "session_new now sid workspace tier capabilities cap_token =
     \<lparr>se_id = sid, se_workspace = workspace, se_tier = tier, se_capabilities = capabilities,
      se_cap_token = cap_token, se_created_at = now, se_audit_events = []\<rparr>"

definition record_audit :: "int \<Rightarrow> session \<Rightarrow> audit_event_kind \<Rightarrow> session" where
  "record_audit now se kind =
     se\<lparr>se_audit_events := se_audit_events se @ [\<lparr>ae_timestamp = now, ae_kind = kind\<rparr>]\<rparr>"

lemma record_audit_frame [simp, frame_simps]:
  "se_id (record_audit now se k) = se_id se" "se_workspace (record_audit now se k) = se_workspace se"
  "se_tier (record_audit now se k) = se_tier se"
  "se_capabilities (record_audit now se k) = se_capabilities se"
  "se_cap_token (record_audit now se k) = se_cap_token se"
  "se_audit_events (record_audit now se k) =
     se_audit_events se @ [\<lparr>ae_timestamp = now, ae_kind = k\<rparr>]"
  by (simp_all add: record_audit_def)

section \<open>The store\<close>

type_synonym session_store = "(session_id, session) arc_map"

text \<open>
  \<open>open\<close> returns the handle; \<open>now\<close> is the time both of its calls of
  \<open>SystemTime::now\<close> return.
\<close>

definition store_open ::
    "int \<Rightarrow> session_store \<Rightarrow> session_id \<Rightarrow> workspace \<Rightarrow> enforcement_tier \<Rightarrow> capability_set \<Rightarrow> cap_token
      \<Rightarrow> session_store \<times> nat" where
  "store_open now store sid workspace tier capabilities cap_token =
     (let session = record_audit now (session_new now sid workspace tier capabilities cap_token) SessionOpened
      in am_insert store sid session)"

definition store_get :: "session_store \<Rightarrow> session_id \<Rightarrow> nat option" where
  "store_get store sid = am_get store sid"

definition store_authorize :: "session_store \<Rightarrow> session_id \<Rightarrow> string \<Rightarrow> bool" where
  "store_authorize store sid presented =
     (case store_get store sid of
        Some handle \<Rightarrow>
          (case am_read store handle of
             Some se \<Rightarrow> cap_token_verify (se_cap_token se) presented
           | None \<Rightarrow> False)
      | None \<Rightarrow> False)"

text \<open>A write of an audit event through a session's handle.\<close>

definition audit_handle :: "int \<Rightarrow> session_store \<Rightarrow> nat \<Rightarrow> audit_event_kind \<Rightarrow> session_store" where
  "audit_handle now store handle kind =
     (case am_read store handle of
        Some se \<Rightarrow> am_write store handle (record_audit now se kind)
      | None \<Rightarrow> store)"

definition store_close :: "int \<Rightarrow> session_store \<Rightarrow> session_id \<Rightarrow> session_store \<times> unit core_result" where
  "store_close now store sid =
     (case am_remove store sid of
        (store', None) \<Rightarrow> (store', Inl (SessionNotFound sid))
      | (store', Some handle) \<Rightarrow> (audit_handle now store' handle SessionClosed, Inr ()))"

section \<open>Invariant and frames\<close>

text \<open>The map is sound and every session is filed under its own id.\<close>

definition store_inv :: "session_store \<Rightarrow> bool" where
  "store_inv store \<longleftrightarrow> am_inv store \<and> (\<forall>sid se. am_lookup store sid = Some se \<longrightarrow> se_id se = sid)"

lemma store_inv_empty [simp]: "store_inv am_empty"
  by (simp add: store_inv_def)

lemma session_new_sel [simp]:
  "se_id (session_new now sid ws tier caps tok) = sid"
  "se_workspace (session_new now sid ws tier caps tok) = ws"
  "se_tier (session_new now sid ws tier caps tok) = tier"
  "se_capabilities (session_new now sid ws tier caps tok) = caps"
  "se_cap_token (session_new now sid ws tier caps tok) = tok"
  "se_audit_events (session_new now sid ws tier caps tok) = []"
  by (simp_all add: session_new_def)

lemma store_authorize_iff:
  "store_authorize store sid presented \<longleftrightarrow>
     (\<exists>se. am_lookup store sid = Some se \<and> presented = cap_token_expose (se_cap_token se))"
  by (auto simp: store_authorize_def store_get_def am_lookup_def cap_token_verify_iff
      split: option.splits Option.bind_splits)

text \<open>Locks on the handle of a session write that session only.\<close>

lemma audit_handle_lookup:
  assumes "am_inv store" and "am_get store sid = Some h"
  shows "am_lookup (audit_handle now store h k) sid' =
    (if sid' = sid then map_option (\<lambda>se. record_audit now se k) (am_lookup store sid)
     else am_lookup store sid')"
proof -
  obtain se where se: "am_read store h = Some se"
    using arc.get_deref [OF assms] by auto
  then have "am_lookup store sid = Some se" using assms(2) by (simp add: am_lookup_def)
  with se show ?thesis
    by (simp add: audit_handle_def am_lookup_write [OF assms])
qed

lemma audit_handle_inv: "am_inv store \<Longrightarrow> am_inv (audit_handle now store h k)"
  by (simp add: audit_handle_def arc.assign_inv split: option.split)

lemma audit_handle_get [simp]: "am_get (audit_handle now store h k) sid = am_get store sid"
  by (simp add: audit_handle_def arc.assign_get split: option.split)

text \<open>A handle no id maps to any more: a write through it is invisible to every lookup.\<close>

lemma audit_handle_detached:
  assumes "am_inv store" and "\<forall>sid. am_get store sid \<noteq> Some h"
  shows "am_lookup (audit_handle now store h k) sid = am_lookup store sid"
  using assms by (auto simp: audit_handle_def am_lookup_def arc.assign_get arc.assign_deref
      split: option.splits Option.bind_splits)

lemma store_open_lookup:
  assumes "store_inv store" and "store_open now store sid ws tier caps tok = (store', h)"
  shows "am_lookup store' sid' =
    (if sid' = sid then Some (record_audit now (session_new now sid ws tier caps tok) SessionOpened)
     else am_lookup store sid')"
    and "store_inv store'" and "am_get store' sid = Some h"
proof -
  have ins: "am_insert store sid (record_audit now (session_new now sid ws tier caps tok) SessionOpened)
      = (store', h)"
    using assms(2) by (simp add: store_open_def)
  have inv: "am_inv store" using assms(1) by (simp add: store_inv_def)
  show l: "am_lookup store' sid' =
    (if sid' = sid then Some (record_audit now (session_new now sid ws tier caps tok) SessionOpened)
     else am_lookup store sid')" for sid'
    by (rule am_lookup_insert [OF inv ins])
  show "store_inv store'"
    using assms(1) arc.insert_inv [OF inv ins] by (auto simp: store_inv_def l)
  show "am_get store' sid = Some h" using arc.insert_get [OF ins] by simp
qed

lemma store_close_lookup:
  assumes "store_inv store" and "store_close now store sid = (store', r)"
  shows "am_lookup store' sid' = (if sid' = sid then None else am_lookup store sid')"
    and "store_inv store'"
    and "r = (if am_get store sid = None then Inl (SessionNotFound sid) else Inr ())"
proof -
  obtain m x where rem: "am_remove store sid = (m, x)" by fastforce
  have inv: "am_inv store" using assms(1) by (simp add: store_inv_def)
  note lr = am_lookup_remove [OF rem]
  have x: "x = am_get store sid" and gm: "am_get m s = (if s = sid then None else am_get store s)" for s
    using arc.remove_get [OF rem] by blast+
  have minv: "am_inv m" using arc.remove_inv [OF inv rem] .
  have detached: "\<forall>s. am_get m s \<noteq> Some h" if "am_get store sid = Some h" for h
    using gm arc.get_inj [OF inv that] by auto
  have close: "store' = (case am_get store sid of None \<Rightarrow> m | Some h \<Rightarrow> audit_handle now m h SessionClosed)"
      "r = (if am_get store sid = None then Inl (SessionNotFound sid) else Inr ())"
    using assms(2) unfolding store_close_def rem x by (auto split: option.splits)
  show l: "am_lookup store' sid' = (if sid' = sid then None else am_lookup store sid')" for sid'
    unfolding close lr [symmetric] using audit_handle_detached [OF minv detached] by (auto split: option.split)
  have "am_inv store'"
    unfolding close using minv audit_handle_inv by (auto split: option.split)
  then show "store_inv store'" using assms(1) by (auto simp: store_inv_def l)
  show "r = (if am_get store sid = None then Inl (SessionNotFound sid) else Inr ())" by (rule close)
qed

lemma audit_handle_store_inv:
  assumes "store_inv store"
  shows "store_inv (audit_handle now store h k)"
proof (cases "\<exists>sid. am_get store sid = Some h")
  case True
  then obtain sid where "am_get store sid = Some h" by blast
  then show ?thesis
    using assms audit_handle_lookup [of store sid h now k] audit_handle_inv
    by (auto simp: store_inv_def split: if_splits)
next
  case False
  then show ?thesis
    using assms audit_handle_detached [of store h now k] audit_handle_inv
    by (auto simp: store_inv_def)
qed

section \<open>Runs of the store\<close>

text \<open>
  The steps the rest of the program makes: open, close, and the engine's audit entries, which
  it writes through a handle it took earlier, possibly of a session closed since.
\<close>

inductive store_step :: "session_store \<Rightarrow> session_store \<Rightarrow> bool" where
  step_open: "store_open now store sid ws tier caps tok = (store', h) \<Longrightarrow> store_step store store'"
| step_close: "store_close now store sid = (store', r) \<Longrightarrow> store_step store store'"
| step_started: "store_step store (audit_handle now store h (JobStarted jid))"
| step_finished: "store_step store (audit_handle now store h (JobFinished jid status))"

inductive_cases store_stepE: "store_step store store'"

inductive store_reachable :: "session_store \<Rightarrow> bool" where
  reach_new: "store_reachable am_empty"
| reach_step: "store_reachable store \<Longrightarrow> store_step store store' \<Longrightarrow> store_reachable store'"

text \<open>The audit log of a live session: opened once, at the start, and not closed.\<close>

definition live_audit :: "audit_event list \<Rightarrow> bool" where
  "live_audit evs \<longleftrightarrow>
     (case map ae_kind evs of
        [] \<Rightarrow> False
      | k # ks \<Rightarrow> k = SessionOpened \<and> SessionOpened \<notin> set ks \<and> SessionClosed \<notin> set ks)"

lemma live_audit_append:
  "live_audit evs \<Longrightarrow> ae_kind e \<notin> {SessionOpened, SessionClosed} \<Longrightarrow> live_audit (evs @ [e])"
  by (cases evs) (auto simp: live_audit_def)

definition store_audited :: "session_store \<Rightarrow> bool" where
  "store_audited store \<longleftrightarrow>
     store_inv store \<and> (\<forall>sid se. am_lookup store sid = Some se \<longrightarrow> live_audit (se_audit_events se))"

lemma audit_handle_audited:
  assumes "store_audited store" and "k \<notin> {SessionOpened, SessionClosed}"
  shows "store_audited (audit_handle now store h k)"
proof -
  have inv: "store_inv store" "am_inv store" using assms(1) by (auto simp: store_audited_def store_inv_def)
  have "store_inv (audit_handle now store h k)" using inv(1) by (rule audit_handle_store_inv)
  moreover have "live_audit (se_audit_events se)"
    if "am_lookup (audit_handle now store h k) sid = Some se" for sid se
  proof (cases "\<exists>sid. am_get store sid = Some h")
    case True
    then obtain sid0 where "am_get store sid0 = Some h" by blast
    then show ?thesis
      using that assms audit_handle_lookup [OF inv(2), of sid0 h now k sid]
      by (auto simp: store_audited_def live_audit_append split: if_splits)
  next
    case False
    then show ?thesis
      using that assms audit_handle_detached [OF inv(2), of h now k] by (auto simp: store_audited_def)
  qed
  ultimately show ?thesis by (simp add: store_audited_def)
qed

lemma store_step_audited:
  assumes "store_step store store'" and "store_audited store"
  shows "store_audited store'"
  using assms
proof cases
  case (step_open now sid ws tier caps tok h)
  have "store_inv store" using assms(2) by (simp add: store_audited_def)
  from store_open_lookup [OF this step_open] show ?thesis
    using assms(2) by (auto simp: store_audited_def live_audit_def split: if_splits)
next
  case (step_close now sid r)
  have "store_inv store" using assms(2) by (simp add: store_audited_def)
  from store_close_lookup [OF this step_close] show ?thesis
    using assms(2) by (auto simp: store_audited_def split: if_splits)
qed (auto intro: audit_handle_audited)

section \<open>Properties\<close>

text \<open>C10: Possession of the token is the authority, and only over its own session: right after
  \<open>open\<close> the new id is authorized for exactly the token it was opened with, every other id for
  exactly what it was before; right after \<open>close\<close> the closed id is authorized for no token at
  all, every other id for what it was; closing succeeds exactly for a live session.\<close>

theorem session_authority:
  assumes "store_inv store"
  shows "(store_authorize (fst (store_open now store sid ws tier caps tok)) sid' presented \<longleftrightarrow>
      (if sid' = sid then presented = cap_token_expose tok else store_authorize store sid' presented)) \<and>
    (store_authorize (fst (store_close now store sid)) sid' presented \<longleftrightarrow>
      sid' \<noteq> sid \<and> store_authorize store sid' presented) \<and>
    (snd (store_close now store sid) = Inr () \<longleftrightarrow> am_lookup store sid \<noteq> None)"
proof -
  obtain s1 h where o: "store_open now store sid ws tier caps tok = (s1, h)" by fastforce
  obtain s2 r where c: "store_close now store sid = (s2, r)" by fastforce
  have "am_inv store" using assms by (simp add: store_inv_def)
  then show ?thesis
    using store_open_lookup(1) [OF assms o] store_close_lookup(1,3) [OF assms c]
    by (auto simp: o c store_authorize_iff am_lookup_None)
qed

lemma session_authority_witness:
  "store_authorize (fst (store_open 0 am_empty (SessionId ''s'') \<lparr>ws_root = ''/w''\<rparr> DevNone
     (cs_new []) (CapToken ''ct_1''))) (SessionId ''s'') ''ct_1''"
  using session_authority [OF store_inv_empty, of 0 "SessionId ''s''" "\<lparr>ws_root = ''/w''\<rparr>" DevNone
     "cs_new []" "CapToken ''ct_1''" "SessionId ''s''" "''ct_1''"] by simp

text \<open>The audit log of every live session, in every reachable state of the store: it starts with
  \<open>SessionOpened\<close> and holds no second one, and it never holds \<open>SessionClosed\<close>: that entry is
  only written to a session that no id leads to any more, so no request can read it back.\<close>

theorem session_closed_never_observable:
  assumes "store_reachable store" and "am_lookup store sid = Some se"
  shows "se_id se = sid \<and> live_audit (se_audit_events se) \<and>
    SessionClosed \<notin> ae_kind ` set (se_audit_events se)"
proof -
  have "store_audited store"
    using assms(1)
  proof induction
    case reach_new
    then show ?case by (simp add: store_audited_def)
  next
    case (reach_step store store')
    then show ?case using store_step_audited by blast
  qed
  then have "live_audit (se_audit_events se)" "se_id se = sid"
    using assms(2) by (auto simp: store_audited_def store_inv_def)
  then show ?thesis
    by (cases "se_audit_events se") (auto simp: live_audit_def)
qed

lemma session_closed_never_observable_witness:
  "\<exists>(store :: session_store) se. am_lookup store (SessionId ''s'') = Some se \<and> length (se_audit_events se) = 2 \<and>
     SessionClosed \<notin> ae_kind ` set (se_audit_events se)"
proof -
  let ?o = "\<lambda>st. store_open 7 st (SessionId ''s'') \<lparr>ws_root = ''/w''\<rparr> DevNone (cs_new []) (CapToken ''t'')"
  let ?s1 = "fst (?o am_empty)"
  let ?s2 = "fst (store_close 8 ?s1 (SessionId ''s''))"
  let ?s3 = "fst (?o ?s2)"
  let ?s = "audit_handle 9 ?s3 1 (JobStarted (JobId ''j''))"
  have "store_reachable ?s1" by (rule reach_step [OF reach_new step_open [OF surjective_pairing]])
  then have "store_reachable ?s2" by (rule reach_step [OF _ step_close [OF surjective_pairing]])
  then have "store_reachable ?s3" by (rule reach_step [OF _ step_open [OF surjective_pairing]])
  then have r: "store_reachable ?s" by (rule reach_step [OF _ step_started])
  let ?se = "record_audit 9 (record_audit 7
      (session_new 7 (SessionId ''s'') \<lparr>ws_root = ''/w''\<rparr> DevNone (cs_new []) (CapToken ''t''))
        SessionOpened) (JobStarted (JobId ''j''))"
  have l: "am_lookup ?s (SessionId ''s'') = Some ?se"
    by (simp add: store_open_def store_close_def audit_handle_def am_insert_def am_remove_def
        am_lookup_def am_get_def am_read_def am_write_def am_empty_def Let_def)
  have "SessionClosed \<notin> ae_kind ` set (se_audit_events ?se)"
    using session_closed_never_observable [OF r l] by blast
  moreover have "length (se_audit_events ?se) = 2" by simp
  ultimately show ?thesis using l by blast
qed

end
