(* ===== verification/Job_Store.thy ===== *)
theory Job_Store
  imports Session Replay_Log
begin

text \<open>
  \<open>axp-core/src/job/status.rs\<close> and \<open>job/store.rs\<close>: the job status, the job, the store
  with its two indices, and the resolution of a job's working directory. The replay log of a
  job is the in-memory log, the only implementation the engine creates. The primary index is
  the map of handles of \<open>Handle_Store\<close>.
\<close>

section \<open>Status\<close>

datatype job_status =
  Pending
| Running
| Exited i32
| Killed
| Failed string

primrec status_is_terminal :: "job_status \<Rightarrow> bool" where
  "status_is_terminal Pending = False"
| "status_is_terminal Running = False"
| "status_is_terminal (Exited code) = True"
| "status_is_terminal Killed = True"
| "status_is_terminal (Failed reason) = True"

primrec status_to_proto :: "job_status \<Rightarrow> job_status_proto" where
  "status_to_proto Pending = ProtoPending"
| "status_to_proto Running = ProtoRunning"
| "status_to_proto (Exited code) = ProtoExited code"
| "status_to_proto Killed = ProtoKilled"
| "status_to_proto (Failed reason) = ProtoFailed reason"

primrec status_from_proto :: "job_status_proto \<Rightarrow> job_status" where
  "status_from_proto ProtoPending = Pending"
| "status_from_proto ProtoRunning = Running"
| "status_from_proto (ProtoExited code) = Exited code"
| "status_from_proto ProtoKilled = Killed"
| "status_from_proto (ProtoFailed reason) = Failed reason"

lemma status_proto_roundtrip [simp]:
  "status_from_proto (status_to_proto s) = s" "status_to_proto (status_from_proto p) = p"
  by (cases s; simp) (cases p; simp)

section \<open>Job\<close>

record 'j job =
  jb_id :: job_id
  jb_session_id :: session_id
  jb_payload :: "'j job_payload"
  jb_cwd :: string
  jb_status :: job_status
  jb_created_at :: int
  jb_started_at :: "int option"
  jb_finished_at :: "int option"
  jb_replay_log :: mem_log

definition job_new ::
    "int \<Rightarrow> job_id \<Rightarrow> session_id \<Rightarrow> 'j job_payload \<Rightarrow> string \<Rightarrow> mem_log \<Rightarrow> 'j job" where
  "job_new now jid sid payload cwd rlog =
     \<lparr>jb_id = jid, jb_session_id = sid, jb_payload = payload, jb_cwd = cwd, jb_status = Pending,
      jb_created_at = now, jb_started_at = None, jb_finished_at = None, jb_replay_log = rlog\<rparr>"

lemma job_new_sel [simp]:
  "jb_id (job_new now jid sid payload cwd log) = jid"
  "jb_session_id (job_new now jid sid payload cwd log) = sid"
  "jb_payload (job_new now jid sid payload cwd log) = payload"
  "jb_cwd (job_new now jid sid payload cwd log) = cwd"
  "jb_status (job_new now jid sid payload cwd log) = Pending"
  "jb_replay_log (job_new now jid sid payload cwd log) = log"
  by (simp_all add: job_new_def)

section \<open>The store\<close>

record 'j job_store =
  st_jobs :: "(job_id, 'j job) arc_map"
  st_by_session :: "session_id \<Rightarrow> job_id list option"

definition job_store_new :: "'j job_store" where
  "job_store_new = \<lparr>st_jobs = am_empty, st_by_session = (\<lambda>_. None)\<rparr>"

definition list_for_session :: "'j job_store \<Rightarrow> session_id \<Rightarrow> job_id list" where
  "list_for_session store sid = (case st_by_session store sid of None \<Rightarrow> [] | Some ids \<Rightarrow> ids)"

definition job_store_insert :: "'j job_store \<Rightarrow> 'j job \<Rightarrow> 'j job_store \<times> nat" where
  "job_store_insert store job =
     (let jid = jb_id job; sid = jb_session_id job;
          (jobs, handle) = am_insert (st_jobs store) jid job in
      (store\<lparr>st_jobs := jobs,
         st_by_session := (st_by_session store)(sid := Some (list_for_session store sid @ [jid]))\<rparr>, handle))"

definition job_store_get :: "'j job_store \<Rightarrow> job_id \<Rightarrow> nat option" where
  "job_store_get store jid = am_get (st_jobs store) jid"

definition job_store_remove :: "'j job_store \<Rightarrow> job_id \<Rightarrow> 'j job_store \<times> nat option" where
  "job_store_remove store jid =
     (case am_remove (st_jobs store) jid of
        (jobs, None) \<Rightarrow> (store\<lparr>st_jobs := jobs\<rparr>, None)
      | (jobs, Some handle) \<Rightarrow>
          (case am_read jobs handle of
             None \<Rightarrow> (store\<lparr>st_jobs := jobs\<rparr>, Some handle)
           | Some job \<Rightarrow>
               let sid = jb_session_id job in
               (store\<lparr>st_jobs := jobs,
                  st_by_session := (case st_by_session store sid of
                     None \<Rightarrow> st_by_session store
                   | Some ids \<Rightarrow> (st_by_session store)(sid := Some (filter (\<lambda>j. j \<noteq> jid) ids)))\<rparr>,
                Some handle)))"

text \<open>A write through a job's handle.\<close>

definition job_write :: "'j job_store \<Rightarrow> nat \<Rightarrow> 'j job \<Rightarrow> 'j job_store" where
  "job_write store handle job = store\<lparr>st_jobs := am_write (st_jobs store) handle job\<rparr>"

definition job_read :: "'j job_store \<Rightarrow> nat \<Rightarrow> 'j job option" where
  "job_read store handle = am_read (st_jobs store) handle"

definition job_lookup :: "'j job_store \<Rightarrow> job_id \<Rightarrow> 'j job option" where
  "job_lookup store jid = am_lookup (st_jobs store) jid"

section \<open>Working directory\<close>

definition resolve_cwd ::
    "(string \<Rightarrow> (string, string) result) \<Rightarrow> string option \<Rightarrow> workspace \<Rightarrow> string core_result" where
  "resolve_cwd canonicalize rel workspace =
     (let base = (case rel of None \<Rightarrow> ws_root workspace | Some r \<Rightarrow> path_join (ws_root workspace) r) in
      rbind (map_err (\<lambda>_. WorkspaceViolation base) (canonicalize base)) (\<lambda>canonical.
      if \<not> ws_contains workspace canonical then Inl (WorkspaceViolation canonical)
      else Inr canonical))"

lemma resolve_cwd_Inr:
  "resolve_cwd canonicalize rel ws = Inr cwd \<Longrightarrow>
     ws_contains ws cwd \<and> (\<exists>base. canonicalize base = Inr cwd)"
  by (auto simp: resolve_cwd_def Let_def result_simps split: if_splits option.splits)

section \<open>The two indices agree\<close>

definition job_store_inv :: "'j job_store \<Rightarrow> bool" where
  "job_store_inv store \<longleftrightarrow> am_inv (st_jobs store) \<and>
     (\<forall>jid job. job_lookup store jid = Some job \<longrightarrow> jb_id job = jid) \<and>
     (\<forall>sid jid. jid \<in> set (list_for_session store sid) \<longleftrightarrow>
        (\<exists>job. job_lookup store jid = Some job \<and> jb_session_id job = sid)) \<and>
     (\<forall>sid. distinct (list_for_session store sid))"

lemma job_store_new_inv [simp]: "job_store_inv job_store_new"
  by (simp add: job_store_inv_def job_store_new_def job_lookup_def list_for_session_def)

lemma job_insert_sel:
  assumes "job_store_insert store job = (store', h)"
  shows "am_insert (st_jobs store) (jb_id job) job = (st_jobs store', h)"
    and "list_for_session store' sid =
      (if sid = jb_session_id job then list_for_session store sid @ [jb_id job] else list_for_session store sid)"
  using assms by (auto simp: job_store_insert_def Let_def list_for_session_def split: prod.splits)

lemma job_insert_lookup:
  assumes "job_store_inv store" and "job_store_insert store job = (store', h)"
  shows "job_lookup store' jid = (if jid = jb_id job then Some job else job_lookup store jid)"
  using am_lookup_insert [OF _ job_insert_sel(1) [OF assms(2)]] assms(1)
  by (simp add: job_lookup_def job_store_inv_def)

lemma job_insert_inv:
  assumes "job_store_inv store" and "job_store_insert store job = (store', h)"
    and "job_lookup store (jb_id job) = None"
  shows "job_store_inv store'"
proof -
  have l: "job_lookup store' jid = (if jid = jb_id job then Some job else job_lookup store jid)" for jid
    by (rule job_insert_lookup [OF assms(1,2)])
  have "am_inv (st_jobs store')"
    using arc.insert_inv [OF _ job_insert_sel(1) [OF assms(2)]] assms(1) by (simp add: job_store_inv_def)
  moreover have "jb_id job \<notin> set (list_for_session store sid)" for sid
    using assms(1,3) by (auto simp: job_store_inv_def)
  ultimately show ?thesis
    using assms(1,3) by (auto simp: job_store_inv_def l job_insert_sel(2) [OF assms(2)])
qed

lemma job_insert_read:
  assumes "job_store_insert store job = (store', h)"
  shows "job_read store' h' = (if h' = h then Some job else job_read store h')"
    and "job_store_get store' (jb_id job) = Some h"
    and "job_store_get store' jid = (if jid = jb_id job then Some h else job_store_get store jid)"
  using arc.insert_deref [OF job_insert_sel(1) [OF assms]] arc.insert_get [OF job_insert_sel(1) [OF assms]]
  by (simp_all add: job_read_def job_store_get_def)

lemma job_write_lookup:
  assumes "job_store_inv store" and "job_store_get store jid = Some h"
  shows "job_lookup (job_write store h job) jid' = (if jid' = jid then Some job else job_lookup store jid')"
  using assms am_lookup_write [of "st_jobs store" jid h job jid']
  by (simp add: job_lookup_def job_write_def job_store_inv_def job_store_get_def)

lemma job_write_frame [simp]:
  "job_store_get (job_write store h job) jid = job_store_get store jid"
  "list_for_session (job_write store h job) sid = list_for_session store sid"
  by (simp_all add: job_write_def job_store_get_def arc.assign_get list_for_session_def)

lemma job_write_inv:
  assumes "job_store_inv store" and "job_store_get store jid = Some h"
    and "job_lookup store jid = Some old" and "jb_id job = jb_id old" and "jb_session_id job = jb_session_id old"
  shows "job_store_inv (job_write store h job)"
proof -
  have "am_inv (st_jobs (job_write store h job))"
    using assms(1) by (simp add: job_write_def job_store_inv_def arc.assign_inv)
  then show ?thesis
    using assms by (auto simp: job_store_inv_def job_write_lookup [OF assms(1,2)])
qed

lemma job_remove_sel:
  assumes "job_store_inv store" and "job_store_remove store jid = (store', x)"
  shows "am_remove (st_jobs store) jid = (st_jobs store', x)" and "x = job_store_get store jid"
    and "list_for_session store' sid = filter (\<lambda>j. j \<noteq> jid) (list_for_session store sid)"
proof -
  have inv: "am_inv (st_jobs store)" using assms(1) by (simp add: job_store_inv_def)
  obtain jobs y where rem: "am_remove (st_jobs store) jid = (jobs, y)" by fastforce
  have y: "y = am_get (st_jobs store) jid" using arc.remove_get [OF rem] by blast
  have lists: "filter (\<lambda>j. j \<noteq> jid) (list_for_session store s) = list_for_session store s"
    if "\<not> (\<exists>job. job_lookup store jid = Some job \<and> jb_session_id job = s)" for s
  proof -
    have "jid \<notin> set (list_for_session store s)" using assms(1) that by (auto simp: job_store_inv_def)
    then show ?thesis by (auto simp: filter_id_conv)
  qed
  have "am_remove (st_jobs store) jid = (st_jobs store', x) \<and> x = job_store_get store jid \<and>
      list_for_session store' sid = filter (\<lambda>j. j \<noteq> jid) (list_for_session store sid)"
  proof (cases y)
    case None
    then have "job_lookup store jid = None"
      using y am_lookup_None [OF inv, of jid] by (simp add: job_lookup_def)
    then show ?thesis
      using assms(2) rem y None lists [of sid]
      by (auto simp: job_store_remove_def job_store_get_def list_for_session_def)
  next
    case (Some h)
    then obtain job where job: "am_read (st_jobs store) h = Some job"
      using y arc.get_deref [OF inv, of jid h] by auto
    have "am_get (st_jobs store) jid = Some h" using y Some by simp
    then have lk: "job_lookup store jid = Some job"
      using job by (simp add: job_lookup_def am_lookup_def)
    have r: "am_read jobs h = Some job" using arc.remove_deref [OF rem] job by simp
    show ?thesis
      using assms(2) rem y Some r lists [of sid] lk
      by (cases "sid = jb_session_id job")
        (auto simp: job_store_remove_def job_store_get_def list_for_session_def Let_def split: option.splits)
  qed
  then show "am_remove (st_jobs store) jid = (st_jobs store', x)" "x = job_store_get store jid"
    "list_for_session store' sid = filter (\<lambda>j. j \<noteq> jid) (list_for_session store sid)" by blast+
qed

lemma job_remove_lookup:
  assumes "job_store_inv store" and "job_store_remove store jid = (store', x)"
  shows "job_lookup store' jid' = (if jid' = jid then None else job_lookup store jid')"
    and "job_store_inv store'"
proof -
  show l: "job_lookup store' jid' = (if jid' = jid then None else job_lookup store jid')" for jid'
    using am_lookup_remove [OF job_remove_sel(1) [OF assms]] by (simp add: job_lookup_def)
  show "job_store_inv store'"
    using assms(1) arc.remove_inv [OF _ job_remove_sel(1) [OF assms]]
    by (auto simp: job_store_inv_def l job_remove_sel(3) [OF assms])
qed

section \<open>Properties\<close>

text \<open>The two indices of the job store agree after every operation: inserting a job with a new id
  makes it found by id and listed last under its session, removing a job makes it found and listed
  nowhere while its handle stays readable, and neither changes what any other id finds or the rest of
  any session's list.\<close>

theorem job_store_indices_agree:
  assumes "job_store_inv store" and "job_lookup store (jb_id job) = None"
    and "job_store_insert store job = (store1, h)" and "job_store_remove store jid = (store2, x)"
  shows "job_store_inv store1 \<and> job_store_inv store2 \<and>
    job_lookup store1 k = (if k = jb_id job then Some job else job_lookup store k) \<and>
    list_for_session store1 sid =
      list_for_session store sid @ (if sid = jb_session_id job then [jb_id job] else []) \<and>
    job_lookup store2 k = (if k = jid then None else job_lookup store k) \<and>
    list_for_session store2 sid = filter (\<lambda>j. j \<noteq> jid) (list_for_session store sid) \<and>
    (case x of None \<Rightarrow> job_lookup store jid = None
     | Some h \<Rightarrow> job_read store2 h = job_lookup store jid \<and> job_read store2 h \<noteq> None)"
proof -
  have inv: "am_inv (st_jobs store)" using assms(1) by (simp add: job_store_inv_def)
  note sel = job_remove_sel [OF assms(1,4)]
  have "case x of None \<Rightarrow> job_lookup store jid = None
     | Some h \<Rightarrow> job_read store2 h = job_lookup store jid \<and> job_read store2 h \<noteq> None"
  proof (cases x)
    case None
    then show ?thesis
      using sel(2) am_lookup_None [OF inv, of jid] by (simp add: job_lookup_def job_store_get_def)
  next
    case (Some h)
    then have "am_remove (st_jobs store) jid = (st_jobs store2, Some h)" using sel(1) by simp
    note r = am_removed_readable [OF inv this]
    then have "am_lookup (st_jobs store) jid \<noteq> None" by metis
    with r Some show ?thesis by (simp add: job_read_def job_lookup_def)
  qed
  then show ?thesis
    using job_insert_inv [OF assms(1,3,2)] job_insert_lookup [OF assms(1,3)] job_insert_sel(2) [OF assms(3)]
      job_remove_lookup [OF assms(1,4)] sel(3) by simp
qed

definition wit_job :: "unit job" where
  "wit_job = job_new 0 (JobId ''j_1'') (SessionId ''s'') (PCommand ''ls'') ''/w'' (mem_with_cap 100)"

lemma job_store_indices_agree_witness:
  "list_for_session (fst (job_store_insert job_store_new wit_job)) (SessionId ''s'') = [JobId ''j_1'']"
  using job_store_indices_agree [OF job_store_new_inv _ surjective_pairing surjective_pairing,
      of wit_job "JobId ''j_1''" _ "SessionId ''s''"]
  by (simp add: wit_job_def job_store_new_def job_lookup_def list_for_session_def)

text \<open>A job never runs outside its workspace: whatever relative or absolute directory is asked
  for, a resolved working directory is a canonical path inside the workspace root, and everything else
  is a workspace violation.\<close>

theorem resolve_cwd_confined:
  "(\<exists>cwd. resolve_cwd canonicalize rel ws = Inr cwd \<and> path_starts_with cwd (ws_root ws) \<and>
      canonicalize (case rel of None \<Rightarrow> ws_root ws | Some r \<Rightarrow> path_join (ws_root ws) r) = Inr cwd) \<or>
   (\<exists>p. resolve_cwd canonicalize rel ws = Inl (WorkspaceViolation p) \<and> \<not> (\<exists>cwd.
      canonicalize (case rel of None \<Rightarrow> ws_root ws | Some r \<Rightarrow> path_join (ws_root ws) r) = Inr cwd \<and>
      path_starts_with cwd (ws_root ws)))"
proof -
  let ?base = "case rel of None \<Rightarrow> ws_root ws | Some r \<Rightarrow> path_join (ws_root ws) r"
  show ?thesis
    by (cases "canonicalize ?base") (auto simp: resolve_cwd_def Let_def ws_contains_def)
qed

end
