(* ===== verification/Provider.thy ===== *)
theory Provider
  imports Capability
begin

text \<open>
  \<open>axp-core/src/provider.rs\<close>, \<open>mcp.rs\<close> and the provider of \<open>builtins.rs\<close>: the trait
  \<open>Provider\<close> as a locale, its two implementations, and the trait object the registry
  stores. \<open>'j\<close> is \<open>serde_json::Value\<close>; \<open>get_str\<close> is
  \<open>params.get(field).and_then(as_str)\<close> and \<open>to_json\<close> is \<open>serde_json::to_string\<close>.
  A \<open>HashMap\<close> that is iterated is an association list in insertion order: the source's
  order is arbitrary, and the lemmas speak of sets and look-ups only.
\<close>

section \<open>Data\<close>

datatype capability_arg = Literal string | Param string

record execution_spec =
  ex_program :: string
  ex_args_template :: "capability_arg list"

record resolved_command =
  rc_program :: string
  rc_args :: "string list"

record capability_listing =
  cl_name :: string
  cl_desc :: string

record 'j capability_descriptor =
  ds_name :: string
  ds_desc :: string
  ds_signature :: string
  ds_schema :: 'j
  ds_exec :: execution_spec

section \<open>The trait\<close>

text \<open>
  The contract the registry relies on: the listed names are distinct, \<open>describe\<close> answers
  for exactly the listed names, and \<open>resolve\<close> never says "not found" for a listed one.
\<close>

locale capability_provider =
  fixes index :: "'p \<Rightarrow> capability_listing list core_result"
    and describe :: "'p \<Rightarrow> string \<Rightarrow> 'j capability_detail core_result"
    and resolve :: "'p \<Rightarrow> string \<Rightarrow> 'j \<Rightarrow> resolved_command core_result"
    and names :: "'p \<Rightarrow> string set"
    and inv :: "'p \<Rightarrow> bool"
  assumes index_names: "inv p \<Longrightarrow>
      \<exists>ls. index p = Inr ls \<and> distinct (map cl_name ls) \<and> set (map cl_name ls) = names p"
    and describe_known: "inv p \<Longrightarrow> n \<in> names p \<Longrightarrow> \<exists>d. describe p n = Inr d"
    and describe_unknown: "inv p \<Longrightarrow> n \<notin> names p \<Longrightarrow> describe p n = Inl (CapabilityNotFound n)"
    and resolve_known: "inv p \<Longrightarrow> n \<in> names p \<Longrightarrow> resolve p n j \<noteq> Inl (CapabilityNotFound m)"
    and resolve_unknown: "inv p \<Longrightarrow> n \<notin> names p \<Longrightarrow> resolve p n j = Inl (CapabilityNotFound n)"
begin

text \<open>Everything listed can be described, and nothing else.\<close>

lemma listed_iff_described:
  assumes "inv p" and "index p = Inr ls"
  shows "n \<in> cl_name ` set ls \<longleftrightarrow> (\<exists>d. describe p n = Inr d)"
  using assms index_names [OF assms(1)] describe_known [OF assms(1)] describe_unknown [OF assms(1)]
  by (metis Inr_Inl_False list.set_map sum.inject(2))

lemma resolved_is_listed:
  assumes "inv p" and "index p = Inr ls" and "resolve p n j = Inr c"
  shows "n \<in> cl_name ` set ls"
  using assms index_names [OF assms(1)] resolve_unknown [OF assms(1)]
  by (metis Inr_Inl_False list.set_map sum.inject(2))

end

section \<open>NativeProvider\<close>

record 'j native_provider =
  np_id :: string
  np_descriptors :: "(string \<times> 'j capability_descriptor) list"

fun native_collect ::
    "string \<Rightarrow> (string \<times> 'j capability_descriptor) list \<Rightarrow> 'j capability_descriptor list
      \<Rightarrow> (string \<times> 'j capability_descriptor) list core_result" where
  "native_collect pid m [] = Inr m"
| "native_collect pid m (d # ds) =
     (if map_of m (ds_name d) \<noteq> None then Inl (DuplicateCapability pid (ds_name d))
      else native_collect pid (m @ [(ds_name d, d)]) ds)"

definition native_new :: "string \<Rightarrow> 'j capability_descriptor list \<Rightarrow> 'j native_provider core_result" where
  "native_new pid descriptors =
     rbind (native_collect pid [] descriptors)
       (\<lambda>m. Inr \<lparr>np_id = pid, np_descriptors = m\<rparr>)"

definition native_index :: "'j native_provider \<Rightarrow> capability_listing list core_result" where
  "native_index p =
     Inr (map (\<lambda>(_, d). \<lparr>cl_name = ds_name d, cl_desc = ds_desc d\<rparr>) (np_descriptors p))"

definition native_describe :: "'j native_provider \<Rightarrow> string \<Rightarrow> 'j capability_detail core_result" where
  "native_describe p local_name =
     ok_or (map_option (\<lambda>d. \<lparr>cd_signature = ds_signature d, cd_schema = ds_schema d\<rparr>)
         (map_of (np_descriptors p) local_name))
       (CapabilityNotFound local_name)"

text \<open>One slot of the argument template.\<close>

primrec bind_arg :: "('j \<Rightarrow> string \<Rightarrow> string option) \<Rightarrow> 'j \<Rightarrow> capability_arg \<Rightarrow> string core_result" where
  "bind_arg get_str params (Literal s) = Inr s"
| "bind_arg get_str params (Param field) =
     ok_or (get_str params field) (CapabilityParse field ''missing or non-string capability param'')"

definition native_resolve ::
    "('j \<Rightarrow> string \<Rightarrow> string option) \<Rightarrow> 'j native_provider \<Rightarrow> string \<Rightarrow> 'j \<Rightarrow> resolved_command core_result" where
  "native_resolve get_str p local_name params =
     rbind (ok_or (map_of (np_descriptors p) local_name) (CapabilityNotFound local_name)) (\<lambda>d.
     rbind (collect_results (bind_arg get_str params) (ex_args_template (ds_exec d))) (\<lambda>args.
     Inr \<lparr>rc_program = ex_program (ds_exec d), rc_args = args\<rparr>))"

text \<open>Descriptors are filed under their own, distinct names.\<close>

definition native_inv :: "'j native_provider \<Rightarrow> bool" where
  "native_inv p \<longleftrightarrow> distinct (map fst (np_descriptors p)) \<and>
     (\<forall>(k, d) \<in> set (np_descriptors p). ds_name d = k)"

lemma native_collect_Inr:
  "native_collect pid m ds = Inr m' \<longleftrightarrow>
     m' = m @ map (\<lambda>d. (ds_name d, d)) ds \<and> distinct (map ds_name ds) \<and>
     ds_name ` set ds \<inter> fst ` set m = {}"
proof (induction ds arbitrary: m)
  case (Cons d ds)
  show ?case
  proof (cases "ds_name d \<in> fst ` set m")
    case True
    then show ?thesis by (simp add: map_of_eq_None_iff)
  next
    case False
    then have step: "native_collect pid m (d # ds) = native_collect pid (m @ [(ds_name d, d)]) ds"
      by (simp add: map_of_eq_None_iff)
    show ?thesis unfolding step Cons.IH using False by auto
  qed
qed auto

lemma native_collect_Inl:
  "native_collect pid m ds = Inl e \<Longrightarrow> \<exists>n. e = DuplicateCapability pid n \<and> n \<in> ds_name ` set ds"
  by (induction ds arbitrary: m) (fastforce split: if_splits)+

lemma native_new_Inr:
  "native_new pid ds = Inr p \<longleftrightarrow>
     distinct (map ds_name ds) \<and> p = \<lparr>np_id = pid, np_descriptors = map (\<lambda>d. (ds_name d, d)) ds\<rparr>"
  by (auto simp: native_new_def rbind_Inr_iff native_collect_Inr)

lemma native_new_inv: "native_new pid ds = Inr p \<Longrightarrow> native_inv p"
  by (auto simp: native_new_Inr native_inv_def comp_def)

lemma bind_args_not_found:
  "collect_results (bind_arg get_str params) slots \<noteq> Inl (CapabilityNotFound n)"
proof (induction slots)
  case (Cons s slots)
  then show ?case by (cases s) (auto simp: result_simps)
qed simp

lemma native_index_names: "map cl_name (map (\<lambda>(_, d). \<lparr>cl_name = ds_name d, cl_desc = ds_desc d\<rparr>) al) =
    map (ds_name \<circ> snd) al"
  by auto

interpretation native: capability_provider native_index native_describe "native_resolve get_str"
    "\<lambda>p. fst ` set (np_descriptors p)" native_inv for get_str
proof unfold_locales
  fix p :: "'j native_provider"
  assume "native_inv p"
  then have "map (ds_name \<circ> snd) (np_descriptors p) = map fst (np_descriptors p)"
    by (auto simp: native_inv_def)
  then have "map cl_name (map (\<lambda>(_, d). \<lparr>cl_name = ds_name d, cl_desc = ds_desc d\<rparr>) (np_descriptors p)) =
      map fst (np_descriptors p)"
    by (simp only: native_index_names)
  then show "\<exists>ls. native_index p = Inr ls \<and> distinct (map cl_name ls) \<and>
      set (map cl_name ls) = fst ` set (np_descriptors p)"
    using \<open>native_inv p\<close> unfolding native_index_def native_inv_def
    by (metis (no_types, lifting) list.set_map)
next
  fix p :: "'j native_provider" and n
  assume "n \<in> fst ` set (np_descriptors p)"
  then obtain d where d: "map_of (np_descriptors p) n = Some d"
    by (cases "map_of (np_descriptors p) n") (auto simp: map_of_eq_None_iff)
  then show "\<exists>d. native_describe p n = Inr d"
    by (simp add: native_describe_def)
  show "native_resolve get_str p n j \<noteq> Inl (CapabilityNotFound m)" for get_str j m
    using d bind_args_not_found [of get_str j] by (auto simp: native_resolve_def result_simps)
next
  fix p :: "'j native_provider" and n
  assume "n \<notin> fst ` set (np_descriptors p)"
  then have "map_of (np_descriptors p) n = None" by (simp add: map_of_eq_None_iff)
  then show "native_describe p n = Inl (CapabilityNotFound n)"
      "native_resolve get_str p n j = Inl (CapabilityNotFound n)" for get_str j
    by (simp_all add: native_describe_def native_resolve_def)
qed

section \<open>McpToolProvider\<close>

record mcp_bridge_command =
  br_program :: string
  br_args :: "string list"

record 'j mcp_tool_descriptor =
  mt_provider_id :: string
  mt_name :: string
  mt_desc :: string
  mt_schema :: 'j
  mt_bridge :: mcp_bridge_command

record 'j mcp_tool_provider =
  mp_id :: string
  mp_tools :: "(string \<times> 'j mcp_tool_descriptor) list"

fun mcp_collect ::
    "string \<Rightarrow> (string \<times> 'j mcp_tool_descriptor) list \<Rightarrow> 'j mcp_tool_descriptor list
      \<Rightarrow> (string \<times> 'j mcp_tool_descriptor) list core_result" where
  "mcp_collect pid m [] = Inr m"
| "mcp_collect pid m (t # ts) =
     (if mt_provider_id t \<noteq> pid then
        Inl (CapabilityParse (mt_provider_id t) (''MCP tool provider id must match `'' @ pid @ ''`''))
      else if map_of m (mt_name t) \<noteq> None then Inl (DuplicateCapability pid (mt_name t))
      else mcp_collect pid (m @ [(mt_name t, t)]) ts)"

definition mcp_new :: "string \<Rightarrow> 'j mcp_tool_descriptor list \<Rightarrow> 'j mcp_tool_provider core_result" where
  "mcp_new pid tools = rbind (mcp_collect pid [] tools) (\<lambda>m. Inr \<lparr>mp_id = pid, mp_tools = m\<rparr>)"

definition mcp_index :: "'j mcp_tool_provider \<Rightarrow> capability_listing list core_result" where
  "mcp_index p = Inr (map (\<lambda>(_, t). \<lparr>cl_name = mt_name t, cl_desc = mt_desc t\<rparr>) (mp_tools p))"

definition mcp_tool_signature :: "string \<Rightarrow> string" where
  "mcp_tool_signature tool_name = tool_name @ ''(input: object): string''"

definition mcp_describe :: "'j mcp_tool_provider \<Rightarrow> string \<Rightarrow> 'j capability_detail core_result" where
  "mcp_describe p local_name =
     ok_or (map_option (\<lambda>t. \<lparr>cd_signature = mcp_tool_signature (mt_name t), cd_schema = mt_schema t\<rparr>)
         (map_of (mp_tools p) local_name))
       (CapabilityNotFound local_name)"

definition mcp_resolve ::
    "('j \<Rightarrow> (string, string) result) \<Rightarrow> 'j mcp_tool_provider \<Rightarrow> string \<Rightarrow> 'j \<Rightarrow> resolved_command core_result" where
  "mcp_resolve to_json p local_name params =
     rbind (ok_or (map_of (mp_tools p) local_name) (CapabilityNotFound local_name)) (\<lambda>tool.
     rbind (map_err (\<lambda>err. CapabilityParse local_name (''failed to serialize MCP tool params: '' @ err))
         (to_json params)) (\<lambda>serialized.
     Inr \<lparr>rc_program = br_program (mt_bridge tool),
          rc_args = br_args (mt_bridge tool) @
            [''--provider'', mt_provider_id tool, ''--tool'', mt_name tool, ''--params'', serialized]\<rparr>))"

definition mcp_inv :: "'j mcp_tool_provider \<Rightarrow> bool" where
  "mcp_inv p \<longleftrightarrow> distinct (map fst (mp_tools p)) \<and>
     (\<forall>(k, t) \<in> set (mp_tools p). mt_name t = k \<and> mt_provider_id t = mp_id p)"

lemma mcp_collect_Inr:
  "mcp_collect pid m ts = Inr m' \<longleftrightarrow>
     m' = m @ map (\<lambda>t. (mt_name t, t)) ts \<and> distinct (map mt_name ts) \<and>
     mt_name ` set ts \<inter> fst ` set m = {} \<and> (\<forall>t \<in> set ts. mt_provider_id t = pid)"
proof (induction ts arbitrary: m)
  case (Cons t ts)
  show ?case
  proof (cases "mt_provider_id t \<noteq> pid \<or> mt_name t \<in> fst ` set m")
    case True
    then show ?thesis by (auto simp: map_of_eq_None_iff)
  next
    case False
    then have step: "mcp_collect pid m (t # ts) = mcp_collect pid (m @ [(mt_name t, t)]) ts"
      by (simp add: map_of_eq_None_iff)
    show ?thesis unfolding step Cons.IH using False by auto
  qed
qed auto

lemma mcp_new_Inr:
  "mcp_new pid ts = Inr p \<longleftrightarrow>
     distinct (map mt_name ts) \<and> (\<forall>t \<in> set ts. mt_provider_id t = pid) \<and>
     p = \<lparr>mp_id = pid, mp_tools = map (\<lambda>t. (mt_name t, t)) ts\<rparr>"
  by (auto simp: mcp_new_def rbind_Inr_iff mcp_collect_Inr)

lemma mcp_new_inv: "mcp_new pid ts = Inr p \<Longrightarrow> mcp_inv p"
  by (auto simp: mcp_new_Inr mcp_inv_def comp_def)

interpretation mcp: capability_provider mcp_index mcp_describe "mcp_resolve to_json"
    "\<lambda>p. fst ` set (mp_tools p)" mcp_inv for to_json
proof unfold_locales
  fix p :: "'j mcp_tool_provider"
  assume inv: "mcp_inv p"
  have "map cl_name (map (\<lambda>(_, t). \<lparr>cl_name = mt_name t, cl_desc = mt_desc t\<rparr>) (mp_tools p)) =
      map fst (mp_tools p)"
    using inv by (auto simp: mcp_inv_def)
  then show "\<exists>ls. mcp_index p = Inr ls \<and> distinct (map cl_name ls) \<and>
      set (map cl_name ls) = fst ` set (mp_tools p)"
    using inv unfolding mcp_index_def mcp_inv_def by (metis (no_types, lifting) list.set_map)
next
  fix p :: "'j mcp_tool_provider" and n
  assume "n \<in> fst ` set (mp_tools p)"
  then obtain t where t: "map_of (mp_tools p) n = Some t"
    by (cases "map_of (mp_tools p) n") (auto simp: map_of_eq_None_iff)
  then show "\<exists>d. mcp_describe p n = Inr d"
    by (simp add: mcp_describe_def)
  show "mcp_resolve to_json p n j \<noteq> Inl (CapabilityNotFound m)" for to_json j m
    using t by (auto simp: mcp_resolve_def result_simps)
next
  fix p :: "'j mcp_tool_provider" and n
  assume "n \<notin> fst ` set (mp_tools p)"
  then have "map_of (mp_tools p) n = None" by (simp add: map_of_eq_None_iff)
  then show "mcp_describe p n = Inl (CapabilityNotFound n)"
      "mcp_resolve to_json p n j = Inl (CapabilityNotFound n)" for to_json j
    by (simp_all add: mcp_describe_def mcp_resolve_def)
qed

section \<open>Trait objects\<close>

text \<open>\<open>Box<dyn Provider>\<close>: the methods of an implementation, closed over its data.\<close>

record 'j dyn_provider =
  dp_id :: string
  dp_index :: "capability_listing list core_result"
  dp_describe :: "string \<Rightarrow> 'j capability_detail core_result"
  dp_resolve :: "string \<Rightarrow> 'j \<Rightarrow> resolved_command core_result"

definition native_dyn :: "('j \<Rightarrow> string \<Rightarrow> string option) \<Rightarrow> 'j native_provider \<Rightarrow> 'j dyn_provider" where
  "native_dyn get_str p =
     \<lparr>dp_id = np_id p, dp_index = native_index p, dp_describe = native_describe p,
      dp_resolve = native_resolve get_str p\<rparr>"

definition mcp_dyn :: "('j \<Rightarrow> (string, string) result) \<Rightarrow> 'j mcp_tool_provider \<Rightarrow> 'j dyn_provider" where
  "mcp_dyn to_json p =
     \<lparr>dp_id = mp_id p, dp_index = mcp_index p, dp_describe = mcp_describe p,
      dp_resolve = mcp_resolve to_json p\<rparr>"

text \<open>A trait object that keeps the trait's contract, for the names it lists.\<close>

definition dp_names :: "'j dyn_provider \<Rightarrow> string set" where
  "dp_names p = (case dp_index p of Inl _ \<Rightarrow> {} | Inr ls \<Rightarrow> cl_name ` set ls)"

definition dp_lawful :: "'j dyn_provider \<Rightarrow> bool" where
  "dp_lawful p \<longleftrightarrow>
     (\<exists>ls. dp_index p = Inr ls \<and> distinct (map cl_name ls)) \<and>
     (\<forall>n. if n \<in> dp_names p then (\<exists>d. dp_describe p n = Inr d) else dp_describe p n = Inl (CapabilityNotFound n)) \<and>
     (\<forall>n j. if n \<in> dp_names p then (\<forall>m. dp_resolve p n j \<noteq> Inl (CapabilityNotFound m))
            else dp_resolve p n j = Inl (CapabilityNotFound n))"

interpretation dyn: capability_provider dp_index dp_describe dp_resolve dp_names dp_lawful
  by unfold_locales (auto simp: dp_lawful_def dp_names_def)

lemma native_dyn_lawful:
  assumes "native_inv p"
  shows "dp_lawful (native_dyn get_str p)"
proof -
  obtain ls where ls: "native_index p = Inr ls" "distinct (map cl_name ls)"
      "cl_name ` set ls = fst ` set (np_descriptors p)"
    using native.index_names [OF assms] by auto
  then have "dp_names (native_dyn get_str p) = fst ` set (np_descriptors p)"
    by (simp add: dp_names_def native_dyn_def)
  then show ?thesis
    using ls native.describe_known [OF assms] native.describe_unknown [OF assms]
      native.resolve_known [OF assms] native.resolve_unknown [OF assms]
    by (simp add: dp_lawful_def) (simp add: native_dyn_def)
qed

lemma mcp_dyn_lawful:
  assumes "mcp_inv p"
  shows "dp_lawful (mcp_dyn to_json p)"
proof -
  obtain ls where ls: "mcp_index p = Inr ls" "distinct (map cl_name ls)"
      "cl_name ` set ls = fst ` set (mp_tools p)"
    using mcp.index_names [OF assms] by auto
  then have "dp_names (mcp_dyn to_json p) = fst ` set (mp_tools p)"
    by (simp add: dp_names_def mcp_dyn_def)
  then show ?thesis
    using ls mcp.describe_known [OF assms] mcp.describe_unknown [OF assms]
      mcp.resolve_known [OF assms] mcp.resolve_unknown [OF assms]
    by (simp add: dp_lawful_def) (simp add: mcp_dyn_def)
qed

section \<open>The built-in provider\<close>

text \<open>
  The two JSON schemas of the source (an empty object schema; one string property
  \<open>path\<close>) are arguments.
\<close>

definition builtin_descriptors :: "'j \<Rightarrow> 'j \<Rightarrow> 'j capability_descriptor list" where
  "builtin_descriptors schema_empty schema_path =
     [\<lparr>ds_name = ''git_diff'', ds_desc = ''Show uncommitted working-tree changes as a unified diff'',
       ds_signature = ''git_diff(): string'', ds_schema = schema_empty,
       ds_exec = \<lparr>ex_program = ''git'', ex_args_template = [Literal ''diff'']\<rparr>\<rparr>,
      \<lparr>ds_name = ''git_log'', ds_desc = ''List recent commits in compact one-line summary form'',
       ds_signature = ''git_log(): string'', ds_schema = schema_empty,
       ds_exec = \<lparr>ex_program = ''git'',
         ex_args_template = [Literal ''log'', Literal ''--oneline'', Literal ''-20'']\<rparr>\<rparr>,
      \<lparr>ds_name = ''read_file'', ds_desc = ''Read and output the contents of a file by path'',
       ds_signature = ''read_file(path: string): string'', ds_schema = schema_path,
       ds_exec = \<lparr>ex_program = ''cat'', ex_args_template = [Param ''path'']\<rparr>\<rparr>]"

definition native_provider :: "'j \<Rightarrow> 'j \<Rightarrow> 'j native_provider core_result" where
  "native_provider schema_empty schema_path =
     native_new ''native'' (builtin_descriptors schema_empty schema_path)"

end
