(* ===== verification/Registry.thy ===== *)
theory Registry
  imports Provider "HOL-Library.AList"
begin

text \<open>
  \<open>axp-core/src/registry.rs\<close> and \<open>builtins.rs\<close>: the provider registry with its
  collision-correct catalog, discovery scoped to a session's capabilities, and the routing of
  \<open>describe\<close> and \<open>resolve\<close>. \<open>lower\<close> is \<open>str::to_lowercase\<close>. The catalog is an
  association list (it is iterated by \<open>index\<close>); providers and name counts are maps.
\<close>

section \<open>Description quality\<close>

definition DESC_MIN_LEN :: nat where "DESC_MIN_LEN = 10"
definition DESC_MAX_LEN :: nat where "DESC_MAX_LEN = 120"

definition check_description_quality ::
    "(string \<Rightarrow> string) \<Rightarrow> string \<Rightarrow> string \<Rightarrow> string \<Rightarrow> unit core_result" where
  "check_description_quality lower provider cap_name desc =
     (let trimmed = trim desc; make_err = (\<lambda>reason. Inl (DescriptionQuality provider cap_name reason)) in
      if trimmed = [] then make_err ''description must not be empty''
      else if length trimmed < DESC_MIN_LEN then
        make_err (''description is too short ('' @ dec_digits (length trimmed) @ '' chars); minimum is '' @
          dec_digits DESC_MIN_LEN)
      else if length trimmed > DESC_MAX_LEN then
        make_err (''description is too long ('' @ dec_digits (length trimmed) @ '' chars); maximum is '' @
          dec_digits DESC_MAX_LEN)
      else
        let lowered = lower trimmed; name_lower = lower cap_name;
            name_spaced = lower (map (\<lambda>c. if c = CHR ''_'' then CHR '' '' else c) cap_name) in
        if lowered = name_lower \<or> lowered = name_spaced then
          make_err ''description must not merely echo the capability name''
        else if CHR 0x0A \<in> set trimmed \<or> CHR 0x0D \<in> set trimmed then
          make_err (''description must be a single line (no '' @ [CHR 0x5C] @ ''n or '' @ [CHR 0x5C] @ ''r)'')
        else Inr ())"

section \<open>The registry\<close>

record catalog_entry =
  ce_provider_id :: string
  ce_local_name :: string
  ce_desc :: string

record 'j provider_registry =
  rg_providers :: "string \<Rightarrow> 'j dyn_provider option"
  rg_catalog :: "(string \<times> catalog_entry) list"
  rg_name_counts :: "string \<Rightarrow> nat option"

definition registry_new :: "'j provider_registry" where
  "registry_new = \<lparr>rg_providers = (\<lambda>_. None), rg_catalog = [], rg_name_counts = (\<lambda>_. None)\<rparr>"

definition qualified_name :: "string \<Rightarrow> string \<Rightarrow> string" where
  "qualified_name pid n = pid @ '':'' @ n"

text \<open>Step 3: the first name seen twice.\<close>

fun check_duplicates :: "string \<Rightarrow> string list \<Rightarrow> capability_listing list \<Rightarrow> unit core_result" where
  "check_duplicates pid seen [] = Inr ()"
| "check_duplicates pid seen (l # ls) =
     (if cl_name l \<in> set seen then Inl (DuplicateCapability pid (cl_name l))
      else check_duplicates pid (cl_name l # seen) ls)"

definition make_entry :: "string \<Rightarrow> capability_listing \<Rightarrow> catalog_entry" where
  "make_entry pid l = \<lparr>ce_provider_id = pid, ce_local_name = cl_name l, ce_desc = cl_desc l\<rparr>"

text \<open>Step 5, for one listing: bare name, promotion of the bare entry, or qualified name.\<close>

definition register_listing ::
    "string \<Rightarrow> 'j provider_registry \<Rightarrow> capability_listing \<Rightarrow> 'j provider_registry" where
  "register_listing pid reg l =
     (let n = cl_name l;
          count = Suc (case rg_name_counts reg n of None \<Rightarrow> 0 | Some c \<Rightarrow> c);
          qualified = qualified_name pid n;
          cat = rg_catalog reg;
          cat' =
            (if count = 1 then AList.update n (make_entry pid l) cat
             else if count = 2 then
               (let promoted =
                  (case map_of cat n of
                     Some prev \<Rightarrow>
                       AList.update (qualified_name (ce_provider_id prev) (ce_local_name prev)) prev
                         (AList.delete n cat)
                   | None \<Rightarrow> cat)
                in AList.update qualified (make_entry pid l) promoted)
             else AList.update qualified (make_entry pid l) cat)
      in reg\<lparr>rg_catalog := cat', rg_name_counts := (rg_name_counts reg)(n := Some count)\<rparr>)"

definition register ::
    "(string \<Rightarrow> string) \<Rightarrow> 'j provider_registry \<Rightarrow> 'j dyn_provider \<Rightarrow> 'j provider_registry \<times> unit core_result" where
  "register lower reg provider =
     (let pid = dp_id provider in
      if rg_providers reg pid \<noteq> None then (reg, Inl (DuplicateProvider pid))
      else
        case rbind (dp_index provider) (\<lambda>listings.
             rbind (check_duplicates pid [] listings) (\<lambda>_.
             rbind (check_each (\<lambda>l. check_description_quality lower pid (cl_name l) (cl_desc l)) listings)
               (\<lambda>_. Inr listings))) of
          Inl e \<Rightarrow> (reg, Inl e)
        | Inr listings \<Rightarrow>
            let reg' = foldl (register_listing pid) reg listings in
            (reg'\<lparr>rg_providers := (rg_providers reg')(pid := Some provider)\<rparr>, Inr ()))"

definition registry_index :: "'j provider_registry \<Rightarrow> index_response core_result" where
  "registry_index reg =
     Inr \<lparr>ix_entries = map (\<lambda>(exposed, e). \<lparr>ie_name = exposed, ie_desc = ce_desc e\<rparr>) (rg_catalog reg)\<rparr>"

definition discovery_permitted :: "capability_set \<Rightarrow> string \<Rightarrow> bool" where
  "discovery_permitted capabilities exposed_name \<longleftrightarrow>
     cs_permits capabilities ProcSpawn \<or>
     list_ex (\<lambda>grant. case grant of Tool n \<Rightarrow> n = exposed_name | _ \<Rightarrow> False) (cs_grants capabilities)"

definition index_for_capabilities :: "'j provider_registry \<Rightarrow> capability_set \<Rightarrow> index_response core_result" where
  "index_for_capabilities reg capabilities =
     Inr \<lparr>ix_entries = map (\<lambda>(exposed, e). \<lparr>ie_name = exposed, ie_desc = ce_desc e\<rparr>)
       (filter (\<lambda>(exposed, _). discovery_permitted capabilities exposed) (rg_catalog reg))\<rparr>"

definition registry_describe :: "'j provider_registry \<Rightarrow> string \<Rightarrow> 'j capability_detail core_result" where
  "registry_describe reg name =
     rbind (ok_or (map_of (rg_catalog reg) name) (CapabilityNotFound name)) (\<lambda>entry.
     rbind (ok_or (rg_providers reg (ce_provider_id entry)) (CapabilityNotFound name)) (\<lambda>provider.
     dp_describe provider (ce_local_name entry)))"

definition describe_for_capabilities ::
    "'j provider_registry \<Rightarrow> string \<Rightarrow> capability_set \<Rightarrow> 'j capability_detail core_result" where
  "describe_for_capabilities reg name capabilities =
     (if \<not> discovery_permitted capabilities name then Inl (CapabilityNotFound name)
      else registry_describe reg name)"

definition registry_resolve ::
    "'j provider_registry \<Rightarrow> string \<Rightarrow> 'j \<Rightarrow> resolved_command core_result" where
  "registry_resolve reg name params =
     rbind (ok_or (map_of (rg_catalog reg) name) (CapabilityNotFound name)) (\<lambda>entry.
     rbind (ok_or (rg_providers reg (ce_provider_id entry)) (CapabilityNotFound name)) (\<lambda>provider.
     dp_resolve provider (ce_local_name entry) params))"

text \<open>
  \<open>builtin_registry\<close> of \<open>builtins.rs\<close>; \<open>None\<close> is the panic of its \<open>expect\<close>s.
\<close>

definition builtin_registry ::
    "(string \<Rightarrow> string) \<Rightarrow> ('j \<Rightarrow> string \<Rightarrow> string option) \<Rightarrow> 'j \<Rightarrow> 'j \<Rightarrow> 'j provider_registry option" where
  "builtin_registry lower get_str schema_empty schema_path =
     (case native_provider schema_empty schema_path of
        Inl _ \<Rightarrow> None
      | Inr p \<Rightarrow>
          (case register lower registry_new (native_dyn get_str p) of
             (reg, Inr ()) \<Rightarrow> Some reg
           | (reg, Inl _) \<Rightarrow> None))"

section \<open>Registration\<close>

lemma check_duplicates_Inr_iff:
  "check_duplicates pid seen ls = Inr u \<longleftrightarrow> distinct (map cl_name ls) \<and> set seen \<inter> cl_name ` set ls = {}"
  by (induction ls arbitrary: seen) auto

definition dp_listings :: "'j dyn_provider \<Rightarrow> capability_listing list" where
  "dp_listings p = (case dp_index p of Inl _ \<Rightarrow> [] | Inr ls \<Rightarrow> ls)"

definition register_accepts :: "(string \<Rightarrow> string) \<Rightarrow> 'j provider_registry \<Rightarrow> 'j dyn_provider \<Rightarrow> bool" where
  "register_accepts lower reg p \<longleftrightarrow>
     rg_providers reg (dp_id p) = None \<and> (\<exists>ls. dp_index p = Inr ls) \<and>
     distinct (map cl_name (dp_listings p)) \<and>
     (\<forall>l \<in> set (dp_listings p). check_description_quality lower (dp_id p) (cl_name l) (cl_desc l) = Inr ())"

text \<open>The commit: all of step 5 and the provider's own entry.\<close>

definition register_commit :: "'j provider_registry \<Rightarrow> 'j dyn_provider \<Rightarrow> 'j provider_registry" where
  "register_commit reg p =
     (let reg' = foldl (register_listing (dp_id p)) reg (dp_listings p) in
      reg'\<lparr>rg_providers := (rg_providers reg')(dp_id p := Some p)\<rparr>)"

lemma register_cases:
  assumes "register lower reg p = (reg', r)"
  shows "(register_accepts lower reg p \<and> r = Inr () \<and> reg' = register_commit reg p) \<or>
    (\<not> register_accepts lower reg p \<and> (\<exists>e. r = Inl e) \<and> reg' = reg)"
proof (cases "rg_providers reg (dp_id p)")
  case (Some q)
  then show ?thesis using assms by (auto simp: register_def register_accepts_def Let_def)
next
  case None
  show ?thesis
  proof (cases "dp_index p")
    case (Inl e)
    then show ?thesis using assms None by (auto simp: register_def register_accepts_def Let_def)
  next
    case (Inr ls)
    let ?checks = "rbind (check_duplicates (dp_id p) [] ls) (\<lambda>_.
       rbind (check_each (\<lambda>l. check_description_quality lower (dp_id p) (cl_name l) (cl_desc l)) ls)
         (\<lambda>_. Inr ls))"
    have ls: "dp_listings p = ls" by (simp add: dp_listings_def Inr)
    have ok: "register_accepts lower reg p \<longleftrightarrow> ?checks = Inr ls"
      using None Inr by (auto simp: register_accepts_def ls rbind_Inr_iff check_duplicates_Inr_iff check_each_Inr_iff)
    have only: "?checks = Inr x \<Longrightarrow> x = ls" for x
      by (auto simp: rbind_Inr_iff)
    have reg: "register lower reg p =
        (case ?checks of Inl e \<Rightarrow> (reg, Inl e) | Inr _ \<Rightarrow> (register_commit reg p, Inr ()))"
      using None Inr only
      by (cases ?checks) (simp_all add: register_def register_commit_def Let_def ls)
    show ?thesis
      using assms only unfolding reg ok by (cases ?checks) auto
  qed
qed

section \<open>The catalog of a registry\<close>

text \<open>All pairs of a provider id and a listing, in the order they were registered.\<close>

type_synonym owned = "(string \<times> capability_listing) list"

definition name_count :: "owned \<Rightarrow> string \<Rightarrow> nat" where
  "name_count os n = length (filter (\<lambda>o'. cl_name (snd o') = n) os)"

definition exposed_name :: "owned \<Rightarrow> string \<Rightarrow> string \<Rightarrow> string" where
  "exposed_name os pid n = (if name_count os n = 1 then n else qualified_name pid n)"

definition owned_ok :: "owned \<Rightarrow> bool" where
  "owned_ok os \<longleftrightarrow> distinct (map (\<lambda>(pid, l). (pid, cl_name l)) os) \<and>
     (\<forall>(pid, l) \<in> set os. CHR '':'' \<notin> set (cl_name l))"

definition catalog_ok :: "owned \<Rightarrow> 'j provider_registry \<Rightarrow> bool" where
  "catalog_ok os reg \<longleftrightarrow>
     (\<forall>n. (case rg_name_counts reg n of None \<Rightarrow> 0 | Some c \<Rightarrow> c) = name_count os n) \<and>
     (\<forall>x e. map_of (rg_catalog reg) x = Some e \<longleftrightarrow>
        (\<exists>pid l. (pid, l) \<in> set os \<and> e = make_entry pid l \<and> x = exposed_name os pid (cl_name l)))"

lemma qualified_name_inj:
  assumes "CHR '':'' \<notin> set n" and "CHR '':'' \<notin> set m"
  shows "qualified_name p n = qualified_name q m \<longleftrightarrow> p = q \<and> n = m"
proof
  assume "qualified_name p n = qualified_name q m"
  then have eq: "rev n @ CHR '':'' # rev p = rev m @ CHR '':'' # rev q"
    unfolding qualified_name_def by (metis append.assoc append_Cons append_Nil rev.simps(2) rev_append)
  have "takeWhile (\<lambda>c. c \<noteq> CHR '':'') (rev n @ CHR '':'' # rev p) = rev n"
      "takeWhile (\<lambda>c. c \<noteq> CHR '':'') (rev m @ CHR '':'' # rev q) = rev m"
    using assms by (auto simp: takeWhile_tail takeWhile_eq_all_conv)
  with eq have "rev n = rev m" by metis
  with eq show "p = q \<and> n = m" by simp
qed simp

lemma qualified_not_bare: "CHR '':'' \<notin> set n \<Longrightarrow> qualified_name p m \<noteq> n"
  by (auto simp: qualified_name_def)

lemma name_count_append [simp]:
  "name_count (os @ [(pid, l)]) n = name_count os n + (if cl_name l = n then 1 else 0)"
  by (simp add: name_count_def)

lemma name_count_0: "name_count os n = 0 \<longleftrightarrow> n \<notin> (\<lambda>o'. cl_name (snd o')) ` set os"
  by (auto simp: name_count_def filter_empty_conv)

lemma name_count_1_unique:
  assumes "name_count os n = 1" and "(p, l) \<in> set os" "cl_name l = n" "(q, m) \<in> set os" "cl_name m = n"
  shows "(p, l) = (q, m)"
proof -
  obtain a where "filter (\<lambda>o'. cl_name (snd o') = n) os = [a]"
    using assms(1) by (auto simp: name_count_def length_Suc_conv)
  then have a: "set (filter (\<lambda>o'. cl_name (snd o') = n) os) = {a}" by simp
  have "(p, l) \<in> set (filter (\<lambda>o'. cl_name (snd o') = n) os)"
      "(q, m) \<in> set (filter (\<lambda>o'. cl_name (snd o') = n) os)"
    using assms(2-5) by simp_all
  then show ?thesis unfolding a by simp
qed

lemma make_entry_sel [simp]:
  "ce_provider_id (make_entry pid l) = pid" "ce_local_name (make_entry pid l) = cl_name l"
  "ce_desc (make_entry pid l) = cl_desc l"
  by (simp_all add: make_entry_def)

lemma make_entry_inj [simp]: "make_entry p l = make_entry q m \<longleftrightarrow> p = q \<and> l = m"
  by (auto simp: make_entry_def intro: capability_listing.equality)

text \<open>
  One listing more. The entries split into those of another local name and those of the new one
  (\<open>n\<close>), each of which is exposed under what \<open>f\<close> makes of its provider.
\<close>

definition other_entry :: "owned \<Rightarrow> string \<Rightarrow> string \<Rightarrow> catalog_entry \<Rightarrow> bool" where
  "other_entry os n x e \<longleftrightarrow> (\<exists>q m. (q, m) \<in> set os \<and> cl_name m \<noteq> n \<and> e = make_entry q m \<and>
     x = exposed_name os q (cl_name m))"

definition same_entry :: "owned \<Rightarrow> string \<Rightarrow> (string \<Rightarrow> string) \<Rightarrow> string \<Rightarrow> catalog_entry \<Rightarrow> bool" where
  "same_entry os n f x e \<longleftrightarrow> (\<exists>q m. (q, m) \<in> set os \<and> cl_name m = n \<and> e = make_entry q m \<and> x = f q)"

lemma owned_ok_colon:
  "owned_ok (os @ [(pid, l)]) \<Longrightarrow> CHR '':'' \<notin> set (cl_name l)"
  "owned_ok (os @ [(pid, l)]) \<Longrightarrow> (q, m) \<in> set os \<Longrightarrow> CHR '':'' \<notin> set (cl_name m)"
  by (auto simp: owned_ok_def)

lemma owned_ok_fresh:
  assumes "owned_ok (os @ [(pid, l)])" and "(q, m) \<in> set os" and "cl_name m = cl_name l"
  shows "q \<noteq> pid"
proof -
  have "(pid, cl_name l) \<notin> (\<lambda>(pid, l). (pid, cl_name l)) ` set os"
    using assms(1) by (simp add: owned_ok_def)
  then show ?thesis using assms(2,3) by (auto simp: image_iff)
qed

lemma exposed_name_apart:
  assumes "CHR '':'' \<notin> set n" "CHR '':'' \<notin> set k" "k \<noteq> n"
  shows "exposed_name os q k \<noteq> n" "exposed_name os q k \<noteq> qualified_name r n"
  using assms qualified_not_bare [of n q k] qualified_not_bare [of k r n]
  by (auto simp: exposed_name_def qualified_name_inj)

lemma other_entry_apart:
  assumes "owned_ok (os @ [(pid, l)])"
  shows "\<not> other_entry os (cl_name l) (cl_name l) e"
    and "\<not> other_entry os (cl_name l) (qualified_name q (cl_name l)) e"
  using exposed_name_apart owned_ok_colon [OF assms] unfolding other_entry_def by metis+

lemma catalog_ok_split:
  assumes "catalog_ok os reg"
  shows "map_of (rg_catalog reg) x = Some e \<longleftrightarrow>
    other_entry os n x e \<or> same_entry os n (\<lambda>q. exposed_name os q n) x e"
proof -
  have "map_of (rg_catalog reg) x = Some e \<longleftrightarrow>
      (\<exists>q m. (q, m) \<in> set os \<and> e = make_entry q m \<and> x = exposed_name os q (cl_name m))"
    using assms by (simp add: catalog_ok_def)
  then show ?thesis unfolding other_entry_def same_entry_def by auto
qed

lemma catalog_ok_counts:
  "catalog_ok os reg \<Longrightarrow> (case rg_name_counts reg k of None \<Rightarrow> 0 | Some c \<Rightarrow> c) = name_count os k"
  by (simp add: catalog_ok_def)

text \<open>What the catalog has to be after the listing \<open>l\<close> of \<open>pid\<close>.\<close>

definition grown_entry :: "owned \<Rightarrow> string \<Rightarrow> capability_listing \<Rightarrow> string \<Rightarrow> catalog_entry \<Rightarrow> bool" where
  "grown_entry os pid l x e \<longleftrightarrow> other_entry os (cl_name l) x e \<or>
     same_entry os (cl_name l) (\<lambda>q. exposed_name (os @ [(pid, l)]) q (cl_name l)) x e \<or>
     e = make_entry pid l \<and> x = exposed_name (os @ [(pid, l)]) pid (cl_name l)"

lemma grown_entry_eq:
  "(\<exists>q m. (q, m) \<in> set (os @ [(pid, l)]) \<and> e = make_entry q m \<and>
      x = exposed_name (os @ [(pid, l)]) q (cl_name m)) \<longleftrightarrow> grown_entry os pid l x e"
proof -
  have old: "exposed_name (os @ [(pid, l)]) q k = exposed_name os q k" if "k \<noteq> cl_name l" for q k
    using that by (auto simp: exposed_name_def)
  have "(\<exists>q m. (q, m) \<in> set os \<and> e = make_entry q m \<and> x = exposed_name (os @ [(pid, l)]) q (cl_name m)) \<longleftrightarrow>
      other_entry os (cl_name l) x e \<or>
      same_entry os (cl_name l) (\<lambda>q. exposed_name (os @ [(pid, l)]) q (cl_name l)) x e"
    unfolding other_entry_def same_entry_def using old by metis
  moreover have "(\<exists>q m. (q, m) \<in> set (os @ [(pid, l)]) \<and> P q m) \<longleftrightarrow>
      (\<exists>q m. (q, m) \<in> set os \<and> P q m) \<or> P pid l" for P by auto
  ultimately show ?thesis by (simp add: grown_entry_def)
qed

text \<open>The three cases of the promotion logic: a new name, a second owner, a further owner.\<close>

lemma register_first:
  assumes ok: "catalog_ok os reg" and own: "owned_ok (os @ [(pid, l)])"
    and n: "name_count os (cl_name l) = 0"
  shows "map_of (rg_catalog (register_listing pid reg l)) x = Some e \<longleftrightarrow> grown_entry os pid l x e"
proof -
  have "\<not> same_entry os (cl_name l) f x e" for f
    using n by (auto simp: same_entry_def name_count_0 image_iff)
  moreover have "map_of (rg_catalog (register_listing pid reg l)) =
      (map_of (rg_catalog reg))(cl_name l \<mapsto> make_entry pid l)"
    using n catalog_ok_counts [OF ok, of "cl_name l"] by (simp add: register_listing_def Let_def update_conv')
  ultimately show ?thesis
    using n other_entry_apart [OF own] catalog_ok_split [OF ok, of _ _ "cl_name l"]
    by (auto simp: grown_entry_def exposed_name_def)
qed

lemma register_second:
  assumes ok: "catalog_ok os reg" and own: "owned_ok (os @ [(pid, l)])"
    and n: "name_count os (cl_name l) = 1"
  shows "map_of (rg_catalog (register_listing pid reg l)) x = Some e \<longleftrightarrow> grown_entry os pid l x e"
proof -
  let ?n = "cl_name l" and ?cat = "rg_catalog reg"
  note cat = catalog_ok_split [OF ok, of _ _ "cl_name l"] and colon = owned_ok_colon(1) [OF own]
  obtain q0 m0 where o0: "(q0, m0) \<in> set os" "cl_name m0 = ?n" using n name_count_0 [of os ?n] by auto
  then have "(q, m) \<in> set os \<and> cl_name m = ?n \<longleftrightarrow> q = q0 \<and> m = m0" for q m
    using name_count_1_unique [OF n o0] by blast
  then have same: "same_entry os ?n f x e \<longleftrightarrow> e = make_entry q0 m0 \<and> x = f q0" for f x e
    unfolding same_entry_def by metis
  then have "map_of ?cat ?n = Some (make_entry q0 m0)" using cat n by (simp add: exposed_name_def)
  then have reg: "map_of (rg_catalog (register_listing pid reg l)) = (map_of ?cat)(?n := None,
      qualified_name q0 ?n \<mapsto> make_entry q0 m0, qualified_name pid ?n \<mapsto> make_entry pid l)"
    using n catalog_ok_counts [OF ok, of ?n] o0(2)
    by (simp add: register_listing_def Let_def update_conv' delete_conv')
  have ne: "qualified_name q0 ?n \<noteq> qualified_name pid ?n"
      "qualified_name q0 ?n \<noteq> ?n" "qualified_name pid ?n \<noteq> ?n"
    using colon owned_ok_fresh [OF own o0] by (simp_all add: qualified_name_inj qualified_not_bare)
  show ?thesis
    unfolding reg using ne cat [of x e] other_entry_apart [OF own] n
    by (auto simp: same grown_entry_def exposed_name_def)
qed

lemma register_further:
  assumes ok: "catalog_ok os reg" and own: "owned_ok (os @ [(pid, l)])"
    and n: "name_count os (cl_name l) \<ge> 2"
  shows "map_of (rg_catalog (register_listing pid reg l)) x = Some e \<longleftrightarrow> grown_entry os pid l x e"
proof -
  have "map_of (rg_catalog (register_listing pid reg l)) =
      (map_of (rg_catalog reg))(qualified_name pid (cl_name l) \<mapsto> make_entry pid l)"
    using n catalog_ok_counts [OF ok, of "cl_name l"] by (simp add: register_listing_def Let_def update_conv')
  moreover have "\<not> same_entry os (cl_name l) (\<lambda>q. qualified_name q (cl_name l)) (qualified_name pid (cl_name l)) e" for e
    using owned_ok_fresh [OF own] owned_ok_colon(1) [OF own] by (auto simp: same_entry_def qualified_name_inj)
  ultimately show ?thesis
    using catalog_ok_split [OF ok, of x e "cl_name l"] other_entry_apart(2) [OF own, of pid e] n
    by (auto simp: grown_entry_def exposed_name_def)
qed

lemma register_listing_ok:
  assumes ok: "catalog_ok os reg" and own: "owned_ok (os @ [(pid, l)])"
  shows "catalog_ok (os @ [(pid, l)]) (register_listing pid reg l)"
proof -
  have counts: "(case rg_name_counts (register_listing pid reg l) k of None \<Rightarrow> 0 | Some c \<Rightarrow> c) =
      name_count (os @ [(pid, l)]) k" for k
    using catalog_ok_counts [OF ok, of k] catalog_ok_counts [OF ok, of "cl_name l"]
    by (auto simp: register_listing_def Let_def)
  consider "name_count os (cl_name l) = 0" | "name_count os (cl_name l) = 1"
    | "name_count os (cl_name l) \<ge> 2" by linarith
  then have "map_of (rg_catalog (register_listing pid reg l)) x = Some e \<longleftrightarrow> grown_entry os pid l x e" for x e
    using register_first [OF ok own] register_second [OF ok own] register_further [OF ok own] by cases
  then show ?thesis unfolding catalog_ok_def grown_entry_eq using counts by simp
qed

lemma register_listings_ok:
  "catalog_ok os reg \<Longrightarrow> owned_ok (os @ map (Pair pid) ls) \<Longrightarrow>
     catalog_ok (os @ map (Pair pid) ls) (foldl (register_listing pid) reg ls)"
proof (induction ls arbitrary: os reg)
  case (Cons l ls)
  have "owned_ok (os @ [(pid, l)])" using Cons.prems(2) by (auto simp: owned_ok_def)
  then have "catalog_ok (os @ [(pid, l)]) (register_listing pid reg l)"
    using register_listing_ok Cons.prems(1) by blast
  then show ?case using Cons.IH [of "os @ [(pid, l)]"] Cons.prems(2) by simp
qed simp

lemma register_listing_providers [simp]:
  "rg_providers (register_listing pid reg l) = rg_providers reg"
  by (simp add: register_listing_def Let_def)

lemma foldl_register_providers [simp]:
  "rg_providers (foldl (register_listing pid) reg ls) = rg_providers reg"
  by (induction ls arbitrary: reg) simp_all

section \<open>Reachable registries\<close>

text \<open>A registry and the providers it accepted, in order; a refused one leaves no trace.\<close>

inductive registered :: "(string \<Rightarrow> string) \<Rightarrow> 'j provider_registry \<Rightarrow> 'j dyn_provider list \<Rightarrow> bool"
  for lower where
  registered_new: "registered lower registry_new []"
| registered_ok: "registered lower reg ps \<Longrightarrow> register lower reg p = (reg', Inr ()) \<Longrightarrow>
    registered lower reg' (ps @ [p])"
| registered_err: "registered lower reg ps \<Longrightarrow> register lower reg p = (reg', Inl e) \<Longrightarrow>
    registered lower reg' ps"

definition owned_by :: "'j dyn_provider list \<Rightarrow> owned" where
  "owned_by ps = concat (map (\<lambda>p. map (Pair (dp_id p)) (dp_listings p)) ps)"

text \<open>Provider-local names without a colon: what the qualified form assumes.\<close>

definition plain_names :: "'j dyn_provider list \<Rightarrow> bool" where
  "plain_names ps \<longleftrightarrow> (\<forall>p \<in> set ps. \<forall>l \<in> set (dp_listings p). CHR '':'' \<notin> set (cl_name l))"

definition providers_ok :: "'j dyn_provider list \<Rightarrow> 'j provider_registry \<Rightarrow> bool" where
  "providers_ok ps reg \<longleftrightarrow> distinct (map dp_id ps) \<and>
     (\<forall>pid p. rg_providers reg pid = Some p \<longleftrightarrow> p \<in> set ps \<and> dp_id p = pid) \<and>
     (\<forall>p \<in> set ps. (\<exists>ls. dp_index p = Inr ls) \<and> distinct (map cl_name (dp_listings p)))"

lemma owned_by_snoc [simp]: "owned_by (ps @ [p]) = owned_by ps @ map (Pair (dp_id p)) (dp_listings p)"
  by (simp add: owned_by_def)

lemma owned_by_set: "(pid, l) \<in> set (owned_by ps) \<longleftrightarrow> (\<exists>p \<in> set ps. pid = dp_id p \<and> l \<in> set (dp_listings p))"
  by (auto simp: owned_by_def)

lemma owned_by_distinct:
  assumes "distinct (map dp_id ps)" and "\<forall>p \<in> set ps. distinct (map cl_name (dp_listings p))"
  shows "distinct (map (\<lambda>(pid, l). (pid, cl_name l)) (owned_by ps))"
  using assms
proof (induction ps rule: rev_induct)
  case Nil
  then show ?case by (simp add: owned_by_def)
next
  case (snoc p ps)
  have "map (\<lambda>(pid, l). (pid, cl_name l)) (map (Pair (dp_id p)) (dp_listings p)) =
      map (Pair (dp_id p)) (map cl_name (dp_listings p))" by simp
  moreover have "distinct (map (Pair (dp_id p)) (map cl_name (dp_listings p)))"
    using snoc.prems(2) by (simp add: distinct_map inj_on_def)
  moreover have "set (map (\<lambda>(pid, l). (pid, cl_name l)) (owned_by ps)) \<inter>
      set (map (Pair (dp_id p)) (map cl_name (dp_listings p))) = {}"
    using snoc.prems(1) by (auto simp: owned_by_set)
  ultimately show ?case
    using snoc by (simp only: owned_by_snoc map_append distinct_append) simp
qed

lemma registered_providers_ok: "registered lower reg ps \<Longrightarrow> providers_ok ps reg"
proof (induction rule: registered.induct)
  case registered_new
  then show ?case by (simp add: providers_ok_def registry_new_def)
next
  case (registered_ok reg ps p reg')
  have acc: "register_accepts lower reg p" "reg' = register_commit reg p"
    using register_cases [OF registered_ok.hyps(2)] by auto
  have ok: "providers_ok ps reg" by (rule registered_ok.IH)
  then have "\<forall>q \<in> set ps. rg_providers reg (dp_id q) = Some q" by (simp add: providers_ok_def)
  then have new: "\<forall>q \<in> set ps. dp_id q \<noteq> dp_id p"
    using acc(1) by (auto simp: register_accepts_def)
  then show ?case
    using ok acc by (auto simp: providers_ok_def register_accepts_def register_commit_def Let_def)
next
  case (registered_err reg ps p reg' e)
  then show ?case using register_cases [of lower reg p reg' "Inl e"] by simp
qed

lemma registered_catalog_ok:
  "registered lower reg ps \<Longrightarrow> plain_names ps \<Longrightarrow> catalog_ok (owned_by ps) reg"
proof (induction rule: registered.induct)
  case registered_new
  then show ?case by (simp add: catalog_ok_def registry_new_def owned_by_def name_count_def)
next
  case (registered_ok reg ps p reg')
  have acc: "register_accepts lower reg p" "reg' = register_commit reg p"
    using register_cases [OF registered_ok.hyps(2)] by auto
  have "providers_ok (ps @ [p]) reg'"
    by (rule registered_providers_ok [OF registered.registered_ok [OF registered_ok.hyps]])
  then have "distinct (map (\<lambda>(pid, l). (pid, cl_name l)) (owned_by (ps @ [p])))"
    by (intro owned_by_distinct) (auto simp: providers_ok_def)
  moreover have "\<forall>(pid, l) \<in> set (owned_by (ps @ [p])). CHR '':'' \<notin> set (cl_name l)"
    using registered_ok.prems by (auto simp: plain_names_def owned_by_set simp del: owned_by_snoc)
  ultimately have "owned_ok (owned_by ps @ map (Pair (dp_id p)) (dp_listings p))"
    by (simp add: owned_ok_def)
  moreover have "catalog_ok (owned_by ps) reg"
    using registered_ok by (auto simp: plain_names_def)
  ultimately have "catalog_ok (owned_by (ps @ [p])) (foldl (register_listing (dp_id p)) reg (dp_listings p))"
    using register_listings_ok by simp
  then show ?case by (simp add: acc register_commit_def Let_def catalog_ok_def)
next
  case (registered_err reg ps p reg' e)
  then show ?case using register_cases [of lower reg p reg' "Inl e"] by simp
qed

section \<open>Exposed names by the number of providers\<close>

lemma name_count_listings:
  "distinct (map cl_name ls) \<Longrightarrow> name_count (map (Pair pid) ls) n = (if n \<in> cl_name ` set ls then 1 else 0)"
  unfolding name_count_def
  by (induction ls) (auto simp: filter_empty_conv)

lemma name_count_append2: "name_count (os @ os') n = name_count os n + name_count os' n"
  by (simp add: name_count_def)

lemma dp_names_listings: "dp_names p = cl_name ` set (dp_listings p)"
  by (simp add: dp_names_def dp_listings_def split: sum.split)

lemma name_count_owned_by:
  "\<forall>p \<in> set ps. distinct (map cl_name (dp_listings p)) \<Longrightarrow>
     name_count (owned_by ps) n = length (filter (\<lambda>q. n \<in> dp_names q) ps)"
proof (induction ps rule: rev_induct)
  case Nil
  then show ?case by (simp add: owned_by_def name_count_def)
next
  case (snoc p ps)
  then show ?case by (simp add: name_count_append2 name_count_listings dp_names_listings)
qed

text \<open>The exposed name of a listing, given the registered providers.\<close>

definition exposed_as :: "'j dyn_provider list \<Rightarrow> 'j dyn_provider \<Rightarrow> string \<Rightarrow> string" where
  "exposed_as ps p n =
     (if length (filter (\<lambda>q. n \<in> dp_names q) ps) = 1 then n else qualified_name (dp_id p) n)"

lemma registered_catalog:
  assumes "registered lower reg ps" and "plain_names ps"
  shows "map_of (rg_catalog reg) x = Some e \<longleftrightarrow>
    (\<exists>p \<in> set ps. \<exists>l \<in> set (dp_listings p). e = make_entry (dp_id p) l \<and> x = exposed_as ps p (cl_name l))"
proof -
  have "providers_ok ps reg" using assms(1) by (rule registered_providers_ok)
  then have count: "name_count (owned_by ps) n = length (filter (\<lambda>q. n \<in> dp_names q) ps)" for n
    by (intro name_count_owned_by) (simp add: providers_ok_def)
  have "map_of (rg_catalog reg) x = Some e \<longleftrightarrow>
      (\<exists>pid l. (pid, l) \<in> set (owned_by ps) \<and> e = make_entry pid l \<and>
        x = exposed_name (owned_by ps) pid (cl_name l))"
    using registered_catalog_ok [OF assms] by (simp add: catalog_ok_def)
  then show ?thesis by (auto simp: owned_by_set exposed_name_def exposed_as_def count)
qed

lemma registered_accepts:
  "registered lower reg ps \<Longrightarrow> register_accepts lower reg p \<Longrightarrow>
     registered lower (register_commit reg p) (ps @ [p])"
  using register_cases [OF surjective_pairing, of lower reg p] registered_ok [of lower reg ps p]
  by (metis prod.collapse)

section \<open>Properties\<close>

text \<open>Concrete providers of one capability each, for the witnesses.\<close>

definition wit_provider :: "string \<Rightarrow> string \<Rightarrow> unit dyn_provider" where
  "wit_provider pid n = native_dyn (\<lambda>_ _. None)
     \<lparr>np_id = pid, np_descriptors = [(n, \<lparr>ds_name = n, ds_desc = ''Search all indexed documents'',
        ds_signature = ''s'', ds_schema = (), ds_exec = \<lparr>ex_program = ''true'', ex_args_template = []\<rparr>\<rparr>)]\<rparr>"

lemma wit_provider_simps [simp]:
  "dp_id (wit_provider pid n) = pid"
  "dp_index (wit_provider pid n) = Inr [\<lparr>cl_name = n, cl_desc = ''Search all indexed documents''\<rparr>]"
  "dp_listings (wit_provider pid n) = [\<lparr>cl_name = n, cl_desc = ''Search all indexed documents''\<rparr>]"
  "dp_names (wit_provider pid n) = {n}"
  by (simp_all add: wit_provider_def native_dyn_def native_index_def dp_listings_def dp_names_def)

lemma wit_provider_lawful: "dp_lawful (wit_provider pid n)"
  unfolding wit_provider_def by (rule native_dyn_lawful) (simp add: native_inv_def)

lemma wit_desc: "check_description_quality (\<lambda>s. s) ''a'' ''search'' ''Search all indexed documents'' = Inr ()"
    "check_description_quality (\<lambda>s. s) ''b'' ''search'' ''Search all indexed documents'' = Inr ()"
    "check_description_quality (\<lambda>s. s) ''c'' ''a:search'' ''Search all indexed documents'' = Inr ()"
  by code_simp+

definition wit_registry :: "unit provider_registry" where
  "wit_registry =
     register_commit (register_commit registry_new (wit_provider ''a'' ''search''))
       (wit_provider ''b'' ''search'')"

lemma wit_registered:
  "registered (\<lambda>s. s) wit_registry [wit_provider ''a'' ''search'', wit_provider ''b'' ''search'']"
proof -
  have "registered (\<lambda>s. s) (register_commit registry_new (wit_provider ''a'' ''search''))
      ([] @ [wit_provider ''a'' ''search''])"
    by (rule registered_accepts [OF registered_new])
      (simp add: register_accepts_def registry_new_def wit_desc)
  from registered_accepts [OF this, of "wit_provider ''b'' ''search''"] show ?thesis
    by (simp add: register_accepts_def register_commit_def Let_def registry_new_def wit_desc wit_registry_def)
qed

text \<open>How many providers list a name, as the registry counts them.\<close>

definition listed_count :: "'j provider_registry \<Rightarrow> string \<Rightarrow> nat" where
  "listed_count reg n = (case rg_name_counts reg n of None \<Rightarrow> 0 | Some c \<Rightarrow> c)"

lemma register_listing_count:
  "listed_count (register_listing pid reg l) n = listed_count reg n + (if n = cl_name l then 1 else 0)"
  by (simp add: listed_count_def register_listing_def Let_def)

lemma register_listings_count:
  "distinct (map cl_name ls) \<Longrightarrow> listed_count (foldl (register_listing pid) reg ls) n =
     listed_count reg n + (if n \<in> cl_name ` set ls then 1 else 0)"
  by (induction ls arbitrary: reg) (auto simp: register_listing_count)

lemma register_commit_facts:
  assumes "register_accepts lower reg p"
  shows "rg_providers (register_commit reg p) = (rg_providers reg)(dp_id p := Some p)"
    and "listed_count (register_commit reg p) n =
      listed_count reg n + (if n \<in> cl_name ` set (dp_listings p) then 1 else 0)"
proof -
  show "rg_providers (register_commit reg p) = (rg_providers reg)(dp_id p := Some p)"
    by (simp add: register_commit_def Let_def)
  have "listed_count (register_commit reg p) n = listed_count (foldl (register_listing (dp_id p)) reg (dp_listings p)) n"
    by (simp add: register_commit_def Let_def listed_count_def)
  then show "listed_count (register_commit reg p) n =
      listed_count reg n + (if n \<in> cl_name ` set (dp_listings p) then 1 else 0)"
    using assms register_listings_count [of "dp_listings p" "dp_id p" reg n] by (simp add: register_accepts_def)
qed

text \<open>C13: Registration is all or nothing: a provider is accepted iff its id is new, it can list its
  capabilities, their names are distinct and every description passes; otherwise the registry is unchanged.
  An accepted one is filed under its id and each name it lists counts one provider more. In a
  registry built by registrations (no local name with a colon) the catalog then holds exactly the
  listings of the providers so far and its own, under the bare name when one lists it and as \<open>id:name\<close>
  when several do, so the bare entry of a name it is the second to list is gone.\<close>

theorem register_atomic:
  assumes "register lower reg p = (reg', r)"
  shows "(\<exists>e. r = Inl e) \<and> reg' = reg \<and> \<not> register_accepts lower reg p \<or>
    r = Inr () \<and> register_accepts lower reg p \<and>
    rg_providers reg' = (rg_providers reg)(dp_id p := Some p) \<and>
    (\<forall>n. listed_count reg' n = listed_count reg n + (if n \<in> cl_name ` set (dp_listings p) then 1 else 0)) \<and>
    (\<forall>ps. registered lower reg ps \<longrightarrow> plain_names (ps @ [p]) \<longrightarrow>
      (\<forall>x e. map_of (rg_catalog reg') x = Some e \<longleftrightarrow>
        (\<exists>q \<in> set ps \<union> {p}. \<exists>l \<in> set (dp_listings q).
           e = \<lparr>ce_provider_id = dp_id q, ce_local_name = cl_name l, ce_desc = cl_desc l\<rparr> \<and>
           x = (if length (filter (\<lambda>q'. cl_name l \<in> dp_names q') (ps @ [p])) = 1 then cl_name l
                else dp_id q @ '':'' @ cl_name l))))"
proof -
  consider e where "r = Inl e" "reg' = reg" "\<not> register_accepts lower reg p"
    | "r = Inr ()" "reg' = register_commit reg p" "register_accepts lower reg p"
    using register_cases [OF assms] by blast
  then show ?thesis
  proof cases
    case 2
    have "map_of (rg_catalog reg') x = Some e \<longleftrightarrow>
        (\<exists>q \<in> set ps \<union> {p}. \<exists>l \<in> set (dp_listings q).
           e = \<lparr>ce_provider_id = dp_id q, ce_local_name = cl_name l, ce_desc = cl_desc l\<rparr> \<and>
           x = (if length (filter (\<lambda>q'. cl_name l \<in> dp_names q') (ps @ [p])) = 1 then cl_name l
                else dp_id q @ '':'' @ cl_name l))"
      if "registered lower reg ps" "plain_names (ps @ [p])" for ps x e
      using registered_catalog [OF registered_accepts [OF that(1) 2(3)] that(2), of x e]
      by (simp add: 2(2) exposed_as_def make_entry_def qualified_name_def)
    then show ?thesis
      using 2 register_commit_facts [OF 2(3)] by simp
  qed simp
qed

lemma register_atomic_witness:
  "\<exists>reg. register (\<lambda>s. s) registry_new (wit_provider ''a'' ''search'') = (reg, Inr ()) \<and>
     listed_count reg ''search'' = 1 \<and> map_of (rg_catalog reg) ''search'' =
       Some \<lparr>ce_provider_id = ''a'', ce_local_name = ''search'', ce_desc = ''Search all indexed documents''\<rparr>"
proof -
  let ?p = "wit_provider ''a'' ''search''"
  obtain reg r where reg: "register (\<lambda>s. s) registry_new ?p = (reg, r)" by fastforce
  have "register_accepts (\<lambda>s. s) registry_new ?p"
    by (simp add: register_accepts_def registry_new_def wit_desc)
  moreover have "registered (\<lambda>s. s) (registry_new :: unit provider_registry) []" by (rule registered_new)
  moreover have "plain_names ([] @ [?p])" by (simp add: plain_names_def)
  ultimately show ?thesis
    using register_atomic [OF reg] reg by (auto simp: listed_count_def registry_new_def)
qed

text \<open>The catalog of every registry, after any sequence of accepted and refused registrations
  whose local names contain no colon: its entries are exactly the listings of the accepted providers,
  each under its bare name when one provider lists the name and under \<open>id:name\<close> when several do.\<close>

theorem registry_namespacing:
  assumes "registered lower reg ps" and "plain_names ps"
  shows "map_of (rg_catalog reg) x = Some e \<longleftrightarrow>
    (\<exists>p \<in> set ps. \<exists>l \<in> set (dp_listings p). e = make_entry (dp_id p) l \<and>
       x = (if length (filter (\<lambda>q. cl_name l \<in> dp_names q) ps) = 1 then cl_name l
            else qualified_name (dp_id p) (cl_name l)))"
  using registered_catalog [OF assms] by (simp add: exposed_as_def)

lemma registry_namespacing_witness:
  "map_of (rg_catalog wit_registry) ''search'' = None \<and> map_of (rg_catalog wit_registry) ''b:search'' =
     Some (make_entry ''b'' \<lparr>cl_name = ''search'', cl_desc = ''Search all indexed documents''\<rparr>)"
proof -
  have "plain_names [wit_provider ''a'' ''search'', wit_provider ''b'' ''search'']"
    by (simp add: plain_names_def)
  from registry_namespacing [OF wit_registered this]
  have "map_of (rg_catalog wit_registry) ''search'' \<noteq> Some e" "map_of (rg_catalog wit_registry) ''b:search'' =
     Some (make_entry ''b'' \<lparr>cl_name = ''search'', cl_desc = ''Search all indexed documents''\<rparr>)" for e
    by (auto simp: qualified_name_def)
  then show ?thesis by (metis not_Some_eq)
qed

text \<open>C14: Discovery and invocation reach the right provider: in every registry whose local names have
  no colon and whose providers keep the trait's contract, each listing is described and resolved under
  its exposed name by the provider that listed it, the description always succeeds, and a name outside
  the catalog is "not found" for both.\<close>

theorem registry_routing:
  assumes "registered lower reg ps" and "plain_names ps" and "\<forall>p \<in> set ps. dp_lawful p"
    and "p \<in> set ps" and "l \<in> set (dp_listings p)"
  shows "registry_describe reg (exposed_as ps p (cl_name l)) = dp_describe p (cl_name l) \<and>
    (\<exists>d. dp_describe p (cl_name l) = Inr d) \<and>
    registry_resolve reg (exposed_as ps p (cl_name l)) j = dp_resolve p (cl_name l) j \<and>
    (map_of (rg_catalog reg) y = None \<longrightarrow>
      registry_describe reg y = Inl (CapabilityNotFound y) \<and>
      registry_resolve reg y j = Inl (CapabilityNotFound y))"
proof -
  have "map_of (rg_catalog reg) (exposed_as ps p (cl_name l)) = Some (make_entry (dp_id p) l)"
    using registered_catalog [OF assms(1,2)] assms(4,5) by blast
  moreover have "rg_providers reg (dp_id p) = Some p"
    using registered_providers_ok [OF assms(1)] assms(4) by (simp add: providers_ok_def)
  moreover have "\<exists>d. dp_describe p (cl_name l) = Inr d"
    using assms(3-5) by (intro dyn.describe_known) (auto simp: dp_names_listings)
  ultimately show ?thesis
    by (simp add: registry_describe_def registry_resolve_def)
qed

lemma registry_routing_witness:
  "registry_resolve wit_registry ''b:search'' () = Inr \<lparr>rc_program = ''true'', rc_args = []\<rparr>"
proof -
  let ?ps = "[wit_provider ''a'' ''search'', wit_provider ''b'' ''search'']"
    and ?l = "\<lparr>cl_name = ''search'', cl_desc = ''Search all indexed documents''\<rparr>"
  have "plain_names ?ps" by (simp add: plain_names_def)
  moreover have "\<forall>p \<in> set ?ps. dp_lawful p" by (simp add: wit_provider_lawful)
  ultimately have "registry_resolve wit_registry (exposed_as ?ps (wit_provider ''b'' ''search'') ''search'') () =
      dp_resolve (wit_provider ''b'' ''search'') ''search'' ()"
    using registry_routing [OF wit_registered, of "wit_provider ''b'' ''search''" ?l "()"] by simp
  moreover have "exposed_as ?ps (wit_provider ''b'' ''search'') ''search'' = ''b:search''"
    by (simp add: exposed_as_def qualified_name_def)
  moreover have "dp_resolve (wit_provider ''b'' ''search'') ''search'' () =
      Inr \<lparr>rc_program = ''true'', rc_args = []\<rparr>"
    by (simp add: wit_provider_def native_dyn_def native_resolve_def)
  ultimately show ?thesis by simp
qed

text \<open>C36: Discovery shows a session what its grants allow and no more: the scoped index is the part of
  the full index whose names the grants permit (all of it under \<open>proc.spawn\<close>, exactly the granted
  tool names otherwise), and a name the scoped index does not show is "not found" for the scoped
  \<open>describe\<close>, granted or not.\<close>

theorem discovery_is_scoped:
  "(\<exists>es all. index_for_capabilities reg caps = Inr es \<and> registry_index reg = Inr all \<and>
     set (ix_entries es) = {e \<in> set (ix_entries all).
       list_ex (\<lambda>g. cap_permits g ProcSpawn) (cs_grants caps) \<or> Tool (ie_name e) \<in> set (cs_grants caps)} \<and>
     (n \<notin> ie_name ` set (ix_entries es) \<longrightarrow>
       describe_for_capabilities reg n caps = Inl (CapabilityNotFound n)))"
proof -
  have dp: "discovery_permitted caps x \<longleftrightarrow>
      list_ex (\<lambda>g. cap_permits g ProcSpawn) (cs_grants caps) \<or> Tool x \<in> set (cs_grants caps)" for x
  proof -
    have "(case g of Tool m \<Rightarrow> m = x | _ \<Rightarrow> False) \<longleftrightarrow> g = Tool x" for g by (cases g) auto
    then show ?thesis by (auto simp: discovery_permitted_def cs_permits_def list_ex_iff)
  qed
  have unknown: "registry_describe reg n = Inl (CapabilityNotFound n)" if "n \<notin> fst ` set (rg_catalog reg)"
    using that by (simp add: registry_describe_def map_of_eq_None_iff [THEN iffD2])
  show ?thesis
    unfolding index_for_capabilities_def registry_index_def describe_for_capabilities_def
    using unknown by (force simp: dp image_iff)
qed

lemma discovery_is_scoped_witness:
  "describe_for_capabilities wit_registry ''b:search'' (cs_new [Tool ''a:search'']) =
     Inl (CapabilityNotFound ''b:search'')"
  using discovery_is_scoped [of wit_registry "cs_new [Tool ''a:search'']" "''b:search''"]
  by (auto simp: cs_new_def)

text \<open>The namespacing is not safe against local names with a colon: a provider \<open>c\<close> that lists
  \<open>a:search\<close> is accepted after \<open>a\<close> and \<open>b\<close>, which both list \<open>search\<close>, and takes over
  the catalog entry of \<open>a\<close>'s capability.\<close>

theorem colon_name_hijacks_entry:
  "snd (register (\<lambda>s. s) wit_registry (wit_provider ''c'' ''a:search'')) = Inr () \<and>
   map_option ce_provider_id (map_of (rg_catalog wit_registry) ''a:search'') = Some ''a'' \<and>
   map_option ce_provider_id (map_of (rg_catalog
     (fst (register (\<lambda>s. s) wit_registry (wit_provider ''c'' ''a:search'')))) ''a:search'') = Some ''c''"
proof -
  have "register_accepts (\<lambda>s. s) wit_registry (wit_provider ''c'' ''a:search'')"
    by (simp add: register_accepts_def wit_registry_def register_commit_def Let_def registry_new_def wit_desc)
  then have "register (\<lambda>s. s) wit_registry (wit_provider ''c'' ''a:search'') =
      (register_commit wit_registry (wit_provider ''c'' ''a:search''), Inr ())"
    using register_cases [OF surjective_pairing, of "\<lambda>s. s" wit_registry] by (metis prod.collapse)
  then show ?thesis
    by (simp add: wit_registry_def register_commit_def Let_def register_listing_def registry_new_def
        update_conv' delete_conv' qualified_name_def)
qed

end
