(* ===== verification/Sandbox.thy ===== *)
theory Sandbox
  imports Session
begin

text \<open>
  The crate \<open>axp-sandbox\<close> (\<open>policy.rs\<close>, \<open>linux.rs\<close>, \<open>probe.rs\<close>, \<open>seccomp.rs\<close>) and
  the engine's \<open>build_sandbox_policy\<close>: which rules a job's child process is confined by.
  What the kernel and the crates \<open>landlock\<close>, \<open>seccompiler\<close> answer is the record
  \<open>lsm_env\<close>; the two right sets \<open>AccessFs::from_read/from_write\<close> are among its fields.
  The child command is the list of \<open>pre_exec\<close> hooks installed on it.
\<close>

section \<open>Policy\<close>

record sandbox_policy =
  sp_tier :: enforcement_tier
  sp_fs_read :: "string list"
  sp_fs_write :: "string list"
  sp_allow_proc_spawn :: bool
  sp_allow_network :: bool

definition policy_from_parts ::
    "enforcement_tier \<Rightarrow> string list \<Rightarrow> string list \<Rightarrow> bool \<Rightarrow> bool \<Rightarrow> sandbox_policy" where
  "policy_from_parts tier fs_read fs_write allow_proc_spawn allow_network =
     \<lparr>sp_tier = tier, sp_fs_read = fs_read, sp_fs_write = fs_write,
      sp_allow_proc_spawn = allow_proc_spawn, sp_allow_network = allow_network\<rparr>"

definition policy_dev_none :: sandbox_policy where
  "policy_dev_none = \<lparr>sp_tier = DevNone, sp_fs_read = [], sp_fs_write = [],
     sp_allow_proc_spawn = True, sp_allow_network = True\<rparr>"

section \<open>Landlock\<close>

datatype access_fs =
  AExecute | AReadFile | AReadDir | AWriteFile
| ARemoveDir | ARemoveFile | AMakeChar | AMakeDir | AMakeReg | AMakeSock | AMakeFifo | AMakeBlock | AMakeSym

type_synonym ruleset = "(string \<times> access_fs set) list"

datatype syscall =
  SysPtrace | SysProcessVmReadv | SysProcessVmWritev
| SysIoUringSetup | SysIoUringEnter | SysIoUringRegister
| SysOther nat

datatype hook = LandlockHook ruleset | SeccompHook "syscall list"

record lsm_env =
  le_available :: bool
  le_from_read :: "access_fs set"
  le_from_write :: "access_fs set"
  le_handle_err :: "string option"
  le_create_err :: "string option"
  le_open_err :: "string \<Rightarrow> string option"
  le_is_dir :: "string \<Rightarrow> bool"
  le_add_err :: "string \<Rightarrow> string option"
  le_arch :: string
  le_arch_err :: "string option"
  le_filter_err :: "string option"
  le_compile_err :: "string option"

definition BASELINE_READ_PATHS :: "string list" where
  "BASELINE_READ_PATHS =
     [''/usr'', ''/bin'', ''/sbin'', ''/lib'', ''/lib64'', ''/etc'', ''/dev/null'', ''/dev/zero'',
      ''/dev/urandom'', ''/proc'']"

definition apply_step :: "string \<Rightarrow> string option \<Rightarrow> (sandbox_error, unit) result" where
  "apply_step what failure = (case failure of None \<Rightarrow> Inr () | Some e \<Rightarrow> Inl (Apply (what @ e)))"

definition add_path_rule ::
    "lsm_env \<Rightarrow> ruleset \<Rightarrow> string \<Rightarrow> access_fs set \<Rightarrow> bool \<Rightarrow> (sandbox_error, ruleset) result" where
  "add_path_rule env ruleset path rights required =
     (case le_open_err env path of
        Some e \<Rightarrow>
          if required then Inl (Apply (''cannot open granted path '' @ path @ '' for landlock: '' @ e))
          else Inr ruleset
      | None \<Rightarrow>
          let effective =
            (if le_is_dir env path then rights else rights \<inter> {AExecute, AReadFile, AWriteFile}) in
          rbind (apply_step (''landlock add_rule for '' @ path @ '' failed: '') (le_add_err env path))
            (\<lambda>_. Inr (ruleset @ [(path, effective)])))"

fun add_path_rules ::
    "lsm_env \<Rightarrow> ruleset \<Rightarrow> string list \<Rightarrow> access_fs set \<Rightarrow> bool \<Rightarrow> (sandbox_error, ruleset) result" where
  "add_path_rules env ruleset [] rights required = Inr ruleset"
| "add_path_rules env ruleset (p # ps) rights required =
     rbind (add_path_rule env ruleset p rights required)
       (\<lambda>ruleset. add_path_rules env ruleset ps rights required)"

definition landlock_available :: "lsm_env \<Rightarrow> bool" where
  "landlock_available env = le_available env"

text \<open>The ruleset built in the parent.\<close>

definition landlock_ruleset :: "lsm_env \<Rightarrow> sandbox_policy \<Rightarrow> (sandbox_error, ruleset) result" where
  "landlock_ruleset env policy =
     rbind (apply_step ''landlock handle_access failed: '' (le_handle_err env)) (\<lambda>_.
     rbind (apply_step ''landlock ruleset create failed: '' (le_create_err env)) (\<lambda>_.
     rbind (add_path_rules env [] BASELINE_READ_PATHS (le_from_read env) False) (\<lambda>rs.
     rbind (add_path_rules env rs (sp_fs_read policy) (le_from_read env) True) (\<lambda>rs.
     add_path_rules env rs (sp_fs_write policy) (le_from_write env) True))))"

definition landlock_enforce ::
    "lsm_env \<Rightarrow> sandbox_policy \<Rightarrow> hook list \<Rightarrow> hook list \<times> (sandbox_error, unit) result" where
  "landlock_enforce env policy cmd =
     (if \<not> landlock_available env then
        (cmd, Inl (Unavailable (sp_tier policy) ''Landlock not supported by this kernel''))
      else
        case landlock_ruleset env policy of
          Inl e \<Rightarrow> (cmd, Inl e)
        | Inr ruleset \<Rightarrow> (cmd @ [LandlockHook ruleset], Inr ()))"

section \<open>Seccomp\<close>

definition denied_syscalls :: "syscall list" where
  "denied_syscalls =
     [SysPtrace, SysProcessVmReadv, SysProcessVmWritev,
      SysIoUringSetup, SysIoUringEnter, SysIoUringRegister]"

text \<open>The program compiled in the parent: an entry without rules for each denied syscall.\<close>

definition seccomp_build :: "lsm_env \<Rightarrow> (sandbox_error, syscall list) result" where
  "seccomp_build env =
     rbind (apply_step (''seccomp unsupported target arch '' @ le_arch env @ '': '') (le_arch_err env)) (\<lambda>_.
     rbind (apply_step ''seccomp filter build failed: '' (le_filter_err env)) (\<lambda>_.
     rbind (apply_step ''seccomp BPF compile failed: '' (le_compile_err env)) (\<lambda>_.
     Inr denied_syscalls)))"

definition seccomp_apply :: "lsm_env \<Rightarrow> hook list \<Rightarrow> hook list \<times> (sandbox_error, unit) result" where
  "seccomp_apply env cmd =
     (case seccomp_build env of
        Inl e \<Rightarrow> (cmd, Inl e)
      | Inr prog \<Rightarrow> (cmd @ [SeccompHook prog], Inr ()))"

section \<open>Applying a policy\<close>

text \<open>On Linux; the hooks already installed stay installed when a later step fails.\<close>

definition policy_apply ::
    "lsm_env \<Rightarrow> sandbox_policy \<Rightarrow> hook list \<Rightarrow> hook list \<times> (sandbox_error, unit) result" where
  "policy_apply env policy cmd =
     (case sp_tier policy of
        DevNone \<Rightarrow> (cmd, Inr ())
      | KernelLsm \<Rightarrow>
          (case landlock_enforce env policy cmd of
             (cmd, Inl e) \<Rightarrow> (cmd, Inl e)
           | (cmd, Inr _) \<Rightarrow> seccomp_apply env cmd)
      | Container \<Rightarrow> (cmd, Inl (Unavailable (sp_tier policy) ''tier not supported by the Linux backend''))
      | ProcessToken \<Rightarrow> (cmd, Inl (Unavailable (sp_tier policy) ''tier not supported by the Linux backend'')))"

text \<open>On other systems no tier but \<open>DevNone\<close> can be honoured.\<close>

definition policy_apply_other_os ::
    "sandbox_policy \<Rightarrow> hook list \<Rightarrow> hook list \<times> (sandbox_error, unit) result" where
  "policy_apply_other_os policy cmd =
     (case sp_tier policy of
        DevNone \<Rightarrow> (cmd, Inr ())
      | KernelLsm \<Rightarrow> (cmd, Inl (Unavailable (sp_tier policy) ''kernel-lsm enforcement requires Linux''))
      | Container \<Rightarrow> (cmd, Inl (Unavailable (sp_tier policy) ''tier not supported by the Linux backend''))
      | ProcessToken \<Rightarrow> (cmd, Inl (Unavailable (sp_tier policy) ''tier not supported by the Linux backend'')))"

section \<open>From capabilities to a policy\<close>

primrec policy_grant :: "string list \<times> string list \<times> bool \<times> bool \<Rightarrow> runtime_capability
    \<Rightarrow> string list \<times> string list \<times> bool \<times> bool" where
  "policy_grant acc (FsRead p) = (case acc of (r, w, s, n) \<Rightarrow> (r @ [p], w, s, n))"
| "policy_grant acc (FsWrite p) = (case acc of (r, w, s, n) \<Rightarrow> (r, w @ [p], s, n))"
| "policy_grant acc (NetConnect d) = (case acc of (r, w, s, n) \<Rightarrow> (r, w, s, True))"
| "policy_grant acc ProcSpawn = (case acc of (r, w, s, n) \<Rightarrow> (r, w, True, n))"
| "policy_grant acc PtyOpen = acc"
| "policy_grant acc (Tool t) = acc"

definition build_sandbox_policy ::
    "enforcement_tier \<Rightarrow> workspace \<Rightarrow> capability_set \<Rightarrow> sandbox_policy" where
  "build_sandbox_policy tier workspace capabilities =
     (case foldl policy_grant ([ws_root workspace], [], False, False) (cs_grants capabilities) of
        (fs_read, fs_write, allow_proc_spawn, allow_network) \<Rightarrow>
          policy_from_parts tier fs_read fs_write allow_proc_spawn allow_network)"

section \<open>What a ruleset contains\<close>

lemma apply_step_Inr [result_simps]: "apply_step what f = Inr u \<longleftrightarrow> f = None"
  by (simp add: apply_step_def split: option.split)

definition rule_for :: "lsm_env \<Rightarrow> access_fs set \<Rightarrow> string \<Rightarrow> string \<times> access_fs set" where
  "rule_for env rights path =
     (path, if le_is_dir env path then rights else rights \<inter> {AExecute, AReadFile, AWriteFile})"

lemma add_path_rule_Inr:
  "add_path_rule env rs p rights required = Inr rs' \<longleftrightarrow>
     (if le_open_err env p = None then le_add_err env p = None \<and> rs' = rs @ [rule_for env rights p]
      else \<not> required \<and> rs' = rs)"
  by (cases "le_open_err env p"; cases "le_add_err env p")
    (auto simp: add_path_rule_def apply_step_def rule_for_def Let_def)

lemma add_path_rules_required:
  "add_path_rules env rs ps rights True = Inr rs' \<Longrightarrow>
     rs' = rs @ map (rule_for env rights) ps \<and> (\<forall>p \<in> set ps. le_open_err env p = None)"
proof (induction ps arbitrary: rs)
  case (Cons p ps)
  then show ?case
    using Cons.IH [of "rs @ [rule_for env rights p]"]
    by (auto simp: rbind_Inr_iff add_path_rule_Inr split: if_splits)
qed simp

lemma add_path_rules_optional:
  "add_path_rules env rs ps rights False = Inr rs' \<Longrightarrow>
     rs' = rs @ map (rule_for env rights) (filter (\<lambda>p. le_open_err env p = None) ps)"
proof (induction ps arbitrary: rs)
  case (Cons p ps)
  then show ?case
    using Cons.IH [of "rs @ [rule_for env rights p]"] Cons.IH [of rs]
    by (auto simp: rbind_Inr_iff add_path_rule_Inr split: if_splits)
qed simp

text \<open>The ruleset of a policy: baseline, read grants, write grants.\<close>

definition policy_rules :: "lsm_env \<Rightarrow> sandbox_policy \<Rightarrow> ruleset" where
  "policy_rules env policy =
     map (rule_for env (le_from_read env)) (filter (\<lambda>p. le_open_err env p = None) BASELINE_READ_PATHS) @
     map (rule_for env (le_from_read env)) (sp_fs_read policy) @
     map (rule_for env (le_from_write env)) (sp_fs_write policy)"

lemma landlock_ruleset_Inr:
  assumes "landlock_ruleset env policy = Inr rs"
  shows "rs = policy_rules env policy \<and>
    (\<forall>p \<in> set (sp_fs_read policy @ sp_fs_write policy). le_open_err env p = None)"
proof -
  obtain rs1 rs2 where
      r1: "add_path_rules env [] BASELINE_READ_PATHS (le_from_read env) False = Inr rs1"
    and r2: "add_path_rules env rs1 (sp_fs_read policy) (le_from_read env) True = Inr rs2"
    and r3: "add_path_rules env rs2 (sp_fs_write policy) (le_from_write env) True = Inr rs"
    using assms unfolding landlock_ruleset_def by (elim rbind_InrE)
  have "rs1 = map (rule_for env (le_from_read env))
      (filter (\<lambda>p. le_open_err env p = None) BASELINE_READ_PATHS)"
    using add_path_rules_optional [OF r1] by simp
  moreover have "rs2 = rs1 @ map (rule_for env (le_from_read env)) (sp_fs_read policy) \<and>
      (\<forall>p \<in> set (sp_fs_read policy). le_open_err env p = None)"
    using r2 by (rule add_path_rules_required)
  moreover have "rs = rs2 @ map (rule_for env (le_from_write env)) (sp_fs_write policy) \<and>
      (\<forall>p \<in> set (sp_fs_write policy). le_open_err env p = None)"
    using r3 by (rule add_path_rules_required)
  ultimately show ?thesis unfolding policy_rules_def by auto
qed

lemma landlock_enforce_cases:
  assumes "landlock_enforce env policy cmd = (cmd', r)"
  shows "r = Inr () \<and> cmd' = cmd @ [LandlockHook (policy_rules env policy)] \<and> landlock_available env \<and>
      (\<forall>p \<in> set (sp_fs_read policy @ sp_fs_write policy). le_open_err env p = None) \<or>
    (\<exists>e. r = Inl e) \<and> cmd' = cmd"
proof (cases "landlock_ruleset env policy")
  case (Inl e)
  then show ?thesis using assms by (auto simp: landlock_enforce_def split: if_splits)
next
  case (Inr rs)
  then show ?thesis
    using assms landlock_ruleset_Inr [OF Inr] unfolding landlock_enforce_def by (auto split: if_splits)
qed

lemma seccomp_build_Inr: "seccomp_build env = Inr prog \<Longrightarrow> prog = denied_syscalls"
  by (auto simp: seccomp_build_def rbind_Inr_iff)

lemma seccomp_apply_cases:
  "seccomp_apply env cmd = (cmd', r) \<Longrightarrow>
     r = Inr () \<and> cmd' = cmd @ [SeccompHook denied_syscalls] \<or> (\<exists>e. r = Inl e) \<and> cmd' = cmd"
  by (cases "seccomp_build env") (auto simp: seccomp_apply_def dest: seccomp_build_Inr)

lemma foldl_policy_grant:
  "foldl policy_grant (r, w, s, n) gs =
     (r @ concat (map (\<lambda>g. case g of FsRead p \<Rightarrow> [p] | _ \<Rightarrow> []) gs),
      w @ concat (map (\<lambda>g. case g of FsWrite p \<Rightarrow> [p] | _ \<Rightarrow> []) gs),
      s \<or> ProcSpawn \<in> set gs, n \<or> (\<exists>d. NetConnect d \<in> set gs))"
proof (induction gs arbitrary: r w s n)
  case (Cons g gs)
  then show ?case by (cases g) auto
qed simp

lemma build_sandbox_policy_sel:
  "sp_tier (build_sandbox_policy tier ws cs) = tier"
  "p \<in> set (sp_fs_read (build_sandbox_policy tier ws cs)) \<longleftrightarrow> p = ws_root ws \<or> FsRead p \<in> set (cs_grants cs)"
  "p \<in> set (sp_fs_write (build_sandbox_policy tier ws cs)) \<longleftrightarrow> FsWrite p \<in> set (cs_grants cs)"
  "sp_allow_proc_spawn (build_sandbox_policy tier ws cs) \<longleftrightarrow> ProcSpawn \<in> set (cs_grants cs)"
  "sp_allow_network (build_sandbox_policy tier ws cs) \<longleftrightarrow> (\<exists>d. NetConnect d \<in> set (cs_grants cs))"
proof -
  have cases_iff: "(p \<in> set (case g of FsRead p \<Rightarrow> [p] | _ \<Rightarrow> [])) = (g = FsRead p)"
      "(p \<in> set (case g of FsWrite p \<Rightarrow> [p] | _ \<Rightarrow> [])) = (g = FsWrite p)" for g
    by (cases g; auto)+
  show "sp_tier (build_sandbox_policy tier ws cs) = tier"
    "p \<in> set (sp_fs_read (build_sandbox_policy tier ws cs)) \<longleftrightarrow> p = ws_root ws \<or> FsRead p \<in> set (cs_grants cs)"
    "p \<in> set (sp_fs_write (build_sandbox_policy tier ws cs)) \<longleftrightarrow> FsWrite p \<in> set (cs_grants cs)"
    "sp_allow_proc_spawn (build_sandbox_policy tier ws cs) \<longleftrightarrow> ProcSpawn \<in> set (cs_grants cs)"
    "sp_allow_network (build_sandbox_policy tier ws cs) \<longleftrightarrow> (\<exists>d. NetConnect d \<in> set (cs_grants cs))"
    by (auto simp: build_sandbox_policy_def policy_from_parts_def foldl_policy_grant cases_iff)
qed

text \<open>Applying under the kernel tier: both hooks or an error.\<close>

lemma policy_apply_kernel:
  assumes "sp_tier policy = KernelLsm" and "policy_apply env policy cmd = (cmd', Inr u)"
  shows "landlock_available env \<and>
    (\<forall>p \<in> set (sp_fs_read policy @ sp_fs_write policy). le_open_err env p = None) \<and>
    cmd' = cmd @ [LandlockHook (policy_rules env policy), SeccompHook denied_syscalls]"
proof -
  obtain cmd1 r1 where ll: "landlock_enforce env policy cmd = (cmd1, r1)" by fastforce
  show ?thesis
  proof (cases r1)
    case (Inl e)
    then show ?thesis using assms ll by (simp add: policy_apply_def)
  next
    case (Inr v)
    then have "seccomp_apply env cmd1 = (cmd', Inr u)"
      using assms ll by (simp add: policy_apply_def)
    then show ?thesis
      using landlock_enforce_cases [OF ll] seccomp_apply_cases [of env cmd1] Inr by auto
  qed
qed

section \<open>Properties\<close>

text \<open>C18: No silent downgrade: applying a policy succeeds only when nothing was to be enforced
  (\<open>DevNone\<close>, and then the command is untouched) or when the tier is \<open>KernelLsm\<close>, Landlock is
  available, every granted path could be opened, and the child has both hooks: the Landlock ruleset of
  the policy and the seccomp filter. Every other tier is refused, and the command has no hook then.\<close>

theorem policy_apply_never_downgrades:
  "(snd (policy_apply env policy cmd) = Inr () \<longrightarrow>
     sp_tier policy = DevNone \<and> fst (policy_apply env policy cmd) = cmd \<or>
     sp_tier policy = KernelLsm \<and> landlock_available env \<and>
     (\<forall>p \<in> set (sp_fs_read policy @ sp_fs_write policy). le_open_err env p = None) \<and>
     fst (policy_apply env policy cmd) =
       cmd @ [LandlockHook (policy_rules env policy), SeccompHook denied_syscalls]) \<and>
   (sp_tier policy = Container \<or> sp_tier policy = ProcessToken \<longrightarrow>
     (\<exists>reason. policy_apply env policy cmd = (cmd, Inl (Unavailable (sp_tier policy) reason))))"
proof (cases "sp_tier policy")
  case KernelLsm
  then show ?thesis
    using policy_apply_kernel [OF KernelLsm, of env cmd] by (metis enforcement_tier.distinct prod.collapse)
qed (auto simp: policy_apply_def)

definition wit_env :: lsm_env where
  "wit_env = \<lparr>le_available = True, le_from_read = {AExecute, AReadFile, AReadDir},
     le_from_write = {AWriteFile, ARemoveFile, AMakeReg}, le_handle_err = None, le_create_err = None,
     le_open_err = (\<lambda>p. if p = ''/lib64'' then Some ''ENOENT'' else None), le_is_dir = (\<lambda>p. p \<noteq> ''/dev/null''),
     le_add_err = (\<lambda>_. None), le_arch = ''x86_64'', le_arch_err = None, le_filter_err = None,
     le_compile_err = None\<rparr>"

definition wit_caps :: capability_set where
  "wit_caps = cs_new [FsWrite ''/w/out'', NetConnect ''example.com'']"

lemma wit_policy_apply:
  "snd (policy_apply wit_env (build_sandbox_policy KernelLsm \<lparr>ws_root = ''/w''\<rparr> wit_caps) []) = Inr ()"
  by (simp add: policy_apply_def landlock_ruleset_def landlock_enforce_def landlock_available_def wit_env_def wit_caps_def
      cs_new_def build_sandbox_policy_def policy_from_parts_def apply_step_def add_path_rule_def
      BASELINE_READ_PATHS_def seccomp_apply_def seccomp_build_def Let_def)

lemma policy_apply_never_downgrades_witness:
  "last (fst (policy_apply wit_env (build_sandbox_policy KernelLsm \<lparr>ws_root = ''/w''\<rparr> wit_caps) [])) =
     SeccompHook denied_syscalls"
  using policy_apply_never_downgrades [of wit_env "build_sandbox_policy KernelLsm \<lparr>ws_root = ''/w''\<rparr> wit_caps" "[]"]
    wit_policy_apply by (auto simp: build_sandbox_policy_sel)

text \<open>C12: The Landlock rules of a session's job are exactly those of its grants: the rules of the read
  rights for the workspace root, the path of every \<open>fs.read\<close> grant and every baseline system path that
  opens, and the rules of the write rights for the path of every \<open>fs.write\<close> grant, each right set whole
  for a directory and cut to the rights of files for anything else. So, when the read and write right
  sets are disjoint, a rule that gives some read right is for a baseline path, the workspace root or an
  \<open>fs.read\<close> path, and one that gives some write right is for the path of an \<open>fs.write\<close> grant.\<close>

theorem sandbox_rules_from_grants:
  assumes "le_from_read env \<inter> le_from_write env = {}"
    and "policy_apply env (build_sandbox_policy KernelLsm ws caps) cmd = (cmd', Inr ())"
  shows "\<exists>rules. cmd' = cmd @ [LandlockHook rules, SeccompHook denied_syscalls] \<and>
    (\<forall>path rights. (path, rights) \<in> set rules \<longleftrightarrow>
       (path = ws_root ws \<or> FsRead path \<in> set (cs_grants caps) \<or>
          path \<in> set BASELINE_READ_PATHS \<and> le_open_err env path = None) \<and>
         rights = (if le_is_dir env path then le_from_read env
                   else le_from_read env \<inter> {AExecute, AReadFile, AWriteFile}) \<or>
       FsWrite path \<in> set (cs_grants caps) \<and>
         rights = (if le_is_dir env path then le_from_write env
                   else le_from_write env \<inter> {AExecute, AReadFile, AWriteFile})) \<and>
    (\<forall>(path, rights) \<in> set rules.
       rights \<subseteq> le_from_read env \<union> le_from_write env \<and>
       (rights \<inter> le_from_read env \<noteq> {} \<longrightarrow>
          path \<in> set BASELINE_READ_PATHS \<or> path = ws_root ws \<or> FsRead path \<in> set (cs_grants caps)) \<and>
       (rights \<inter> le_from_write env \<noteq> {} \<longrightarrow> FsWrite path \<in> set (cs_grants caps)))"
proof -
  let ?policy = "build_sandbox_policy KernelLsm ws caps"
  have cmd': "cmd' = cmd @ [LandlockHook (policy_rules env ?policy), SeccompHook denied_syscalls]"
    using policy_apply_kernel [OF _ assms(2)] by (simp add: build_sandbox_policy_sel)
  have rules: "(path, rights) \<in> set (policy_rules env ?policy) \<longleftrightarrow>
      (path = ws_root ws \<or> FsRead path \<in> set (cs_grants caps) \<or>
          path \<in> set BASELINE_READ_PATHS \<and> le_open_err env path = None) \<and>
         rights = (if le_is_dir env path then le_from_read env
                   else le_from_read env \<inter> {AExecute, AReadFile, AWriteFile}) \<or>
       FsWrite path \<in> set (cs_grants caps) \<and>
         rights = (if le_is_dir env path then le_from_write env
                   else le_from_write env \<inter> {AExecute, AReadFile, AWriteFile})"
    for path rights
    by (auto simp: policy_rules_def build_sandbox_policy_sel rule_for_def)
  show ?thesis
  proof (intro exI [of _ "policy_rules env ?policy"] conjI cmd' allI rules)
    show "\<forall>(path, rights) \<in> set (policy_rules env ?policy).
       rights \<subseteq> le_from_read env \<union> le_from_write env \<and>
       (rights \<inter> le_from_read env \<noteq> {} \<longrightarrow>
          path \<in> set BASELINE_READ_PATHS \<or> path = ws_root ws \<or> FsRead path \<in> set (cs_grants caps)) \<and>
       (rights \<inter> le_from_write env \<noteq> {} \<longrightarrow> FsWrite path \<in> set (cs_grants caps))"
      using assms(1) by (auto simp: rules split: if_splits)
  qed
qed

lemma sandbox_rules_from_grants_witness:
  "\<exists>rules. fst (policy_apply wit_env (build_sandbox_policy KernelLsm \<lparr>ws_root = ''/w''\<rparr> wit_caps) []) =
      [LandlockHook rules, SeccompHook denied_syscalls] \<and>
    (''/w/out'', {AWriteFile, ARemoveFile, AMakeReg}) \<in> set rules \<and>
    (\<forall>rights. (''/lib64'', rights) \<notin> set rules)"
proof -
  have "le_from_read wit_env \<inter> le_from_write wit_env = {}" by (simp add: wit_env_def)
  moreover obtain cmd' where a: "policy_apply wit_env
      (build_sandbox_policy KernelLsm \<lparr>ws_root = ''/w''\<rparr> wit_caps) [] = (cmd', Inr ())"
    using wit_policy_apply by (metis prod.collapse)
  ultimately obtain rules where r: "cmd' = [LandlockHook rules, SeccompHook denied_syscalls]"
      "\<forall>path rights. (path, rights) \<in> set rules \<longleftrightarrow>
       (path = ''/w'' \<or> FsRead path \<in> set (cs_grants wit_caps) \<or>
          path \<in> set BASELINE_READ_PATHS \<and> le_open_err wit_env path = None) \<and>
         rights = (if le_is_dir wit_env path then le_from_read wit_env
                   else le_from_read wit_env \<inter> {AExecute, AReadFile, AWriteFile}) \<or>
       FsWrite path \<in> set (cs_grants wit_caps) \<and>
         rights = (if le_is_dir wit_env path then le_from_write wit_env
                   else le_from_write wit_env \<inter> {AExecute, AReadFile, AWriteFile})"
    using sandbox_rules_from_grants [of wit_env "\<lparr>ws_root = ''/w''\<rparr>" wit_caps "[]" cmd'] by auto
  have "(''/w/out'', {AWriteFile, ARemoveFile, AMakeReg}) \<in> set rules" "\<And>rights. (''/lib64'', rights) \<notin> set rules"
    unfolding r(2) [rule_format] by (simp_all add: wit_env_def wit_caps_def cs_new_def)
  then show ?thesis using a r(1) by auto
qed

end
