(* ===== verification/Engine.thy ===== *)
theory Engine
  imports Job_Store Registry Sandbox
begin

text \<open>
  \<open>axp-core/src/job/engine.rs\<close>, the synchronous part: starting a job (authorization, working
  directory, sandbox, spawn, registration), cancelling, finishing, status and ownership. What the
  operating system and the other crates answer is the record \<open>start_env\<close>. Channels and flags
  shared through an \<open>Arc\<close> are cells of growing lists: a oneshot channel is a cell that says
  whether its signal was sent, an interrupt or host-cancel flag a cell that says whether it was
  set. The tasks handed to tokio are recorded in the order they were spawned.
\<close>

section \<open>State\<close>

record cancel_entry =
  ce_signal :: nat
  ce_code_interrupt :: "nat option"
  ce_host_capability_cancel :: "nat option"

record code_capability_context =
  cx_capabilities :: capability_set
  cx_workspace :: workspace
  cx_tier :: enforcement_tier
  cx_cwd :: string
  cx_stdout_byte_cap :: nat
  cx_cancel :: nat

datatype runnable = Shell string | Argv resolved_command

record child_command =
  cc_program :: string
  cc_args :: "string list"
  cc_cwd :: string
  cc_hooks :: "hook list"

text \<open>What the task drives: a child process, or a component and its host handler's context.\<close>

datatype task_work =
  WProcess child_command
| WCode "byte list" nat code_capability_context

record job_task =
  tk_job_id :: job_id
  tk_session_id :: session_id
  tk_handle :: nat
  tk_signal :: nat
  tk_work :: task_work

record 'j job_engine =
  en_sessions :: session_store
  en_jobs :: "'j job_store"
  en_next_id :: u64
  en_cancels :: "job_id \<Rightarrow> cancel_entry option"
  en_log_byte_cap :: nat
  en_registry :: "'j provider_registry"
  en_signals :: "bool list"
  en_interrupts :: "bool list"
  en_host_cancels :: "bool list"
  en_tasks :: "job_task list"

record start_env =
  sv_canonicalize :: "string \<Rightarrow> (string, string) result"
  sv_lsm :: lsm_env
  sv_spawn :: "child_command \<Rightarrow> string option"
  sv_runner :: "string option"
  sv_base64 :: "string \<Rightarrow> (string, byte list) result"
  sv_now :: int

definition engine_new ::
    "session_store \<Rightarrow> 'j job_store \<Rightarrow> 'j provider_registry \<Rightarrow> 'j job_engine" where
  "engine_new sessions jobs registry =
     \<lparr>en_sessions = sessions, en_jobs = jobs, en_next_id = 1, en_cancels = (\<lambda>_. None),
      en_log_byte_cap = DEFAULT_LOG_BYTE_CAP, en_registry = registry, en_signals = [],
      en_interrupts = [], en_host_cancels = [], en_tasks = []\<rparr>"

definition with_log_byte_cap :: "'j job_engine \<Rightarrow> nat \<Rightarrow> 'j job_engine" where
  "with_log_byte_cap eng cap = eng\<lparr>en_log_byte_cap := cap\<rparr>"

definition job_id_of :: "u64 \<Rightarrow> job_id" where
  "job_id_of n = JobId (''j_'' @ dec_digits (unat n))"

text \<open>\<open>fetch_add\<close> wraps around.\<close>

definition next_job_id :: "'j job_engine \<Rightarrow> 'j job_engine \<times> job_id" where
  "next_job_id eng = (eng\<lparr>en_next_id := en_next_id eng + 1\<rparr>, job_id_of (en_next_id eng))"

definition record_session_audit ::
    "int \<Rightarrow> 'j job_engine \<Rightarrow> session_id \<Rightarrow> audit_event_kind \<Rightarrow> 'j job_engine" where
  "record_session_audit now eng sid kind =
     (case store_get (en_sessions eng) sid of
        Some h \<Rightarrow> eng\<lparr>en_sessions := audit_handle now (en_sessions eng) h kind\<rparr>
      | None \<Rightarrow> eng)"

section \<open>Starting a job\<close>

definition validate_job_capability :: "capability_set \<Rightarrow> capability \<Rightarrow> unit core_result" where
  "validate_job_capability capabilities wire_cap =
     rbind (cap_parse wire_cap) (\<lambda>rc.
       if \<not> cs_permits capabilities rc then Inl (CapabilityDenied (capability_as_str wire_cap))
       else Inr ())"

definition validate_job_capabilities :: "capability list \<Rightarrow> capability_set \<Rightarrow> unit core_result" where
  "validate_job_capabilities requested capabilities =
     check_each (validate_job_capability capabilities) requested"

definition decode_code_payload ::
    "(string \<Rightarrow> (string, byte list) result) \<Rightarrow> string \<Rightarrow> string option \<Rightarrow> byte list core_result" where
  "decode_code_payload base64 code lang =
     (let decoded = map_err (\<lambda>e. InvalidCodePayload (''invalid base64: '' @ e)) (base64 code) in
      case lang of
        Some l \<Rightarrow>
          if l \<noteq> ''wasm-component'' then Inl (InvalidCodePayload (''unsupported language `'' @ l @ ''`''))
          else decoded
      | None \<Rightarrow> decoded)"

definition insert_running_job ::
    "int \<Rightarrow> 'j job_engine \<Rightarrow> 'j job_start_request \<Rightarrow> string \<Rightarrow> 'j job_engine \<times> job_id \<times> nat" where
  "insert_running_job now eng req cwd =
     (let (eng, jid) = next_job_id eng;
          rlog = mem_with_cap (en_log_byte_cap eng);
          job = job_new now jid (js_session_id req) (js_payload req) cwd rlog;
          job = job\<lparr>jb_status := Running, jb_started_at := Some now\<rparr>;
          (jobs, handle) = job_store_insert (en_jobs eng) job in
      (eng\<lparr>en_jobs := jobs\<rparr>, jid, handle))"

definition sandbox_core_error :: "sandbox_error \<Rightarrow> core_error" where
  "sandbox_core_error e =
     (case e of Unavailable _ _ \<Rightarrow> SandboxUnavailable e | Apply _ \<Rightarrow> SandboxApply e)"

definition build_command :: "runnable \<Rightarrow> string \<Rightarrow> child_command" where
  "build_command runnable cwd =
     (case runnable of
        Shell s \<Rightarrow> \<lparr>cc_program = ''sh'', cc_args = [''-c'', s], cc_cwd = cwd, cc_hooks = []\<rparr>
      | Argv r \<Rightarrow> \<lparr>cc_program = rc_program r, cc_args = rc_args r, cc_cwd = cwd, cc_hooks = []\<rparr>)"

definition job_policy :: "session \<Rightarrow> runnable \<Rightarrow> sandbox_policy" where
  "job_policy se runnable =
     (let policy = build_sandbox_policy (se_tier se) (se_workspace se) (se_capabilities se) in
      case runnable of Shell _ \<Rightarrow> policy | Argv _ \<Rightarrow> policy\<lparr>sp_allow_proc_spawn := True\<rparr>)"

text \<open>Steps 3 to 7 of \<open>start\<close>: everything that can still fail.\<close>

definition prepare_process ::
    "start_env \<Rightarrow> session \<Rightarrow> 'j job_start_request \<Rightarrow> runnable \<Rightarrow> (string \<times> child_command) core_result" where
  "prepare_process env se req runnable =
     rbind (resolve_cwd (sv_canonicalize env) (js_cwd req) (se_workspace se)) (\<lambda>cwd.
     rbind (validate_job_capabilities (js_capabilities req) (se_capabilities se)) (\<lambda>_.
     let cmd = build_command runnable cwd;
         (hooks, applied) = policy_apply (sv_lsm env) (job_policy se runnable) (cc_hooks cmd);
         cmd = cmd\<lparr>cc_hooks := hooks\<rparr> in
     rbind (map_err sandbox_core_error applied) (\<lambda>_.
     case sv_spawn env cmd of
       Some e \<Rightarrow> Inl (JobSpawn e)
     | None \<Rightarrow> Inr (cwd, cmd))))"

text \<open>Steps 8 to 12.\<close>

definition start_process ::
    "start_env \<Rightarrow> 'j job_engine \<Rightarrow> session \<Rightarrow> 'j job_start_request \<Rightarrow> runnable \<Rightarrow> 'j job_engine \<times> job_id core_result" where
  "start_process env eng se req runnable =
     (case prepare_process env se req runnable of
        Inl e \<Rightarrow> (eng, Inl e)
      | Inr (cwd, cmd) \<Rightarrow>
          let (eng, jid, handle) = insert_running_job (sv_now env) eng req cwd;
              signal = length (en_signals eng);
              eng = eng\<lparr>en_signals := en_signals eng @ [False],
                en_cancels := (en_cancels eng)(jid := Some
                  \<lparr>ce_signal = signal, ce_code_interrupt = None, ce_host_capability_cancel = None\<rparr>)\<rparr>;
              eng = record_session_audit (sv_now env) eng (js_session_id req) (JobStarted jid);
              task = \<lparr>tk_job_id = jid, tk_session_id = js_session_id req, tk_handle = handle,
                tk_signal = signal, tk_work = WProcess cmd\<rparr> in
          (eng\<lparr>en_tasks := en_tasks eng @ [task]\<rparr>, Inr jid))"

definition start_code_job ::
    "start_env \<Rightarrow> 'j job_engine \<Rightarrow> session \<Rightarrow> 'j job_start_request \<Rightarrow> string \<Rightarrow> byte list
      \<Rightarrow> 'j job_engine \<times> job_id core_result" where
  "start_code_job env eng se req cwd bytes =
     (let host_cancel = length (en_host_cancels eng);
          eng1 = eng\<lparr>en_host_cancels := en_host_cancels eng @ [False]\<rparr>;
          context = \<lparr>cx_capabilities = se_capabilities se, cx_workspace = se_workspace se,
            cx_tier = se_tier se, cx_cwd = cwd, cx_stdout_byte_cap = en_log_byte_cap eng,
            cx_cancel = host_cancel\<rparr> in
      case sv_runner env of
        Some e \<Rightarrow> (eng, Inl (JobSpawn e))
      | None \<Rightarrow>
          let interrupt = length (en_interrupts eng1);
              eng = eng1\<lparr>en_interrupts := en_interrupts eng1 @ [False]\<rparr>;
              (eng, jid, handle) = insert_running_job (sv_now env) eng req cwd;
              signal = length (en_signals eng);
              eng = eng\<lparr>en_signals := en_signals eng @ [False],
                en_cancels := (en_cancels eng)(jid := Some
                  \<lparr>ce_signal = signal, ce_code_interrupt = Some interrupt,
                   ce_host_capability_cancel = Some host_cancel\<rparr>)\<rparr>;
              eng = record_session_audit (sv_now env) eng (js_session_id req) (JobStarted jid);
              task = \<lparr>tk_job_id = jid, tk_session_id = js_session_id req, tk_handle = handle,
                tk_signal = signal, tk_work = WCode bytes interrupt context\<rparr> in
          (eng\<lparr>en_tasks := en_tasks eng @ [task]\<rparr>, Inr jid))"

definition tool_permitted :: "capability_set \<Rightarrow> string \<Rightarrow> bool" where
  "tool_permitted capabilities name \<longleftrightarrow>
     cs_permits capabilities (Tool name) \<or> cs_permits capabilities ProcSpawn"

definition engine_start ::
    "start_env \<Rightarrow> 'j job_engine \<Rightarrow> 'j job_start_request \<Rightarrow> 'j job_engine \<times> job_id core_result" where
  "engine_start env eng req =
     (case Option.bind (store_get (en_sessions eng) (js_session_id req)) (am_read (en_sessions eng)) of
        None \<Rightarrow> (eng, Inl (SessionNotFound (js_session_id req)))
      | Some se \<Rightarrow>
          (case js_payload req of
             PCommand command \<Rightarrow>
               if \<not> cs_permits (se_capabilities se) ProcSpawn then
                 (eng, Inl (CapabilityDenied ''proc.spawn''))
               else start_process env eng se req (Shell command)
           | PCode code lang \<Rightarrow>
               (case rbind (decode_code_payload (sv_base64 env) code lang) (\<lambda>bytes.
                     rbind (resolve_cwd (sv_canonicalize env) (js_cwd req) (se_workspace se)) (\<lambda>cwd.
                     rbind (validate_job_capabilities (js_capabilities req) (se_capabilities se)) (\<lambda>_.
                     Inr (bytes, cwd)))) of
                  Inl e \<Rightarrow> (eng, Inl e)
                | Inr (bytes, cwd) \<Rightarrow> start_code_job env eng se req cwd bytes)
           | PCapability name params \<Rightarrow>
               if \<not> cs_permits (se_capabilities se) (Tool name) \<and>
                  \<not> cs_permits (se_capabilities se) ProcSpawn then
                 (eng, Inl (CapabilityDenied (''tool:'' @ name)))
               else
                 (case registry_resolve (en_registry eng) name params of
                    Inl e \<Rightarrow> (eng, Inl e)
                  | Inr resolved \<Rightarrow> start_process env eng se req (Argv resolved))))"

section \<open>Logs, ending and cancelling\<close>

definition push_log ::
    "int \<Rightarrow> 'j job_store \<Rightarrow> nat \<Rightarrow> log_stream \<Rightarrow> byte list \<Rightarrow> 'j job_store \<times> unit core_result" where
  "push_log now jobs handle stream data =
     (case job_read jobs handle of
        None \<Rightarrow> (jobs, Inr ())
      | Some job \<Rightarrow>
          (case mem_append (jb_replay_log job) \<lparr>ap_stream = stream, ap_data = data, ap_timestamp = now\<rparr> of
             (rlog, Inl e) \<Rightarrow> (job_write jobs handle (job\<lparr>jb_replay_log := rlog\<rparr>), Inl e)
           | (rlog, Inr _) \<Rightarrow> (job_write jobs handle (job\<lparr>jb_replay_log := rlog\<rparr>), Inr ())))"

definition push_text_result ::
    "int \<Rightarrow> 'j job_store \<Rightarrow> nat \<Rightarrow> log_stream \<Rightarrow> byte list \<Rightarrow> 'j job_store \<times> unit core_result" where
  "push_text_result now jobs handle stream text =
     (let bytes = (if ends_with text [10] then text else text @ [10]) in
      push_log now jobs handle stream bytes)"

text \<open>The four atomic parts of \<open>finish_job\<close>, in order.\<close>

definition finish_write :: "int \<Rightarrow> 'j job_engine \<Rightarrow> nat \<Rightarrow> job_status \<Rightarrow> 'j job_engine" where
  "finish_write now eng handle final_status =
     (case job_read (en_jobs eng) handle of
        None \<Rightarrow> eng
      | Some job \<Rightarrow> eng\<lparr>en_jobs := job_write (en_jobs eng) handle
          (job\<lparr>jb_status := final_status, jb_finished_at := Some now\<rparr>)\<rparr>)"

definition finish_notify :: "'j job_engine \<Rightarrow> nat \<Rightarrow> 'j job_engine" where
  "finish_notify eng handle =
     (case job_read (en_jobs eng) handle of
        None \<Rightarrow> eng
      | Some job \<Rightarrow> eng\<lparr>en_jobs := job_write (en_jobs eng) handle
          (job\<lparr>jb_replay_log := (jb_replay_log job)\<lparr>ml_notify := Suc (ml_notify (jb_replay_log job))\<rparr>\<rparr>)\<rparr>)"

definition finish_remove :: "'j job_engine \<Rightarrow> job_id \<Rightarrow> 'j job_engine" where
  "finish_remove eng jid = eng\<lparr>en_cancels := (en_cancels eng)(jid := None)\<rparr>"

definition finish_job ::
    "int \<Rightarrow> 'j job_engine \<Rightarrow> job_id \<Rightarrow> session_id \<Rightarrow> nat \<Rightarrow> job_status \<Rightarrow> 'j job_engine" where
  "finish_job now eng jid sid handle final_status =
     (let eng = finish_write now eng handle final_status;
          eng = finish_notify eng handle;
          eng = record_session_audit now eng sid (JobFinished jid (status_to_proto final_status)) in
      finish_remove eng jid)"

definition set_cell :: "bool list \<Rightarrow> nat option \<Rightarrow> bool list" where
  "set_cell cells i = (case i of None \<Rightarrow> cells | Some k \<Rightarrow> cells[k := True])"

definition kill_job :: "'j job_engine \<Rightarrow> job_id \<Rightarrow> 'j job_engine \<times> unit core_result" where
  "kill_job eng jid =
     (case en_cancels eng jid of
        Some entry \<Rightarrow>
          (eng\<lparr>en_cancels := (en_cancels eng)(jid := None),
             en_signals := set_cell (en_signals eng) (Some (ce_signal entry)),
             en_interrupts := set_cell (en_interrupts eng) (ce_code_interrupt entry),
             en_host_cancels := set_cell (en_host_cancels eng) (ce_host_capability_cancel entry)\<rparr>, Inr ())
      | None \<Rightarrow> (eng, Inl (JobNotFound jid)))"

definition lookup_owned :: "'j job_engine \<Rightarrow> session_id \<Rightarrow> job_id \<Rightarrow> nat core_result" where
  "lookup_owned eng sid jid =
     rbind (ok_or (job_store_get (en_jobs eng) jid) (JobNotFound jid)) (\<lambda>handle.
     case job_read (en_jobs eng) handle of
       Some job \<Rightarrow> if jb_session_id job = sid then Inr handle else Inl (JobNotFound jid)
     | None \<Rightarrow> Inl (JobNotFound jid))"

definition engine_cancel ::
    "'j job_engine \<Rightarrow> job_cancel_request \<Rightarrow> 'j job_engine \<times> job_cancel_response core_result" where
  "engine_cancel eng req =
     (case lookup_owned eng (jc_session_id req) (jc_job_id req) of
        Inl e \<Rightarrow> (eng, Inl e)
      | Inr _ \<Rightarrow>
          (case kill_job eng (jc_job_id req) of
             (eng, Inr _) \<Rightarrow> (eng, Inr \<lparr>jcr_ok = True\<rparr>)
           | (eng, Inl (JobNotFound _)) \<Rightarrow> (eng, Inr \<lparr>jcr_ok = False\<rparr>)
           | (eng, Inl e) \<Rightarrow> (eng, Inl e)))"

fun cancel_jobs :: "'j job_engine \<Rightarrow> job_id list \<Rightarrow> nat \<Rightarrow> 'j job_engine \<times> nat" where
  "cancel_jobs eng [] n = (eng, n)"
| "cancel_jobs eng (jid # jids) n =
     (case kill_job eng jid of
        (eng, Inr _) \<Rightarrow> cancel_jobs eng jids (n + 1)
      | (eng, Inl _) \<Rightarrow> cancel_jobs eng jids n)"

definition cancel_for_session :: "'j job_engine \<Rightarrow> session_id \<Rightarrow> 'j job_engine \<times> nat" where
  "cancel_for_session eng sid = cancel_jobs eng (list_for_session (en_jobs eng) sid) 0"

definition engine_status :: "'j job_engine \<Rightarrow> job_status_request \<Rightarrow> job_status_response core_result" where
  "engine_status eng req =
     rbind (lookup_owned eng (jt_session_id req) (jt_job_id req)) (\<lambda>handle.
     case job_read (en_jobs eng) handle of
       Some job \<Rightarrow> Inr \<lparr>jtr_job_id = jt_job_id req, jtr_status = status_to_proto (jb_status job),
           jtr_seq = mem_next_seq (jb_replay_log job)\<rparr>
     | None \<Rightarrow> Inl (JobNotFound (jt_job_id req)))"

section \<open>Starting: what a successful start established\<close>

text \<open>The state after steps 8 to 12, shared by both kinds of job.\<close>

definition registered_job ::
    "int \<Rightarrow> 'j job_engine \<Rightarrow> 'j job_start_request \<Rightarrow> string \<Rightarrow> 'j job" where
  "registered_job now eng req cwd =
     (job_new now (job_id_of (en_next_id eng)) (js_session_id req) (js_payload req) cwd
        (mem_with_cap (en_log_byte_cap eng)))\<lparr>jb_status := Running, jb_started_at := Some now\<rparr>"

lemma registered_job_sel [simp]:
  "jb_id (registered_job now eng req cwd) = job_id_of (en_next_id eng)"
  "jb_session_id (registered_job now eng req cwd) = js_session_id req"
  "jb_payload (registered_job now eng req cwd) = js_payload req"
  "jb_cwd (registered_job now eng req cwd) = cwd"
  "jb_status (registered_job now eng req cwd) = Running"
  "jb_replay_log (registered_job now eng req cwd) = mem_with_cap (en_log_byte_cap eng)"
  by (simp_all add: registered_job_def)

lemma insert_running_job_eq:
  "insert_running_job now eng req cwd =
     (eng\<lparr>en_next_id := en_next_id eng + 1,
        en_jobs := fst (job_store_insert (en_jobs eng) (registered_job now eng req cwd))\<rparr>,
      job_id_of (en_next_id eng),
      snd (job_store_insert (en_jobs eng) (registered_job now eng req cwd)))"
  by (simp add: insert_running_job_def next_job_id_def registered_job_def Let_def split: prod.split)

text \<open>What a start adds, whatever the job runs.\<close>

definition audited_sessions :: "int \<Rightarrow> session_store \<Rightarrow> session_id \<Rightarrow> audit_event_kind \<Rightarrow> session_store" where
  "audited_sessions now sessions sid k =
     (case store_get sessions sid of Some h \<Rightarrow> audit_handle now sessions h k | None \<Rightarrow> sessions)"

definition started :: "start_env \<Rightarrow> 'j job_engine \<Rightarrow> 'j job_start_request \<Rightarrow> string \<Rightarrow> task_work
    \<Rightarrow> 'j job_engine \<Rightarrow> bool" where
  "started env eng req cwd work eng' \<longleftrightarrow>
     (let jid = job_id_of (en_next_id eng); signal = length (en_signals eng);
          (jobs, h) = job_store_insert (en_jobs eng) (registered_job (sv_now env) eng req cwd) in
        en_jobs eng' = jobs \<and> en_next_id eng' = en_next_id eng + 1 \<and>
        (\<exists>entry. en_cancels eng' jid = Some entry \<and> ce_signal entry = signal) \<and>
        (\<forall>k. k \<noteq> jid \<longrightarrow> en_cancels eng' k = en_cancels eng k) \<and>
        en_signals eng' = en_signals eng @ [False] \<and>
        en_sessions eng' =
          audited_sessions (sv_now env) (en_sessions eng) (js_session_id req) (JobStarted jid) \<and>
        en_log_byte_cap eng' = en_log_byte_cap eng \<and> en_registry eng' = en_registry eng \<and>
        en_tasks eng' = en_tasks eng @ [\<lparr>tk_job_id = jid, tk_session_id = js_session_id req,
          tk_handle = h, tk_signal = signal, tk_work = work\<rparr>])"

lemma record_session_audit_sel [simp]:
  "en_jobs (record_session_audit now eng sid k) = en_jobs eng"
  "en_next_id (record_session_audit now eng sid k) = en_next_id eng"
  "en_cancels (record_session_audit now eng sid k) = en_cancels eng"
  "en_log_byte_cap (record_session_audit now eng sid k) = en_log_byte_cap eng"
  "en_registry (record_session_audit now eng sid k) = en_registry eng"
  "en_signals (record_session_audit now eng sid k) = en_signals eng"
  "en_interrupts (record_session_audit now eng sid k) = en_interrupts eng"
  "en_host_cancels (record_session_audit now eng sid k) = en_host_cancels eng"
  "en_tasks (record_session_audit now eng sid k) = en_tasks eng"
  "en_sessions (record_session_audit now eng sid k) = audited_sessions now (en_sessions eng) sid k"
  by (simp_all add: record_session_audit_def audited_sessions_def split: option.split)

lemma start_process_cases:
  assumes "start_process env eng se req runnable = (eng', r)"
  shows "(\<exists>e. r = Inl e) \<and> eng' = eng \<or>
    (\<exists>cwd cmd. r = Inr (job_id_of (en_next_id eng)) \<and>
      prepare_process env se req runnable = Inr (cwd, cmd) \<and> started env eng req cwd (WProcess cmd) eng')"
proof (cases "prepare_process env se req runnable")
  case (Inl e)
  then show ?thesis using assms by (auto simp: start_process_def)
next
  case (Inr p)
  obtain cwd cmd where p: "p = (cwd, cmd)" by fastforce
  obtain jobs h where ins: "job_store_insert (en_jobs eng) (registered_job (sv_now env) eng req cwd) = (jobs, h)"
    by fastforce
  have "started env eng req cwd (WProcess cmd) eng' \<and> r = Inr (job_id_of (en_next_id eng))"
    using assms ins unfolding start_process_def Inr p started_def Let_def insert_running_job_eq
    by auto
  then show ?thesis using Inr p by blast
qed

lemma start_code_job_cases:
  assumes "start_code_job env eng se req cwd bytes = (eng', r)"
  shows "(\<exists>e. r = Inl e) \<and> eng' = eng \<or>
    (\<exists>interrupt cx. r = Inr (job_id_of (en_next_id eng)) \<and>
      started env eng req cwd (WCode bytes interrupt cx) eng' \<and>
      cx_capabilities cx = se_capabilities se \<and> cx_workspace cx = se_workspace se \<and>
      cx_tier cx = se_tier se \<and> cx_cwd cx = cwd \<and> cx_stdout_byte_cap cx = en_log_byte_cap eng)"
proof (cases "sv_runner env")
  case (Some e)
  then show ?thesis using assms by (auto simp: start_code_job_def Let_def)
next
  case None
  let ?eng = "eng\<lparr>en_host_cancels := en_host_cancels eng @ [False], en_interrupts := en_interrupts eng @ [False]\<rparr>"
  have reg: "registered_job now ?eng req cwd = registered_job now eng req cwd" for now
    by (simp add: registered_job_def)
  obtain jobs h where ins: "job_store_insert (en_jobs eng) (registered_job (sv_now env) eng req cwd) = (jobs, h)"
    by fastforce
  let ?cx = "\<lparr>cx_capabilities = se_capabilities se, cx_workspace = se_workspace se,
            cx_tier = se_tier se, cx_cwd = cwd, cx_stdout_byte_cap = en_log_byte_cap eng,
            cx_cancel = length (en_host_cancels eng)\<rparr>"
  have "started env eng req cwd (WCode bytes (length (en_interrupts eng)) ?cx) eng' \<and>
      r = Inr (job_id_of (en_next_id eng))"
    using assms ins None unfolding start_code_job_def started_def Let_def insert_running_job_eq
    by (auto simp: reg)
  then show ?thesis by (intro disjI2 exI [of _ "length (en_interrupts eng)"] exI [of _ ?cx]) simp
qed

text \<open>The command of a prepared process: its program, directory and sandbox hooks.\<close>

lemma prepare_process_Inr:
  assumes "prepare_process env se req runnable = Inr (cwd, cmd)"
  shows "resolve_cwd (sv_canonicalize env) (js_cwd req) (se_workspace se) = Inr cwd \<and>
    validate_job_capabilities (js_capabilities req) (se_capabilities se) = Inr () \<and>
    policy_apply (sv_lsm env) (job_policy se runnable) [] = (cc_hooks cmd, Inr ()) \<and>
    cmd = (build_command runnable cwd)\<lparr>cc_hooks := cc_hooks cmd\<rparr> \<and> sv_spawn env cmd = None"
proof -
  have hooks: "cc_hooks (build_command runnable d) = []" for d
    by (simp add: build_command_def split: runnable.split)
  obtain hs a where pa: "policy_apply (sv_lsm env) (job_policy se runnable) [] = (hs, a)" by fastforce
  show ?thesis
    using assms unfolding prepare_process_def
    by (auto simp: hooks pa Let_def rbind_Inr_iff map_err_iff split: option.splits)
qed

lemma start_process_outcome:
  assumes "start_process env eng se req runnable = (eng', r)"
  shows "(\<exists>e. r = Inl e) \<and> eng' = eng \<or>
    (\<exists>cwd hooks. r = Inr (job_id_of (en_next_id eng)) \<and>
      resolve_cwd (sv_canonicalize env) (js_cwd req) (se_workspace se) = Inr cwd \<and>
      validate_job_capabilities (js_capabilities req) (se_capabilities se) = Inr () \<and>
      policy_apply (sv_lsm env) (job_policy se runnable) [] = (hooks, Inr ()) \<and>
      started env eng req cwd (WProcess ((build_command runnable cwd)\<lparr>cc_hooks := hooks\<rparr>)) eng')"
  using start_process_cases [OF assms]
proof (elim disjE exE conjE)
  fix cwd cmd
  assume "r = Inr (job_id_of (en_next_id eng))" and pp: "prepare_process env se req runnable = Inr (cwd, cmd)"
    and "started env eng req cwd (WProcess cmd) eng'"
  then show ?thesis
    using prepare_process_Inr [OF pp] by (intro disjI2 exI [of _ cwd] exI [of _ "cc_hooks cmd"]) simp
qed simp

text \<open>What a session's grants let a request run.\<close>

definition start_work ::
    "start_env \<Rightarrow> 'j job_engine \<Rightarrow> session \<Rightarrow> 'j job_start_request \<Rightarrow> string \<Rightarrow> task_work \<Rightarrow> bool" where
  "start_work env eng se req cwd work \<longleftrightarrow>
     (case js_payload req of
         PCommand command \<Rightarrow> cs_permits (se_capabilities se) ProcSpawn \<and>
           (\<exists>hooks. policy_apply (sv_lsm env) (job_policy se (Shell command)) [] = (hooks, Inr ()) \<and>
              work = WProcess ((build_command (Shell command) cwd)\<lparr>cc_hooks := hooks\<rparr>))
       | PCapability name params \<Rightarrow> tool_permitted (se_capabilities se) name \<and>
           (\<exists>resolved hooks. registry_resolve (en_registry eng) name params = Inr resolved \<and>
              policy_apply (sv_lsm env) (job_policy se (Argv resolved)) [] = (hooks, Inr ()) \<and>
              work = WProcess ((build_command (Argv resolved) cwd)\<lparr>cc_hooks := hooks\<rparr>))
       | PCode code lang \<Rightarrow> (\<exists>bytes interrupt cx. decode_code_payload (sv_base64 env) code lang = Inr bytes \<and>
              work = WCode bytes interrupt cx \<and> cx_capabilities cx = se_capabilities se \<and>
              cx_workspace cx = se_workspace se \<and> cx_tier cx = se_tier se \<and> cx_cwd cx = cwd))"

text \<open>All errors of a start: nothing happened.\<close>

lemma engine_start_cases:
  assumes "engine_start env eng req = (eng', r)"
  shows "(\<exists>e. r = Inl e) \<and> eng' = eng \<or>
    (\<exists>se cwd work. r = Inr (job_id_of (en_next_id eng)) \<and>
      am_lookup (en_sessions eng) (js_session_id req) = Some se \<and>
      resolve_cwd (sv_canonicalize env) (js_cwd req) (se_workspace se) = Inr cwd \<and>
      validate_job_capabilities (js_capabilities req) (se_capabilities se) = Inr () \<and>
      started env eng req cwd work eng' \<and>
      start_work env eng se req cwd work)"
proof (cases "am_lookup (en_sessions eng) (js_session_id req)")
  case None
  then show ?thesis using assms by (auto simp: engine_start_def store_get_def am_lookup_def)
next
  case (Some se)
  then have se: "Option.bind (store_get (en_sessions eng) (js_session_id req)) (am_read (en_sessions eng)) = Some se"
    by (simp add: store_get_def am_lookup_def)
  note start = assms [unfolded engine_start_def se]
  show ?thesis
  proof (cases "js_payload req")
    case (PCommand command)
    then consider "(\<exists>e. r = Inl e) \<and> eng' = eng"
      | "cs_permits (se_capabilities se) ProcSpawn" "start_process env eng se req (Shell command) = (eng', r)"
      using start by (auto split: if_splits)
    then show ?thesis
    proof cases
      case 2
      from start_process_outcome [OF 2(2)] show ?thesis using Some 2(1) PCommand unfolding start_work_def by fastforce
    qed simp
  next
    case (PCapability name params)
    then consider "(\<exists>e. r = Inl e) \<and> eng' = eng"
      | resolved where "tool_permitted (se_capabilities se) name"
        "registry_resolve (en_registry eng) name params = Inr resolved"
        "start_process env eng se req (Argv resolved) = (eng', r)"
      using start by (auto simp: tool_permitted_def split: if_splits sum.splits)
    then show ?thesis
    proof cases
      case 2
      from start_process_outcome [OF 2(3)] show ?thesis using Some 2(1,2) PCapability unfolding start_work_def by fastforce
    qed simp
  next
    case (PCode code lang)
    then consider "(\<exists>e. r = Inl e) \<and> eng' = eng"
      | bytes cwd where "decode_code_payload (sv_base64 env) code lang = Inr bytes"
        "resolve_cwd (sv_canonicalize env) (js_cwd req) (se_workspace se) = Inr cwd"
        "validate_job_capabilities (js_capabilities req) (se_capabilities se) = Inr ()"
        "start_code_job env eng se req cwd bytes = (eng', r)"
      using start by (auto simp: rbind_Inr_iff split: sum.splits)
    then show ?thesis
    proof cases
      case 2
      from start_code_job_cases [OF 2(4)] show ?thesis using Some 2(1-3) PCode by (auto simp: start_work_def)
    qed simp
  qed
qed

section \<open>Invariant\<close>

text \<open>
  Both stores are sound, every job has an id already handed out, and a cancel entry belongs
  to a job of the store and points to an existing channel.
\<close>

definition engine_inv :: "'j job_engine \<Rightarrow> bool" where
  "engine_inv eng \<longleftrightarrow> store_inv (en_sessions eng) \<and> job_store_inv (en_jobs eng) \<and>
     (\<forall>jid. job_lookup (en_jobs eng) jid \<noteq> None \<longrightarrow>
        (\<exists>n. jid = job_id_of n \<and> n < en_next_id eng)) \<and>
     (\<forall>jid entry. en_cancels eng jid = Some entry \<longrightarrow>
        job_lookup (en_jobs eng) jid \<noteq> None \<and> ce_signal entry < length (en_signals eng))"

lemma job_id_of_inj [simp]: "job_id_of m = job_id_of n \<longleftrightarrow> m = n"
  by (simp add: job_id_of_def word_unat_eq_iff)

lemma u64_less_next: "(n :: u64) \<noteq> - 1 \<Longrightarrow> n < n + 1 \<and> (\<forall>m. m < n \<longrightarrow> m < n + 1)"
proof -
  assume "n \<noteq> - 1"
  then have "1 + n \<noteq> 0" by (metis add.inverse_inverse add_eq_0_iff)
  then have "unat (n + 1) = Suc (unat n)" by (simp add: add.commute unatSuc)
  then show ?thesis by (simp add: word_less_nat_alt less_Suc_eq)
qed

lemma engine_new_inv: "store_inv sessions \<Longrightarrow> engine_inv (engine_new sessions job_store_new registry)"
  by (simp add: engine_inv_def engine_new_def) (simp add: job_lookup_def job_store_new_def)

lemma engine_inv_fresh:
  assumes "engine_inv eng"
  shows "job_lookup (en_jobs eng) (job_id_of (en_next_id eng)) = None"
  using assms by (force simp: engine_inv_def)

lemma audited_sessions_inv: "store_inv sessions \<Longrightarrow> store_inv (audited_sessions now sessions sid k)"
  by (simp add: audited_sessions_def audit_handle_store_inv split: option.split)

text \<open>An audit entry goes to the named session, if it is still open, and to no other.\<close>

lemma audited_sessions_lookup:
  assumes "store_inv sessions"
  shows "am_lookup (audited_sessions now sessions sid k) sid' =
    (if sid' = sid then map_option (\<lambda>se. record_audit now se k) (am_lookup sessions sid)
     else am_lookup sessions sid')"
proof (cases "am_get sessions sid")
  case None
  then have "am_lookup sessions sid = None" by (simp add: am_lookup_def)
  then show ?thesis using None by (simp add: audited_sessions_def store_get_def)
next
  case (Some h)
  then show ?thesis
    using assms audit_handle_lookup [of sessions sid h] by (simp add: audited_sessions_def store_get_def store_inv_def)
qed

lemma started_jobs:
  assumes "started env eng req cwd work eng'" and "engine_inv eng" and "en_next_id eng \<noteq> - 1"
  shows "job_lookup (en_jobs eng') jid =
      (if jid = job_id_of (en_next_id eng) then Some (registered_job (sv_now env) eng req cwd)
       else job_lookup (en_jobs eng) jid)"
    and "list_for_session (en_jobs eng') sid = list_for_session (en_jobs eng) sid @
      (if sid = js_session_id req then [job_id_of (en_next_id eng)] else [])"
    and "engine_inv eng'"
proof -
  obtain jobs h where ins: "job_store_insert (en_jobs eng) (registered_job (sv_now env) eng req cwd) = (jobs, h)"
    by fastforce
  have inv: "job_store_inv (en_jobs eng)" "store_inv (en_sessions eng)" using assms(2) by (simp_all add: engine_inv_def)
  have jobs: "en_jobs eng' = jobs" using assms(1) ins by (simp add: started_def Let_def)
  show l: "job_lookup (en_jobs eng') jid =
      (if jid = job_id_of (en_next_id eng) then Some (registered_job (sv_now env) eng req cwd)
       else job_lookup (en_jobs eng) jid)" for jid
    using job_insert_lookup [OF inv(1) ins] jobs by simp
  show "list_for_session (en_jobs eng') sid = list_for_session (en_jobs eng) sid @
      (if sid = js_session_id req then [job_id_of (en_next_id eng)] else [])"
    using job_insert_sel(2) [OF ins] jobs by simp
  have fresh: "job_lookup (en_jobs eng) (job_id_of (en_next_id eng)) = None"
    using assms(2) by (rule engine_inv_fresh)
  have "job_store_inv (en_jobs eng')"
    using job_insert_inv [OF inv(1) ins] fresh jobs by simp
  moreover have "store_inv (en_sessions eng')"
    using assms(1) audited_sessions_inv [OF inv(2)] by (auto simp: started_def Let_def)
  moreover have "\<exists>n. jid = job_id_of n \<and> n < en_next_id eng'"
    if "job_lookup (en_jobs eng') jid \<noteq> None" for jid
  proof -
    have "\<exists>n. jid = job_id_of n \<and> (n < en_next_id eng \<or> n = en_next_id eng)"
      using that assms(2) unfolding l by (auto simp: engine_inv_def split: if_splits)
    then show ?thesis
      using u64_less_next [OF assms(3)] assms(1) by (auto simp: started_def Let_def)
  qed
  moreover have "job_lookup (en_jobs eng') jid \<noteq> None \<and> ce_signal entry < length (en_signals eng')"
    if "en_cancels eng' jid = Some entry" for jid entry
    using that assms(1,2) unfolding l
    by (cases "jid = job_id_of (en_next_id eng)") (auto simp: started_def Let_def engine_inv_def less_SucI)
  ultimately show "engine_inv eng'" by (simp add: engine_inv_def)
qed

lemma validate_job_capabilities_Inr:
  "validate_job_capabilities requested capabilities = Inr u \<longleftrightarrow>
     (\<forall>c \<in> set requested. \<exists>rc. cap_parse c = Inr rc \<and> cs_permits capabilities rc)"
  unfolding validate_job_capabilities_def check_each_Inr_iff
  by (auto simp: validate_job_capability_def rbind_Inr_iff split: if_splits)

lemma decode_code_payload_Inr:
  "decode_code_payload base64 code lang = Inr bytes \<longleftrightarrow>
     base64 code = Inr bytes \<and> lang \<in> {None, Some ''wasm-component''}"
  by (auto simp: decode_code_payload_def Let_def map_err_iff split: option.splits if_splits)

text \<open>The hooks of a job's command: those of the session's own policy.\<close>

lemma job_policy_hooks:
  assumes "policy_apply env (job_policy se runnable) [] = (hooks, Inr u)"
  shows "se_tier se = DevNone \<and> hooks = [] \<or>
    se_tier se = KernelLsm \<and>
    hooks = [LandlockHook (policy_rules env
        (build_sandbox_policy (se_tier se) (se_workspace se) (se_capabilities se))),
      SeccompHook denied_syscalls]"
proof -
  have tier: "sp_tier (job_policy se runnable) = se_tier se"
    by (simp add: job_policy_def Let_def build_sandbox_policy_sel split: runnable.split)
  have rules: "policy_rules env (job_policy se runnable) = policy_rules env
      (build_sandbox_policy (se_tier se) (se_workspace se) (se_capabilities se))"
    by (simp add: job_policy_def Let_def policy_rules_def split: runnable.split)
  show ?thesis
    using assms tier policy_apply_kernel [OF _ assms] rules
    by (cases "se_tier se") (auto simp: policy_apply_def)
qed

lemma start_work_hooks:
  assumes "start_work env eng se req cwd work" and "work = WProcess cmd"
  shows "se_tier se = DevNone \<and> cc_hooks cmd = [] \<or>
    se_tier se = KernelLsm \<and>
    cc_hooks cmd = [LandlockHook (policy_rules (sv_lsm env)
      (build_sandbox_policy (se_tier se) (se_workspace se) (se_capabilities se))),
      SeccompHook denied_syscalls]"
  using assms unfolding start_work_def by (cases "js_payload req") (auto dest!: job_policy_hooks)

section \<open>Properties\<close>

text \<open>C1: A job starts only with authority: when \<open>start\<close> returns an id, the session is live, its work runs in
  the directory the request's \<open>cwd\<close> resolves to, inside the workspace, the payload is granted
  (\<open>proc.spawn\<close> for a command, the tool or \<open>proc.spawn\<close> for a capability) and every capability listed
  is permitted. The task runs exactly the payload: the shell with the command as one argument, the resolved
  program (no shell), or the component with the session's grants, tier and workspace. A process has the
  hooks of the session's tier and grants; the listed capabilities do not enter them.\<close>

theorem start_is_authorized:
  assumes "engine_start env eng req = (eng', Inr jid)"
  shows "\<exists>se cwd task. am_lookup (en_sessions eng) (js_session_id req) = Some se \<and>
    resolve_cwd (sv_canonicalize env) (js_cwd req) (se_workspace se) = Inr cwd \<and>
    path_starts_with cwd (ws_root (se_workspace se)) \<and>
    (\<forall>c \<in> set (js_capabilities req). \<exists>rc. cap_parse c = Inr rc \<and> cs_permits (se_capabilities se) rc) \<and>
    en_tasks eng' = en_tasks eng @ [task] \<and> tk_job_id task = jid \<and>
    (case js_payload req of
       PCommand command \<Rightarrow> cs_permits (se_capabilities se) ProcSpawn \<and>
         (\<exists>hooks. tk_work task = WProcess \<lparr>cc_program = ''sh'', cc_args = [''-c'', command],
            cc_cwd = cwd, cc_hooks = hooks\<rparr>)
     | PCapability name params \<Rightarrow>
         (cs_permits (se_capabilities se) (Tool name) \<or> cs_permits (se_capabilities se) ProcSpawn) \<and>
         (\<exists>resolved hooks. registry_resolve (en_registry eng) name params = Inr resolved \<and>
            tk_work task = WProcess \<lparr>cc_program = rc_program resolved, cc_args = rc_args resolved,
              cc_cwd = cwd, cc_hooks = hooks\<rparr>)
     | PCode code lang \<Rightarrow> lang \<in> {None, Some ''wasm-component''} \<and>
         (\<exists>bytes interrupt cx. sv_base64 env code = Inr bytes \<and> tk_work task = WCode bytes interrupt cx \<and>
            cx_capabilities cx = se_capabilities se \<and> cx_tier cx = se_tier se \<and>
            cx_workspace cx = se_workspace se \<and> cx_cwd cx = cwd)) \<and>
    (\<forall>cmd. tk_work task = WProcess cmd \<longrightarrow>
       se_tier se = DevNone \<and> cc_hooks cmd = [] \<or>
       se_tier se = KernelLsm \<and>
       cc_hooks cmd = [LandlockHook (policy_rules (sv_lsm env)
         (build_sandbox_policy (se_tier se) (se_workspace se) (se_capabilities se))),
         SeccompHook denied_syscalls])"
proof -
  from engine_start_cases [OF assms] obtain se cwd work where
      se: "am_lookup (en_sessions eng) (js_session_id req) = Some se"
    and cwd: "resolve_cwd (sv_canonicalize env) (js_cwd req) (se_workspace se) = Inr cwd"
    and caps: "validate_job_capabilities (js_capabilities req) (se_capabilities se) = Inr ()"
    and st: "started env eng req cwd work eng'" and jid: "jid = job_id_of (en_next_id eng)"
    and work: "start_work env eng se req cwd work"
    by auto
  obtain task where task: "en_tasks eng' = en_tasks eng @ [task]" "tk_job_id task = jid" "tk_work task = work"
    using st jid by (auto simp: started_def Let_def split: prod.splits)
  have inside: "path_starts_with cwd (ws_root (se_workspace se))"
    using resolve_cwd_Inr [OF cwd] by (simp add: ws_contains_def)
  have granted: "\<forall>c \<in> set (js_capabilities req). \<exists>rc. cap_parse c = Inr rc \<and> cs_permits (se_capabilities se) rc"
    using caps by (simp add: validate_job_capabilities_Inr)
  note hooks = start_work_hooks [OF work]
  show ?thesis
    by (intro exI [of _ se] exI [of _ cwd] exI [of _ task] conjI se cwd inside granted task(1,2))
      (use work hooks task(3) in \<open>auto simp: start_work_def build_command_def tool_permitted_def decode_code_payload_Inr
        split: job_payload.splits\<close>)
qed

text \<open>A concrete engine with one session, and a request it accepts, for the witnesses.\<close>

definition wit_start_env :: start_env where
  "wit_start_env = \<lparr>sv_canonicalize = Inr, sv_lsm = wit_env, sv_spawn = (\<lambda>_. None), sv_runner = None,
     sv_base64 = (\<lambda>_. Inr []), sv_now = 5\<rparr>"

definition wit_engine :: "unit job_engine" where
  "wit_engine = engine_new (fst (store_open 0 am_empty (SessionId ''s'') \<lparr>ws_root = ''/w''\<rparr> DevNone
     (cs_new [ProcSpawn]) (CapToken ''t''))) job_store_new registry_new"

definition wit_request :: "unit job_start_request" where
  "wit_request = \<lparr>js_session_id = SessionId ''s'', js_cap_token = ''t'', js_payload = PCommand ''ls'',
     js_cwd = None, js_capabilities = []\<rparr>"

lemma wit_engine_inv: "engine_inv wit_engine"
  unfolding wit_engine_def
  by (rule engine_new_inv, rule store_open_lookup(2) [OF store_inv_empty surjective_pairing])

lemma wit_session: "am_lookup (en_sessions wit_engine) (SessionId ''s'') = Some (record_audit 0
    (session_new 0 (SessionId ''s'') \<lparr>ws_root = ''/w''\<rparr> DevNone (cs_new [ProcSpawn]) (CapToken ''t'')) SessionOpened)"
  using store_open_lookup(1) [OF store_inv_empty surjective_pairing, of 0 "SessionId ''s''"
      "\<lparr>ws_root = ''/w''\<rparr>" DevNone "cs_new [ProcSpawn]" "CapToken ''t''" "SessionId ''s''"]
  by (simp add: wit_engine_def engine_new_def)

lemma wit_start: "snd (engine_start wit_start_env wit_engine wit_request) = Inr (job_id_of 1)"
proof -
  let ?se = "record_audit 0 (session_new 0 (SessionId ''s'') \<lparr>ws_root = ''/w''\<rparr> DevNone
    (cs_new [ProcSpawn]) (CapToken ''t'')) SessionOpened"
  have "Option.bind (store_get (en_sessions wit_engine) (SessionId ''s'')) (am_read (en_sessions wit_engine)) = Some ?se"
    using wit_session by (simp add: am_lookup_def store_get_def)
  moreover have "snd (start_process wit_start_env wit_engine ?se wit_request (Shell ''ls'')) = Inr (job_id_of 1)"
  proof -
    have prep: "prepare_process wit_start_env ?se wit_request (Shell ''ls'') =
        Inr (''/w'', \<lparr>cc_program = ''sh'', cc_args = [''-c'', ''ls''], cc_cwd = ''/w'', cc_hooks = []\<rparr>)"
      by (simp add: prepare_process_def wit_request_def wit_start_env_def resolve_cwd_def Let_def
          ws_contains_def validate_job_capabilities_def build_command_def policy_apply_def
          job_policy_def build_sandbox_policy_sel)
    show ?thesis
      unfolding start_process_def prep
      by (simp add: insert_running_job_eq Let_def) (simp add: wit_engine_def engine_new_def)
  qed
  ultimately show ?thesis
    by (simp add: engine_start_def wit_request_def cs_permits_def cs_new_def)
qed

lemma wit_start_eq:
  "engine_start wit_start_env wit_engine wit_request =
     (fst (engine_start wit_start_env wit_engine wit_request), Inr (job_id_of 1))"
  using wit_start by (metis prod.collapse)

lemma start_is_authorized_witness:
  "\<exists>task cmd. en_tasks (fst (engine_start wit_start_env wit_engine wit_request)) = [task] \<and>
     tk_work task = WProcess cmd \<and> cc_args cmd = [''-c'', ''ls''] \<and> cc_hooks cmd = []"
proof -
  have "en_tasks wit_engine = []" by (simp add: wit_engine_def engine_new_def)
  then show ?thesis
    using start_is_authorized [OF wit_start_eq] wit_session
    by (force simp: wit_request_def)
qed

text \<open>C2: A job exists iff it started: a failed start leaves the engine exactly as it was; a
  successful one hands out a job id no job had before, adds that one job, running, with an empty log of
  the configured cap, lists it last under its session, gives it a cancel entry on a new signal, not yet
  sent, and writes one \<open>JobStarted\<close> entry to the audit log of its session; every other job, cancel
  entry, signal and session keeps its value. The engine's invariant holds again (up to the wrap-around of the 64-bit id counter).\<close>

theorem start_all_or_nothing:
  assumes "engine_inv eng" and "en_next_id eng \<noteq> - 1" and "engine_start env eng req = (eng', r)"
  shows "(\<exists>e. r = Inl e) \<and> eng' = eng \<or>
    (\<exists>jid job. r = Inr jid \<and> job_lookup (en_jobs eng) jid = None \<and>
      (\<forall>k. job_lookup (en_jobs eng') k = (if k = jid then Some job else job_lookup (en_jobs eng) k)) \<and>
      jb_status job = Running \<and> jb_session_id job = js_session_id req \<and> jb_payload job = js_payload req \<and>
      jb_replay_log job = mem_with_cap (en_log_byte_cap eng) \<and>
      (\<forall>sid. list_for_session (en_jobs eng') sid =
         list_for_session (en_jobs eng) sid @ (if sid = js_session_id req then [jid] else [])) \<and>
      (\<forall>k. en_cancels eng' k \<noteq> None \<longleftrightarrow> k = jid \<or> en_cancels eng k \<noteq> None) \<and>
      (\<forall>k. k \<noteq> jid \<longrightarrow> en_cancels eng' k = en_cancels eng k) \<and>
      (\<exists>entry. en_cancels eng' jid = Some entry \<and> ce_signal entry = length (en_signals eng)) \<and>
      en_signals eng' = en_signals eng @ [False] \<and>
      (\<forall>sid. am_lookup (en_sessions eng') sid =
         (if sid = js_session_id req
          then map_option (\<lambda>se. record_audit (sv_now env) se (JobStarted jid)) (am_lookup (en_sessions eng) sid)
          else am_lookup (en_sessions eng) sid)) \<and>
      engine_inv eng')"
proof -
  consider e where "r = Inl e" "eng' = eng"
    | cwd work where "r = Inr (job_id_of (en_next_id eng))" "started env eng req cwd work eng'"
    using engine_start_cases [OF assms(3)] by blast
  then show ?thesis
  proof cases
    case 2
    note jobs = started_jobs [OF 2(2) assms(1,2)]
    let ?jid = "job_id_of (en_next_id eng)"
    have sessions: "en_sessions eng' = audited_sessions (sv_now env) (en_sessions eng) (js_session_id req) (JobStarted ?jid)"
        and cancels: "\<exists>entry. en_cancels eng' ?jid = Some entry \<and> ce_signal entry = length (en_signals eng)"
          "k \<noteq> ?jid \<Longrightarrow> en_cancels eng' k = en_cancels eng k" "en_signals eng' = en_signals eng @ [False]" for k
      using 2(2) by (auto simp: started_def Let_def split: prod.splits)
    have "store_inv (en_sessions eng)" using assms(1) by (simp add: engine_inv_def)
    note audit = audited_sessions_lookup [OF this, of "sv_now env" "js_session_id req" "JobStarted ?jid", folded sessions]
    show ?thesis
      using 2(1) jobs engine_inv_fresh [OF assms(1)] cancels audit
      by (intro disjI2 exI [of _ ?jid] exI [of _ "registered_job (sv_now env) eng req cwd"] conjI allI)
        (auto, metis)
  qed simp
qed

lemma start_all_or_nothing_witness:
  "\<exists>job. job_lookup (en_jobs (fst (engine_start wit_start_env wit_engine wit_request))) (job_id_of 1) = Some job \<and>
     jb_status job = Running \<and> engine_inv (fst (engine_start wit_start_env wit_engine wit_request))"
proof -
  have "en_next_id wit_engine \<noteq> - 1" by (simp add: wit_engine_def engine_new_def)
  from start_all_or_nothing [OF wit_engine_inv this wit_start_eq] show ?thesis by auto
qed

lemma lookup_owned_Inr:
  "lookup_owned eng sid jid = Inr h \<longleftrightarrow> job_store_get (en_jobs eng) jid = Some h \<and>
     (\<exists>job. job_lookup (en_jobs eng) jid = Some job \<and> jb_session_id job = sid)"
proof (cases "job_store_get (en_jobs eng) jid")
  case (Some g)
  then have "job_lookup (en_jobs eng) jid = job_read (en_jobs eng) g"
    by (simp add: job_lookup_def am_lookup_def job_store_get_def job_read_def)
  then show ?thesis using Some by (auto simp: lookup_owned_def split: option.splits)
qed (simp add: lookup_owned_def)

lemma lookup_owned_Inl: "lookup_owned eng sid jid = Inl e \<Longrightarrow> e = JobNotFound jid"
  by (auto simp: lookup_owned_def result_simps split: option.splits if_splits)

text \<open>Cancelling an owned job that still has its cancel entry.\<close>

lemma cancel_owned_entry:
  assumes "engine_inv eng" and "lookup_owned eng sid jid = Inr h" and "en_cancels eng jid = Some entry"
    and "engine_cancel eng \<lparr>jc_session_id = sid, jc_cap_token = tok, jc_job_id = jid\<rparr> = (eng', r)"
  shows "r = Inr \<lparr>jcr_ok = True\<rparr> \<and> en_cancels eng' = (en_cancels eng)(jid := None) \<and>
    en_signals eng' ! ce_signal entry \<and> en_jobs eng' = en_jobs eng \<and> en_sessions eng' = en_sessions eng \<and>
    engine_inv eng' \<and>
    engine_cancel eng' \<lparr>jc_session_id = sid, jc_cap_token = tok, jc_job_id = jid\<rparr> = (eng', Inr \<lparr>jcr_ok = False\<rparr>)"
proof -
  have k: "ce_signal entry < length (en_signals eng)" using assms(1,3) by (auto simp: engine_inv_def)
  have kill: "kill_job eng jid = (eng', Inr ())" and r: "r = Inr \<lparr>jcr_ok = True\<rparr>"
    using assms(2-4) by (auto simp: engine_cancel_def kill_job_def)
  have eng': "en_cancels eng' = (en_cancels eng)(jid := None)" "en_signals eng' ! ce_signal entry"
      "length (en_signals eng') = length (en_signals eng)"
      "en_jobs eng' = en_jobs eng" "en_sessions eng' = en_sessions eng" "en_next_id eng' = en_next_id eng"
    using kill assms(3) k by (auto simp: kill_job_def set_cell_def)
  then have "engine_inv eng'" using assms(1) by (auto simp: engine_inv_def)
  moreover have "lookup_owned eng' sid jid = Inr h" using assms(2) eng'(4) by (simp add: lookup_owned_def)
  then have "engine_cancel eng' \<lparr>jc_session_id = sid, jc_cap_token = tok, jc_job_id = jid\<rparr> = (eng', Inr \<lparr>jcr_ok = False\<rparr>)"
    using eng'(1) by (simp add: engine_cancel_def kill_job_def)
  ultimately show ?thesis using r eng' by simp
qed

text \<open>C17: Cancelling is confined to the owner and happens once: for a job that is unknown or belongs to
  another session \<open>cancel\<close> answers "not found" and changes nothing; for an owned job with a cancel
  entry it answers \<open>ok\<close>, takes that entry away, sends its signal and leaves every job, session and
  other entry alone; for an owned job without one it answers \<open>ok: false\<close> and changes nothing, so a
  second cancel never signals again.\<close>

theorem cancel_owned_once:
  assumes "engine_inv eng" and "engine_cancel eng \<lparr>jc_session_id = sid, jc_cap_token = tok, jc_job_id = jid\<rparr> = (eng', r)"
  shows "(case job_lookup (en_jobs eng) jid of
      None \<Rightarrow> r = Inl (JobNotFound jid) \<and> eng' = eng
    | Some job \<Rightarrow>
        if jb_session_id job \<noteq> sid then r = Inl (JobNotFound jid) \<and> eng' = eng
        else case en_cancels eng jid of
          None \<Rightarrow> r = Inr \<lparr>jcr_ok = False\<rparr> \<and> eng' = eng
        | Some entry \<Rightarrow> r = Inr \<lparr>jcr_ok = True\<rparr> \<and>
            en_cancels eng' = (en_cancels eng)(jid := None) \<and> en_signals eng' ! ce_signal entry \<and>
            en_jobs eng' = en_jobs eng \<and> en_sessions eng' = en_sessions eng \<and> engine_inv eng' \<and>
            engine_cancel eng' \<lparr>jc_session_id = sid, jc_cap_token = tok, jc_job_id = jid\<rparr> =
              (eng', Inr \<lparr>jcr_ok = False\<rparr>))"
proof (cases "job_lookup (en_jobs eng) jid")
  case None
  then have "lookup_owned eng sid jid = Inl (JobNotFound jid)"
    using lookup_owned_Inr [of eng sid jid] lookup_owned_Inl [of eng sid jid]
    by (cases "lookup_owned eng sid jid") auto
  then show ?thesis using assms(2) None by (auto simp: engine_cancel_def)
next
  case (Some job)
  show ?thesis
  proof (cases "jb_session_id job = sid")
    case False
    then have "lookup_owned eng sid jid = Inl (JobNotFound jid)"
      using Some lookup_owned_Inr [of eng sid jid] lookup_owned_Inl [of eng sid jid]
      by (cases "lookup_owned eng sid jid") auto
    then show ?thesis using assms(2) Some False by (auto simp: engine_cancel_def)
  next
    case True
    obtain h where "job_store_get (en_jobs eng) jid = Some h"
      using Some by (cases "am_get (st_jobs (en_jobs eng)) jid") (simp_all add: job_lookup_def am_lookup_def job_store_get_def)
    then have own: "lookup_owned eng sid jid = Inr h" using lookup_owned_Inr [of eng sid jid h] Some True by blast
    show ?thesis
    proof (cases "en_cancels eng jid")
      case None
      then show ?thesis using assms(2) Some True own by (simp add: engine_cancel_def kill_job_def)
    next
      case (Some entry)
      then show ?thesis
        using \<open>job_lookup (en_jobs eng) jid = Some job\<close> True cancel_owned_entry [OF assms(1) own Some assms(2)] by simp
    qed
  qed
qed

lemma wit_started:
  "\<exists>eng' job. engine_start wit_start_env wit_engine wit_request = (eng', Inr (job_id_of 1)) \<and> engine_inv eng' \<and>
     job_lookup (en_jobs eng') (job_id_of 1) = Some job \<and> jb_session_id job = SessionId ''s'' \<and>
     (\<exists>entry. en_cancels eng' (job_id_of 1) = Some entry) \<and>
     list_for_session (en_jobs eng') (SessionId ''s'') = [job_id_of 1]"
proof -
  have n: "en_next_id wit_engine = 1" "list_for_session (en_jobs wit_engine) (SessionId ''s'') = []"
    by (simp_all add: wit_engine_def engine_new_def list_for_session_def job_store_new_def)
  obtain eng' where w: "engine_start wit_start_env wit_engine wit_request = (eng', Inr (job_id_of 1))"
    using wit_start_eq by blast
  obtain cwd work where st: "started wit_start_env wit_engine wit_request cwd work eng'"
    using engine_start_cases [OF w] by auto
  have "(1 :: u64) \<noteq> - 1" by simp
  from started_jobs [OF st wit_engine_inv] this n
  have "engine_inv eng'" "job_lookup (en_jobs eng') (job_id_of 1) =
        Some (registered_job (sv_now wit_start_env) wit_engine wit_request cwd)"
      "list_for_session (en_jobs eng') (SessionId ''s'') = [job_id_of 1]"
    by (simp_all add: wit_request_def)
  moreover have "\<exists>entry. en_cancels eng' (job_id_of 1) = Some entry"
    using st n by (auto simp: started_def Let_def split: prod.splits)
  moreover have "jb_session_id (registered_job (sv_now wit_start_env) wit_engine wit_request cwd) = SessionId ''s''"
    by (simp add: wit_request_def)
  ultimately show ?thesis using w by blast
qed

lemma cancel_owned_once_witness:
  "\<exists>eng eng' eng'' :: unit job_engine.
     engine_cancel eng \<lparr>jc_session_id = SessionId ''s'', jc_cap_token = ''t'', jc_job_id = job_id_of 1\<rparr> =
       (eng', Inr \<lparr>jcr_ok = True\<rparr>) \<and>
     engine_cancel eng' \<lparr>jc_session_id = SessionId ''s'', jc_cap_token = ''t'', jc_job_id = job_id_of 1\<rparr> =
       (eng'', Inr \<lparr>jcr_ok = False\<rparr>) \<and>
     engine_cancel eng \<lparr>jc_session_id = SessionId ''x'', jc_cap_token = ''t'', jc_job_id = job_id_of 1\<rparr> =
       (eng, Inl (JobNotFound (job_id_of 1)))"
proof -
  obtain eng :: "unit job_engine" and job entry where w: "engine_inv eng"
      "job_lookup (en_jobs eng) (job_id_of 1) = Some job" "jb_session_id job = SessionId ''s''"
      "en_cancels eng (job_id_of 1) = Some entry"
    using wit_started by blast
  obtain eng' r where c: "engine_cancel eng \<lparr>jc_session_id = SessionId ''s'', jc_cap_token = ''t'',
      jc_job_id = job_id_of 1\<rparr> = (eng', r)" by fastforce
  obtain eng2 r2 where c2: "engine_cancel eng \<lparr>jc_session_id = SessionId ''x'', jc_cap_token = ''t'',
      jc_job_id = job_id_of 1\<rparr> = (eng2, r2)" by fastforce
  show ?thesis
    using cancel_owned_once [OF w(1) c] cancel_owned_once [OF w(1) c2] w c c2 by auto
qed

lemma cancel_jobs_eq:
  assumes "distinct jids" and "\<forall>jid \<in> set jids. \<forall>entry. en_cancels eng jid = Some entry \<longrightarrow>
      ce_signal entry < length (en_signals eng)"
    and "cancel_jobs eng jids n = (eng', m)"
  shows "m = n + length (filter (\<lambda>j. en_cancels eng j \<noteq> None) jids) \<and>
    en_cancels eng' = (\<lambda>j. if j \<in> set jids then None else en_cancels eng j) \<and>
    en_jobs eng' = en_jobs eng \<and> en_sessions eng' = en_sessions eng \<and>
    length (en_signals eng') = length (en_signals eng) \<and>
    (\<forall>k. en_signals eng ! k \<longrightarrow> k < length (en_signals eng) \<longrightarrow> en_signals eng' ! k) \<and>
    (\<forall>jid \<in> set jids. \<forall>entry. en_cancels eng jid = Some entry \<longrightarrow> en_signals eng' ! ce_signal entry)"
  using assms
proof (induction jids arbitrary: eng n)
  case Nil
  then show ?case by auto
next
  case (Cons j jids)
  show ?case
  proof (cases "en_cancels eng j")
    case None
    then have "kill_job eng j = (eng, Inl (JobNotFound j))" by (simp add: kill_job_def)
    then have "cancel_jobs eng jids n = (eng', m)" using Cons.prems(3) by simp
    from Cons.IH [OF _ _ this] Cons.prems(1,2) None show ?thesis by (auto simp: fun_eq_iff)
  next
    case (Some entry)
    obtain eng1 where k: "kill_job eng j = (eng1, Inr ())"
      using Some by (simp add: kill_job_def)
    have e1: "en_cancels eng1 = (en_cancels eng)(j := None)" "en_jobs eng1 = en_jobs eng"
        "en_sessions eng1 = en_sessions eng" "en_signals eng1 = (en_signals eng)[ce_signal entry := True]"
      using k Some by (auto simp: kill_job_def set_cell_def)
    have "cancel_jobs eng1 jids (n + 1) = (eng', m)" using Cons.prems(3) k by simp
    from Cons.IH [OF _ _ this] Cons.prems(1,2) e1 have IH:
      "m = n + 1 + length (filter (\<lambda>i. en_cancels eng1 i \<noteq> None) jids)"
      "en_cancels eng' = (\<lambda>i. if i \<in> set jids then None else en_cancels eng1 i)"
      "en_jobs eng' = en_jobs eng" "en_sessions eng' = en_sessions eng"
      "length (en_signals eng') = length (en_signals eng)"
      "\<And>k. en_signals eng1 ! k \<Longrightarrow> k < length (en_signals eng) \<Longrightarrow> en_signals eng' ! k"
      "\<And>jid entry. jid \<in> set jids \<Longrightarrow> en_cancels eng1 jid = Some entry \<Longrightarrow> en_signals eng' ! ce_signal entry"
      by auto
    have "filter (\<lambda>i. en_cancels eng1 i \<noteq> None) jids = filter (\<lambda>i. en_cancels eng i \<noteq> None) jids"
      using Cons.prems(1) e1(1) by (intro filter_cong) auto
    moreover have "en_signals eng' ! ce_signal entry"
      using IH(6) [of "ce_signal entry"] e1(4) Cons.prems(2) Some by simp
    moreover have "en_signals eng' ! k" if "en_signals eng ! k" "k < length (en_signals eng)" for k
      using IH(6) [of k] that unfolding e1(4) by (cases "k = ce_signal entry") simp_all
    moreover have "en_signals eng' ! ce_signal en" if "i \<in> set jids" "en_cancels eng i = Some en" for i en
    proof -
      have "i \<noteq> j" using that(1) Cons.prems(1) by auto
      then show ?thesis using IH(7) [of i en] that e1(1) by simp
    qed
    ultimately show ?thesis
      using IH Some Cons.prems(1) e1(1) by (auto simp: fun_eq_iff)
  qed
qed

text \<open>Cancelling for a session reaches all of its jobs and nothing else: every job of the session
  that still has a cancel entry is signalled and loses it, their number is returned, and the entries
  of other sessions' jobs, all jobs and all sessions are unchanged.\<close>

theorem cancel_for_session_reaches_all:
  assumes "engine_inv eng" and "cancel_for_session eng sid = (eng', n)"
  shows "n = length (filter (\<lambda>j. en_cancels eng j \<noteq> None) (list_for_session (en_jobs eng) sid)) \<and>
    en_jobs eng' = en_jobs eng \<and> en_sessions eng' = en_sessions eng \<and>
    (\<forall>jid job. job_lookup (en_jobs eng) jid = Some job \<longrightarrow>
      (if jb_session_id job = sid
       then en_cancels eng' jid = None \<and>
         (\<forall>entry. en_cancels eng jid = Some entry \<longrightarrow> en_signals eng' ! ce_signal entry)
       else en_cancels eng' jid = en_cancels eng jid))"
proof -
  let ?jids = "list_for_session (en_jobs eng) sid"
  have own: "jid \<in> set ?jids \<longleftrightarrow> jb_session_id job = sid" if "job_lookup (en_jobs eng) jid = Some job" for jid job
    using assms(1) that by (auto simp: engine_inv_def job_store_inv_def)
  have "distinct ?jids" using assms(1) by (simp add: engine_inv_def job_store_inv_def)
  moreover have "\<forall>jid \<in> set ?jids. \<forall>entry. en_cancels eng jid = Some entry \<longrightarrow>
      ce_signal entry < length (en_signals eng)"
    using assms(1) by (auto simp: engine_inv_def)
  moreover have "cancel_jobs eng ?jids 0 = (eng', n)" using assms(2) by (simp add: cancel_for_session_def)
  ultimately have "n = length (filter (\<lambda>j. en_cancels eng j \<noteq> None) ?jids)"
      "en_cancels eng' = (\<lambda>j. if j \<in> set ?jids then None else en_cancels eng j)"
      "en_jobs eng' = en_jobs eng" "en_sessions eng' = en_sessions eng"
      "\<forall>jid \<in> set ?jids. \<forall>entry. en_cancels eng jid = Some entry \<longrightarrow> en_signals eng' ! ce_signal entry"
    using cancel_jobs_eq [of ?jids eng 0 eng' n] by simp_all
  then show ?thesis using own by auto
qed

lemma cancel_for_session_reaches_all_witness:
  "\<exists>eng eng' :: unit job_engine. cancel_for_session eng (SessionId ''s'') = (eng', 1) \<and> en_cancels eng' (job_id_of 1) = None"
proof -
  obtain eng :: "unit job_engine" and job entry where w: "engine_inv eng"
      "job_lookup (en_jobs eng) (job_id_of 1) = Some job" "jb_session_id job = SessionId ''s''"
      "en_cancels eng (job_id_of 1) = Some entry"
      "list_for_session (en_jobs eng) (SessionId ''s'') = [job_id_of 1]"
    using wit_started by blast
  obtain eng' n where c: "cancel_for_session eng (SessionId ''s'') = (eng', n)" by fastforce
  have "n = 1" "en_cancels eng' (job_id_of 1) = None"
    using cancel_for_session_reaches_all [OF w(1) c] w by simp_all
  then show ?thesis using c by blast
qed

end
