(* ===== verification/Job_Lifecycle.thy ===== *)
theory Job_Lifecycle
  imports Engine
begin

text \<open>
  The life of the engine's jobs under every interleaving of its threads: the atomic sections of
  \<open>JobEngine::start\<close>, of the drainer tasks and of \<open>finish_job\<close> are the steps of a transition
  system, together with \<open>cancel\<close>, \<open>cancel_for_session\<close>, \<open>SessionStore::open\<close> and
  \<open>close\<close> called from anywhere. A lock is held within one step only, as in the source. The
  program point each job's threads have reached is kept beside the engine.
\<close>

section \<open>The atomic sections of start\<close>

definition register_cancel :: "'j job_engine \<Rightarrow> job_id \<Rightarrow> nat option \<Rightarrow> nat option \<Rightarrow> 'j job_engine" where
  "register_cancel eng jid interrupt host_cancel =
     eng\<lparr>en_signals := en_signals eng @ [False],
       en_cancels := (en_cancels eng)(jid := Some
         \<lparr>ce_signal = length (en_signals eng), ce_code_interrupt = interrupt,
          ce_host_capability_cancel = host_cancel\<rparr>)\<rparr>"

text \<open>The flags a code job shares with its runner and its host handler.\<close>

definition new_flags :: "'j job_engine \<Rightarrow> 'j job_engine" where
  "new_flags eng = eng\<lparr>en_host_cancels := en_host_cancels eng @ [False],
     en_interrupts := en_interrupts eng @ [False]\<rparr>"

definition spawn_task :: "'j job_engine \<Rightarrow> job_task \<Rightarrow> 'j job_engine" where
  "spawn_task eng task = eng\<lparr>en_tasks := en_tasks eng @ [task]\<rparr>"

text \<open>\<open>start\<close> is these sections in this order, once nothing can fail any more.\<close>

lemma start_process_sections:
  assumes "prepare_process env se req runnable = Inr (cwd, cmd)"
  shows "start_process env eng se req runnable =
    (let (eng1, jid, h) = insert_running_job (sv_now env) eng req cwd;
         eng2 = register_cancel eng1 jid None None;
         eng3 = record_session_audit (sv_now env) eng2 (js_session_id req) (JobStarted jid) in
     (spawn_task eng3 \<lparr>tk_job_id = jid, tk_session_id = js_session_id req, tk_handle = h,
        tk_signal = length (en_signals eng1), tk_work = WProcess cmd\<rparr>, Inr jid))"
  by (simp add: start_process_def assms register_cancel_def spawn_task_def Let_def split: prod.splits)

lemma start_code_job_sections:
  assumes "sv_runner env = None"
  shows "start_code_job env eng se req cwd bytes =
    (let eng0 = new_flags eng;
         (eng1, jid, h) = insert_running_job (sv_now env) eng0 req cwd;
         eng2 = register_cancel eng1 jid (Some (length (en_interrupts eng))) (Some (length (en_host_cancels eng)));
         eng3 = record_session_audit (sv_now env) eng2 (js_session_id req) (JobStarted jid) in
     (spawn_task eng3 \<lparr>tk_job_id = jid, tk_session_id = js_session_id req, tk_handle = h,
        tk_signal = length (en_signals eng1), tk_work = WCode bytes (length (en_interrupts eng))
          \<lparr>cx_capabilities = se_capabilities se, cx_workspace = se_workspace se, cx_tier = se_tier se,
           cx_cwd = cwd, cx_stdout_byte_cap = en_log_byte_cap eng, cx_cancel = length (en_host_cancels eng)\<rparr>\<rparr>,
      Inr jid))"
  by (simp add: start_code_job_def assms new_flags_def register_cancel_def spawn_task_def Let_def split: prod.splits)

section \<open>Updates through a handle\<close>

definition update_job :: "('j job \<Rightarrow> 'j job) \<Rightarrow> 'j job_store \<Rightarrow> nat \<Rightarrow> 'j job_store" where
  "update_job f jobs h = (case job_read jobs h of None \<Rightarrow> jobs | Some job \<Rightarrow> job_write jobs h (f job))"

definition same_job :: "('j job \<Rightarrow> 'j job) \<Rightarrow> bool" where
  "same_job f \<longleftrightarrow> (\<forall>job. jb_id (f job) = jb_id job \<and> jb_session_id (f job) = jb_session_id job)"

lemma push_log_update:
  "fst (push_log now jobs h stream data) = update_job (\<lambda>job. job\<lparr>jb_replay_log :=
     fst (mem_append (jb_replay_log job) \<lparr>ap_stream = stream, ap_data = data, ap_timestamp = now\<rparr>)\<rparr>) jobs h"
  by (simp add: push_log_def update_job_def split: option.split prod.split sum.split)

lemma finish_write_update:
  "finish_write now eng h st = eng\<lparr>en_jobs :=
     update_job (\<lambda>job. job\<lparr>jb_status := st, jb_finished_at := Some now\<rparr>) (en_jobs eng) h\<rparr>"
  by (simp add: finish_write_def update_job_def split: option.split)

lemma finish_notify_update:
  "finish_notify eng h = eng\<lparr>en_jobs := update_job (\<lambda>job. job\<lparr>jb_replay_log :=
     (jb_replay_log job)\<lparr>ml_notify := Suc (ml_notify (jb_replay_log job))\<rparr>\<rparr>) (en_jobs eng) h\<rparr>"
  by (simp add: finish_notify_def update_job_def split: option.split)

lemma update_job_frame [simp]:
  "job_store_get (update_job f jobs h) jid = job_store_get jobs jid"
  "list_for_session (update_job f jobs h) sid = list_for_session jobs sid"
  by (simp_all add: update_job_def split: option.split)

lemma update_job_lookup:
  assumes "job_store_inv jobs" and "job_store_get jobs jid = Some h"
  shows "job_lookup (update_job f jobs h) jid' =
    (if jid' = jid then map_option f (job_lookup jobs jid) else job_lookup jobs jid')"
proof -
  have "am_inv (st_jobs jobs)" using assms(1) by (simp add: job_store_inv_def)
  then obtain job where job: "job_read jobs h = Some job" "job_lookup jobs jid = Some job"
    using arc.get_deref [of "st_jobs jobs" jid h] assms(2)
    by (auto simp: job_store_get_def job_read_def job_lookup_def am_lookup_def)
  then show ?thesis using job_write_lookup [OF assms] by (simp add: update_job_def)
qed

lemma update_job_inv:
  assumes "job_store_inv jobs" and "job_store_get jobs jid = Some h" and "same_job f"
  shows "job_store_inv (update_job f jobs h)"
proof -
  have "am_inv (st_jobs jobs)" using assms(1) by (simp add: job_store_inv_def)
  then obtain job where job: "job_read jobs h = Some job" "job_lookup jobs jid = Some job"
    using arc.get_deref [of "st_jobs jobs" jid h] assms(2)
    by (auto simp: job_store_get_def job_read_def job_lookup_def am_lookup_def)
  then show ?thesis
    using job_write_inv [OF assms(1,2) job(2), of "f job"] assms(3) by (simp add: update_job_def same_job_def)
qed

lemma update_job_engine_inv:
  assumes "engine_inv eng" and "job_store_get (en_jobs eng) jid = Some h" and "same_job f"
  shows "engine_inv (eng\<lparr>en_jobs := update_job f (en_jobs eng) h\<rparr>)"
proof -
  have inv: "job_store_inv (en_jobs eng)" using assms(1) by (simp add: engine_inv_def)
  then show ?thesis
    using assms(1) update_job_inv [OF inv assms(2,3)]
    by (auto simp: engine_inv_def update_job_lookup [OF inv assms(2)])
qed

section \<open>Program points and steps\<close>

text \<open>
  \<open>PInserted\<close> and \<open>PRegistered\<close> are points of \<open>start\<close>, \<open>PActive\<close> is the running
  task, the others are the points of \<open>finish_job\<close>, with the status being written.
\<close>

datatype program_point =
  PInserted
| PRegistered
| PActive
| PWritten job_status
| PNotified job_status
| PAudited job_status
| PDone job_status

primrec final_status :: "program_point \<Rightarrow> job_status option" where
  "final_status PInserted = None"
| "final_status PRegistered = None"
| "final_status PActive = None"
| "final_status (PWritten st) = Some st"
| "final_status (PNotified st) = Some st"
| "final_status (PAudited st) = Some st"
| "final_status (PDone st) = Some st"

record 'j world =
  wd_engine :: "'j job_engine"
  wd_point :: "job_id \<Rightarrow> (program_point \<times> session_id \<times> nat) option"

definition at_point :: "'j world \<Rightarrow> job_id \<Rightarrow> program_point \<Rightarrow> session_id \<Rightarrow> nat \<Rightarrow> bool" where
  "at_point w jid p sid h \<longleftrightarrow> wd_point w jid = Some (p, sid, h)"

definition advance :: "'j world \<Rightarrow> 'j job_engine \<Rightarrow> job_id \<Rightarrow> program_point \<Rightarrow> session_id \<Rightarrow> nat \<Rightarrow> 'j world" where
  "advance w eng jid p sid h = w\<lparr>wd_engine := eng, wd_point := (wd_point w)(jid := Some (p, sid, h))\<rparr>"

lemma advance_stay: "at_point w jid p sid h \<Longrightarrow> advance w eng jid p sid h = w\<lparr>wd_engine := eng\<rparr>"
  by (cases w) (auto simp: at_point_def advance_def fun_upd_idem)

inductive job_step :: "'j world \<Rightarrow> 'j world \<Rightarrow> bool" where
  js_insert:
    "en_next_id (wd_engine w) \<noteq> - 1 \<Longrightarrow> insert_running_job now (wd_engine w) req cwd = (eng, jid, h) \<Longrightarrow>
     job_step w (advance w eng jid PInserted (js_session_id req) h)"
| js_register:
    "at_point w jid PInserted sid h \<Longrightarrow>
     job_step w (advance w (register_cancel (wd_engine w) jid interrupt host) jid PRegistered sid h)"
| js_started:
    "at_point w jid PRegistered sid h \<Longrightarrow>
     job_step w (advance w (spawn_task (record_session_audit now (wd_engine w) sid (JobStarted jid)) task)
       jid PActive sid h)"
| js_log:
    "at_point w jid PActive sid h \<Longrightarrow>
     job_step w (w\<lparr>wd_engine := (wd_engine w)\<lparr>en_jobs :=
       fst (push_log now (en_jobs (wd_engine w)) h stream data)\<rparr>\<rparr>)"
| js_write:
    "at_point w jid PActive sid h \<Longrightarrow> status_is_terminal st \<Longrightarrow>
     job_step w (advance w (finish_write now (wd_engine w) h st) jid (PWritten st) sid h)"
| js_notify:
    "at_point w jid (PWritten st) sid h \<Longrightarrow>
     job_step w (advance w (finish_notify (wd_engine w) h) jid (PNotified st) sid h)"
| js_audit:
    "at_point w jid (PNotified st) sid h \<Longrightarrow>
     job_step w (advance w (record_session_audit now (wd_engine w) sid (JobFinished jid (status_to_proto st)))
       jid (PAudited st) sid h)"
| js_remove:
    "at_point w jid (PAudited st) sid h \<Longrightarrow>
     job_step w (advance w (finish_remove (wd_engine w) jid) jid (PDone st) sid h)"
| js_flags:
    "job_step w (w\<lparr>wd_engine := new_flags (wd_engine w)\<rparr>)"
| js_cancel:
    "engine_cancel (wd_engine w) req = (eng, r) \<Longrightarrow> job_step w (w\<lparr>wd_engine := eng\<rparr>)"
| js_cancel_session:
    "cancel_for_session (wd_engine w) sid = (eng, n) \<Longrightarrow> job_step w (w\<lparr>wd_engine := eng\<rparr>)"
| js_open:
    "store_open now (en_sessions (wd_engine w)) sid ws tier caps tok = (sessions, h) \<Longrightarrow>
     job_step w (w\<lparr>wd_engine := (wd_engine w)\<lparr>en_sessions := sessions\<rparr>\<rparr>)"
| js_close:
    "store_close now (en_sessions (wd_engine w)) sid = (sessions, r) \<Longrightarrow>
     job_step w (w\<lparr>wd_engine := (wd_engine w)\<lparr>en_sessions := sessions\<rparr>\<rparr>)"

inductive_cases job_stepE: "job_step w w'"

definition world_new :: "'j provider_registry \<Rightarrow> nat \<Rightarrow> 'j world" where
  "world_new registry cap =
     \<lparr>wd_engine = with_log_byte_cap (engine_new am_empty job_store_new registry) cap,
      wd_point = (\<lambda>_. None)\<rparr>"

inductive job_reachable :: "'j world \<Rightarrow> bool" where
  jr_new: "job_reachable (world_new registry cap)"
| jr_step: "job_reachable w \<Longrightarrow> job_step w w' \<Longrightarrow> job_reachable w'"

section \<open>The invariant\<close>

text \<open>What a session's audit log says of one job.\<close>

definition about :: "job_id \<Rightarrow> audit_event list \<Rightarrow> audit_event_kind list" where
  "about jid evs = filter (\<lambda>k. k = JobStarted jid \<or> (\<exists>st. k = JobFinished jid st)) (map ae_kind evs)"

definition audit_shape :: "job_id \<Rightarrow> program_point option \<Rightarrow> audit_event_kind list \<Rightarrow> bool" where
  "audit_shape jid p ks \<longleftrightarrow>
     (case p of
        None \<Rightarrow> ks = []
      | Some q \<Rightarrow>
          ks = [] \<or>
          q \<notin> {PInserted, PRegistered} \<and> ks = [JobStarted jid] \<or>
          (\<exists>st. q \<in> {PAudited st, PDone st} \<and>
             (ks = [JobFinished jid (status_to_proto st)] \<or>
              ks = [JobStarted jid, JobFinished jid (status_to_proto st)])))"

text \<open>A job's log: numbered from 0 (modulo the wrap-around of \<open>Seq\<close>), its bytes counted and capped.\<close>

definition log_ok :: "nat \<Rightarrow> mem_log \<Rightarrow> bool" where
  "log_ok cap l \<longleftrightarrow> (\<forall>i < length (ml_events l). ev_seq (ml_events l ! i) = of_nat i) \<and>
     ml_byte_total l = data_total (ml_events l) \<and> ml_byte_total l \<le> cap \<and> ml_byte_cap l = cap"

definition point_ok :: "'j job_engine \<Rightarrow> job_id \<Rightarrow> program_point \<Rightarrow> session_id \<Rightarrow> nat \<Rightarrow> bool" where
  "point_ok eng jid p sid h \<longleftrightarrow>
     job_store_get (en_jobs eng) jid = Some h \<and>
     (\<exists>job. job_lookup (en_jobs eng) jid = Some job \<and> jb_session_id job = sid \<and>
        log_ok (en_log_byte_cap eng) (jb_replay_log job) \<and>
        (case final_status p of None \<Rightarrow> jb_status job = Running
         | Some st \<Rightarrow> jb_status job = st \<and> status_is_terminal st)) \<and>
     (p = PInserted \<longrightarrow> en_cancels eng jid = None) \<and>
     (\<forall>st. p = PDone st \<longrightarrow> en_cancels eng jid = None)"

text \<open>The program point of a job, for the session that owns it.\<close>

definition seen_point :: "'j world \<Rightarrow> session_id \<Rightarrow> job_id \<Rightarrow> program_point option" where
  "seen_point w sid jid = (case wd_point w jid of
     Some (p, owner, h) \<Rightarrow> if owner = sid then Some p else None | None \<Rightarrow> None)"

lemma seen_point_simps [simp]:
  "seen_point (w\<lparr>wd_engine := eng\<rparr>) s k = seen_point w s k"
  "seen_point (advance w eng jid p sid h) s k =
     (if k = jid then if s = sid then Some p else None else seen_point w s k)"
  "wd_point w k = None \<Longrightarrow> seen_point w s k = None"
  "at_point w k p sid h \<Longrightarrow> seen_point w s k = (if s = sid then Some p else None)"
  by (simp_all add: seen_point_def advance_def at_point_def)

lemma advance_sel [simp]:
  "wd_engine (advance w eng jid p sid h) = eng"
  "wd_point (advance w eng jid p sid h) k = (if k = jid then Some (p, sid, h) else wd_point w k)"
  by (simp_all add: advance_def)

definition world_inv :: "'j world \<Rightarrow> bool" where
  "world_inv w \<longleftrightarrow> engine_inv (wd_engine w) \<and>
     (\<forall>jid. wd_point w jid = None \<longrightarrow> job_lookup (en_jobs (wd_engine w)) jid = None) \<and>
     (\<forall>jid p sid h. wd_point w jid = Some (p, sid, h) \<longrightarrow> point_ok (wd_engine w) jid p sid h) \<and>
     (\<forall>sid se jid. am_lookup (en_sessions (wd_engine w)) sid = Some se \<longrightarrow>
        audit_shape jid (seen_point w sid jid) (about jid (se_audit_events se)))"

lemma about_append [simp]:
  "about jid (evs @ [e]) = about jid evs @
     (if ae_kind e = JobStarted jid \<or> (\<exists>st. ae_kind e = JobFinished jid st) then [ae_kind e] else [])"
  by (simp add: about_def)

lemma about_Nil [simp]: "about jid [] = []"
  by (simp add: about_def)

lemma world_new_inv: "world_inv (world_new registry cap)"
proof -
  have "engine_inv (engine_new am_empty job_store_new registry)" by (rule engine_new_inv) simp
  then show ?thesis
    by (simp add: world_inv_def world_new_def with_log_byte_cap_def engine_inv_def engine_new_def
        job_lookup_def job_store_new_def)
qed

section \<open>Every step keeps the invariant\<close>

lemma log_ok_append: "log_ok cap l \<Longrightarrow> log_ok cap (fst (mem_append l e))"
  using mem_append_cases [OF surjective_pairing, of l e]
  by (auto simp: log_ok_def mem_next_seq_def nth_append less_Suc_eq)

lemma insert_running_job_inv:
  assumes "engine_inv eng" and "en_next_id eng \<noteq> - 1"
    and "insert_running_job now eng req cwd = (eng', jid, h)"
  shows "engine_inv eng'" and "jid = job_id_of (en_next_id eng)" and "job_lookup (en_jobs eng) jid = None"
    and "job_lookup (en_jobs eng') k =
      (if k = jid then Some (registered_job now eng req cwd) else job_lookup (en_jobs eng) k)"
    and "job_store_get (en_jobs eng') k = (if k = jid then Some h else job_store_get (en_jobs eng) k)"
    and "en_cancels eng' = en_cancels eng" and "en_sessions eng' = en_sessions eng"
    and "en_log_byte_cap eng' = en_log_byte_cap eng"
proof -
  obtain jobs h' where ins: "job_store_insert (en_jobs eng) (registered_job now eng req cwd) = (jobs, h')" by fastforce
  have eng': "eng' = eng\<lparr>en_next_id := en_next_id eng + 1, en_jobs := jobs\<rparr>" and h: "h' = h"
    and jid: "jid = job_id_of (en_next_id eng)"
    using assms(3) by (simp_all add: insert_running_job_eq ins)
  have inv: "job_store_inv (en_jobs eng)" using assms(1) by (simp add: engine_inv_def)
  show fresh: "job_lookup (en_jobs eng) jid = None" unfolding jid using assms(1) by (rule engine_inv_fresh)
  show l: "job_lookup (en_jobs eng') k =
      (if k = jid then Some (registered_job now eng req cwd) else job_lookup (en_jobs eng) k)" for k
    using job_insert_lookup [OF inv ins] by (simp add: eng' jid)
  show "job_store_get (en_jobs eng') k = (if k = jid then Some h else job_store_get (en_jobs eng) k)"
    using job_insert_read(3) [OF ins] by (simp add: eng' jid h)
  have "job_store_inv (en_jobs eng')"
    using job_insert_inv [OF inv ins] fresh by (simp add: eng' jid)
  moreover have "\<exists>n. k = job_id_of n \<and> n < en_next_id eng'" if "job_lookup (en_jobs eng') k \<noteq> None" for k
    using that assms(1) u64_less_next [OF assms(2)] unfolding l
    by (auto simp: engine_inv_def eng' jid split: if_splits)
  ultimately show "engine_inv eng'"
    using assms(1) unfolding engine_inv_def l by (auto simp: eng')
qed (use assms(3) in \<open>auto simp: insert_running_job_eq\<close>)

text \<open>What cancelling changes: entries go, nothing else but signals.\<close>

definition quieter :: "'j job_engine \<Rightarrow> 'j job_engine \<Rightarrow> bool" where
  "quieter eng eng' \<longleftrightarrow>
     en_jobs eng' = en_jobs eng \<and> en_sessions eng' = en_sessions eng \<and> en_next_id eng' = en_next_id eng \<and>
     en_log_byte_cap eng' = en_log_byte_cap eng \<and> length (en_signals eng') = length (en_signals eng) \<and>
     (\<forall>j entry. en_cancels eng' j = Some entry \<longrightarrow> en_cancels eng j = Some entry)"

lemma quieter_refl [simp]: "quieter eng eng"
  by (simp add: quieter_def)

lemma kill_job_quieter: "kill_job eng jid = (eng', r) \<Longrightarrow> quieter eng eng'"
  by (auto simp: kill_job_def quieter_def set_cell_def split: option.splits if_splits)

lemma cancel_jobs_quieter: "cancel_jobs eng jids n = (eng', m) \<Longrightarrow> quieter eng eng'"
proof (induction jids arbitrary: eng n)
  case (Cons j jids)
  obtain eng1 r where k: "kill_job eng j = (eng1, r)" by fastforce
  have "quieter eng eng1" using k by (rule kill_job_quieter)
  moreover have "quieter eng1 eng'" using Cons k by (cases r) auto
  ultimately show ?case by (auto simp: quieter_def)
qed simp

lemma engine_cancel_quieter: "engine_cancel eng req = (eng', r) \<Longrightarrow> quieter eng eng'"
  by (auto simp: engine_cancel_def split: sum.splits prod.splits core_error.splits
      dest: kill_job_quieter)

lemma quieter_world_inv:
  assumes "world_inv w" and "quieter (wd_engine w) eng"
  shows "world_inv (w\<lparr>wd_engine := eng\<rparr>)"
proof -
  have none: "en_cancels (wd_engine w) j = None \<Longrightarrow> en_cancels eng j = None" for j
    using assms(2) by (metis quieter_def not_Some_eq)
  have "engine_inv eng"
    using assms by (simp add: world_inv_def quieter_def engine_inv_def) blast
  moreover have "point_ok (wd_engine w) jid p sid h \<Longrightarrow> point_ok eng jid p sid h" for jid p sid h
    using assms(2) none by (simp add: point_ok_def quieter_def)
  ultimately show ?thesis
    using assms by (simp add: world_inv_def quieter_def)
qed

text \<open>A step of one job's own threads: its point moves, the other jobs and logs stay as they are.\<close>

lemma advance_world_inv:
  assumes "world_inv w" and "engine_inv eng"
    and "\<And>k. k \<noteq> jid \<Longrightarrow> job_lookup (en_jobs eng) k = job_lookup (en_jobs (wd_engine w)) k"
    and "\<And>k. k \<noteq> jid \<Longrightarrow> job_store_get (en_jobs eng) k = job_store_get (en_jobs (wd_engine w)) k"
    and "\<And>k. k \<noteq> jid \<Longrightarrow> en_cancels eng k = en_cancels (wd_engine w) k"
    and "en_log_byte_cap eng = en_log_byte_cap (wd_engine w)"
    and "point_ok eng jid p sid h"
    and "\<And>s se k. am_lookup (en_sessions eng) s = Some se \<Longrightarrow>
      audit_shape k (if k = jid then if s = sid then Some p else None else seen_point w s k) (about k (se_audit_events se))"
  shows "world_inv (advance w eng jid p sid h)"
proof -
  have "point_ok eng k q s g" if "wd_point w k = Some (q, s, g)" "k \<noteq> jid" for k q s g
    using assms(1) that assms(3-5) [of k] assms(6) by (auto simp: world_inv_def point_ok_def)
  moreover have "job_lookup (en_jobs (wd_engine w)) k = None" if "wd_point w k = None" for k
    using assms(1) that by (simp add: world_inv_def)
  ultimately show ?thesis
    using assms(2,3,7,8) unfolding world_inv_def by simp
qed

text \<open>Moving on without writing the audit log never spoils its shape.\<close>

lemma audit_shape_insert: "audit_shape jid None ks \<Longrightarrow> audit_shape jid (Some PInserted) ks"
  by (simp add: audit_shape_def)

lemma audit_shape_mono:
  "audit_shape jid (Some PInserted) ks \<Longrightarrow> audit_shape jid (Some p) ks"
  "audit_shape jid (Some PRegistered) ks \<Longrightarrow> audit_shape jid (Some p) ks"
  "p \<notin> {PInserted, PRegistered} \<Longrightarrow> audit_shape jid (Some PActive) ks \<Longrightarrow> audit_shape jid (Some p) ks"
  "p \<notin> {PInserted, PRegistered} \<Longrightarrow> audit_shape jid (Some (PWritten st)) ks \<Longrightarrow> audit_shape jid (Some p) ks"
  "p \<notin> {PInserted, PRegistered} \<Longrightarrow> audit_shape jid (Some (PNotified st)) ks \<Longrightarrow> audit_shape jid (Some p) ks"
  "audit_shape jid (Some (PAudited st)) ks \<Longrightarrow> audit_shape jid (Some (PDone st)) ks"
  by (auto simp: audit_shape_def)

lemma world_inv_shape:
  "world_inv w \<Longrightarrow> am_lookup (en_sessions (wd_engine w)) s = Some se \<Longrightarrow>
     audit_shape k (seen_point w s k) (about k (se_audit_events se))"
  by (simp add: world_inv_def)

lemma world_inv_point:
  "world_inv w \<Longrightarrow> at_point w jid p sid h \<Longrightarrow> point_ok (wd_engine w) jid p sid h"
  by (simp add: world_inv_def at_point_def)

text \<open>An audit entry about a job, with that job's point moving on.\<close>

lemma audited_shape:
  assumes "world_inv w" and "at_point w jid p sid h"
    and "k = JobStarted jid \<or> k = JobFinished jid st"
    and "am_lookup (audited_sessions now (en_sessions (wd_engine w)) sid k) s = Some se"
    and "\<And>ks. audit_shape jid (Some p) ks \<Longrightarrow> audit_shape jid (Some q) ks \<and> audit_shape jid (Some q) (ks @ [k])"
  shows "audit_shape j (if j = jid then if s = sid then Some q else None else seen_point w s j) (about j (se_audit_events se))"
proof -
  have "store_inv (en_sessions (wd_engine w))" using assms(1) by (simp add: world_inv_def engine_inv_def)
  then obtain se0 where se0: "am_lookup (en_sessions (wd_engine w)) s = Some se0"
      "se = (if s = sid then record_audit now se0 k else se0)"
    using assms(4) by (auto simp: audited_sessions_lookup split: if_splits)
  note shape = world_inv_shape [OF assms(1) se0(1), of j]
  show ?thesis
    using se0(2) shape assms(3,5) assms(2) by (cases "j = jid") (auto split: if_splits)
qed

lemma update_advance_inv:
  assumes "world_inv w" and "at_point w jid p sid h" and "same_job f"
    and "\<And>job. job_lookup (en_jobs (wd_engine w)) jid = Some job \<Longrightarrow> log_ok cap (jb_replay_log job) \<Longrightarrow>
      log_ok cap (jb_replay_log (f job))"
    and "\<And>job. job_lookup (en_jobs (wd_engine w)) jid = Some job \<Longrightarrow>
      (case final_status p of None \<Rightarrow> jb_status job = Running
         | Some st \<Rightarrow> jb_status job = st \<and> status_is_terminal st) \<Longrightarrow>
      (case final_status q of None \<Rightarrow> jb_status (f job) = Running
         | Some st \<Rightarrow> jb_status (f job) = st \<and> status_is_terminal st)"
    and "cap = en_log_byte_cap (wd_engine w)" and "q \<noteq> PInserted" and "\<forall>st. q \<noteq> PDone st"
    and "\<And>ks. audit_shape jid (Some p) ks \<Longrightarrow> audit_shape jid (Some q) ks"
  shows "world_inv (advance w ((wd_engine w)\<lparr>en_jobs := update_job f (en_jobs (wd_engine w)) h\<rparr>) jid q sid h)"
proof (rule advance_world_inv [OF assms(1)])
  let ?eng = "(wd_engine w)\<lparr>en_jobs := update_job f (en_jobs (wd_engine w)) h\<rparr>"
  note pt = world_inv_point [OF assms(1,2)]
  then have get: "job_store_get (en_jobs (wd_engine w)) jid = Some h" by (simp add: point_ok_def)
  have inv: "engine_inv (wd_engine w)" using assms(1) by (simp add: world_inv_def)
  then have jinv: "job_store_inv (en_jobs (wd_engine w))" by (simp add: engine_inv_def)
  note l = update_job_lookup [OF jinv get]
  show "engine_inv ?eng" by (rule update_job_engine_inv [OF inv get assms(3)])
  show "point_ok ?eng jid q sid h"
    using pt assms(3-8) get by (auto simp: point_ok_def l same_job_def)
  show "audit_shape k (if k = jid then if s = sid then Some q else None else seen_point w s k) (about k (se_audit_events se))"
    if "am_lookup (en_sessions ?eng) s = Some se" for s se k
    using world_inv_shape [OF assms(1), of s se k] that assms(2,9) by (cases "k = jid") (auto split: if_splits)
  show "job_lookup (en_jobs ?eng) k = job_lookup (en_jobs (wd_engine w)) k" if "k \<noteq> jid" for k
    using that by (simp add: l)
qed simp_all

lemma step_insert:
  assumes "world_inv w" and "en_next_id (wd_engine w) \<noteq> - 1"
    and "insert_running_job now (wd_engine w) req cwd = (eng, jid, h)"
  shows "world_inv (advance w eng jid PInserted (js_session_id req) h)"
proof -
  have inv: "engine_inv (wd_engine w)" using assms(1) by (simp add: world_inv_def)
  note ins = insert_running_job_inv [OF inv assms(2,3)]
  have none: "wd_point w jid = None"
  proof (rule ccontr)
    assume "wd_point w jid \<noteq> None"
    then obtain p sid h' where "at_point w jid p sid h'" by (cases "wd_point w jid") (auto simp: at_point_def)
    from world_inv_point [OF assms(1) this] show False using ins(3) by (auto simp: point_ok_def)
  qed
  have "en_cancels (wd_engine w) jid = None"
    using inv ins(3) unfolding engine_inv_def by (metis not_Some_eq)
  moreover have "log_ok cap (mem_with_cap cap)" for cap
    by (simp add: log_ok_def mem_with_cap_def)
  ultimately have "point_ok eng jid PInserted (js_session_id req) h"
    using ins by (simp add: point_ok_def)
  moreover have "audit_shape k (if k = jid then if s = js_session_id req then Some PInserted else None else seen_point w s k)
      (about k (se_audit_events se))" if "am_lookup (en_sessions eng) s = Some se" for s se k
    using world_inv_shape [OF assms(1), of s se k] that ins(7) none by (cases "k = jid") (auto simp: audit_shape_insert)
  ultimately show ?thesis
    using ins by (intro advance_world_inv [OF assms(1)]) simp_all
qed

lemma register_cancel_sel [simp]:
  "en_jobs (register_cancel eng jid i c) = en_jobs eng"
  "en_sessions (register_cancel eng jid i c) = en_sessions eng"
  "en_next_id (register_cancel eng jid i c) = en_next_id eng"
  "en_log_byte_cap (register_cancel eng jid i c) = en_log_byte_cap eng"
  "en_signals (register_cancel eng jid i c) = en_signals eng @ [False]"
  "en_cancels (register_cancel eng jid i c) = (en_cancels eng)(jid := Some
     \<lparr>ce_signal = length (en_signals eng), ce_code_interrupt = i, ce_host_capability_cancel = c\<rparr>)"
  by (simp_all add: register_cancel_def)

lemma register_cancel_inv:
  assumes "job_lookup (en_jobs eng) jid \<noteq> None" and "engine_inv eng"
  shows "engine_inv (register_cancel eng jid i c)"
  using assms unfolding engine_inv_def by (simp add: less_SucI)

lemma step_register:
  assumes "world_inv w" and "at_point w jid PInserted sid h"
  shows "world_inv (advance w (register_cancel (wd_engine w) jid i c) jid PRegistered sid h)"
proof (rule advance_world_inv [OF assms(1)])
  let ?eng = "register_cancel (wd_engine w) jid i c"
  note pt = world_inv_point [OF assms]
  have inv: "engine_inv (wd_engine w)" using assms(1) by (simp add: world_inv_def)
  have "job_lookup (en_jobs (wd_engine w)) jid \<noteq> None" using pt by (auto simp: point_ok_def)
  then show "engine_inv ?eng" using inv by (rule register_cancel_inv)
  show "point_ok ?eng jid PRegistered sid h"
    using pt by (simp add: point_ok_def)
  show "audit_shape k (if k = jid then if s = sid then Some PRegistered else None else seen_point w s k)
      (about k (se_audit_events se))" if "am_lookup (en_sessions ?eng) s = Some se" for s se k
    using world_inv_shape [OF assms(1), of s se k] that assms(2)
    by (cases "k = jid") (auto simp: audit_shape_mono(1) split: if_splits)
qed simp_all

text \<open>A step that writes the audit log only.\<close>

lemma step_audit:
  assumes "world_inv w" and "at_point w jid p sid h" and "kind = JobStarted jid \<or> kind = JobFinished jid st"
    and "final_status q = final_status p" and "q \<noteq> PInserted" and "\<forall>st. q \<noteq> PDone st"
    and "\<And>ks. audit_shape jid (Some p) ks \<Longrightarrow> audit_shape jid (Some q) ks \<and> audit_shape jid (Some q) (ks @ [kind])"
  shows "world_inv (advance w (record_session_audit now (wd_engine w) sid kind) jid q sid h)"
proof -
  let ?eng = "record_session_audit now (wd_engine w) sid kind"
  have inv: "engine_inv (wd_engine w)" using assms(1) by (simp add: world_inv_def)
  then have "engine_inv ?eng" by (simp add: engine_inv_def audited_sessions_inv)
  moreover have "point_ok ?eng jid q sid h"
    using world_inv_point [OF assms(1,2)] assms(4-6) by (simp add: point_ok_def)
  moreover have "audit_shape k (if k = jid then if s = sid then Some q else None else seen_point w s k)
      (about k (se_audit_events se))" if "am_lookup (en_sessions ?eng) s = Some se" for s se k
    using that assms(7) by (intro audited_shape [OF assms(1,2,3)]) simp_all
  ultimately show ?thesis
    by (intro advance_world_inv [OF assms(1)]) simp_all
qed

lemma spawn_world_inv: "world_inv (advance w (spawn_task eng task) jid p sid h) = world_inv (advance w eng jid p sid h)"
  unfolding world_inv_def by (simp add: spawn_task_def engine_inv_def point_ok_def)

lemma step_remove:
  assumes "world_inv w" and "at_point w jid (PAudited st) sid h"
  shows "world_inv (advance w (finish_remove (wd_engine w) jid) jid (PDone st) sid h)"
proof -
  let ?eng = "finish_remove (wd_engine w) jid"
  have "engine_inv ?eng"
    using assms(1) by (auto simp: world_inv_def engine_inv_def finish_remove_def)
  moreover have "point_ok ?eng jid (PDone st) sid h"
    using world_inv_point [OF assms] by (auto simp: point_ok_def finish_remove_def)
  moreover have "audit_shape k (if k = jid then if s = sid then Some (PDone st) else None else seen_point w s k)
      (about k (se_audit_events se))" if "am_lookup (en_sessions ?eng) s = Some se" for s se k
    using world_inv_shape [OF assms(1), of s se k] that assms(2)
    by (cases "k = jid") (auto simp: finish_remove_def intro: audit_shape_mono(6) split: if_splits)
  ultimately show ?thesis
    by (intro advance_world_inv [OF assms(1)]) (simp_all add: finish_remove_def)
qed

lemma step_sessions:
  assumes "world_inv w" and "store_inv sessions"
    and "\<And>s se k. am_lookup sessions s = Some se \<Longrightarrow>
      am_lookup (en_sessions (wd_engine w)) s = Some se \<or> about k (se_audit_events se) = []"
  shows "world_inv (w\<lparr>wd_engine := (wd_engine w)\<lparr>en_sessions := sessions\<rparr>\<rparr>)"
proof -
  have "audit_shape k q []" for k q by (cases q) (simp_all add: audit_shape_def)
  then have "audit_shape k (seen_point w s k) (about k (se_audit_events se))"
    if "am_lookup sessions s = Some se" for s se k
    using assms(3) [OF that, of k] world_inv_shape [OF assms(1)] by metis
  then show ?thesis
    using assms(1,2) by (simp add: world_inv_def engine_inv_def point_ok_def)
qed

lemma step_log:
  assumes "world_inv w" and "at_point w jid PActive sid h"
  shows "world_inv (w\<lparr>wd_engine := (wd_engine w)\<lparr>en_jobs :=
    fst (push_log now (en_jobs (wd_engine w)) h stream data)\<rparr>\<rparr>)"
proof -
  let ?f = "\<lambda>job. job\<lparr>jb_replay_log :=
    fst (mem_append (jb_replay_log job) \<lparr>ap_stream = stream, ap_data = data, ap_timestamp = now\<rparr>)\<rparr>"
  have "world_inv (advance w ((wd_engine w)\<lparr>en_jobs := update_job ?f (en_jobs (wd_engine w)) h\<rparr>) jid PActive sid h)"
    by (rule update_advance_inv [OF assms, where cap = "en_log_byte_cap (wd_engine w)"])
      (auto simp: same_job_def log_ok_append)
  then show ?thesis unfolding push_log_update by (simp add: advance_stay [OF assms(2)])
qed

lemma step_write:
  assumes "world_inv w" and "at_point w jid PActive sid h" and "status_is_terminal st"
  shows "world_inv (advance w (finish_write now (wd_engine w) h st) jid (PWritten st) sid h)"
  unfolding finish_write_update
  by (rule update_advance_inv [OF assms(1,2), where cap = "en_log_byte_cap (wd_engine w)"])
    (use assms(3) in \<open>auto simp: same_job_def intro: audit_shape_mono(3)\<close>)

lemma step_notify:
  assumes "world_inv w" and "at_point w jid (PWritten st) sid h"
  shows "world_inv (advance w (finish_notify (wd_engine w) h) jid (PNotified st) sid h)"
  unfolding finish_notify_update
  by (rule update_advance_inv [OF assms, where cap = "en_log_byte_cap (wd_engine w)"])
    (auto simp: same_job_def log_ok_def intro: audit_shape_mono(4))

lemma step_cancel:
  assumes "world_inv w" and "engine_cancel (wd_engine w) req = (eng, r) \<or> cancel_for_session (wd_engine w) sid = (eng, n)"
  shows "world_inv (w\<lparr>wd_engine := eng\<rparr>)"
  using assms(2) quieter_world_inv [OF assms(1)] engine_cancel_quieter cancel_jobs_quieter
  unfolding cancel_for_session_def by blast

lemma step_open:
  assumes "world_inv w" and "store_open now (en_sessions (wd_engine w)) sid ws tier caps tok = (sessions, h)"
  shows "world_inv (w\<lparr>wd_engine := (wd_engine w)\<lparr>en_sessions := sessions\<rparr>\<rparr>)"
proof -
  have "store_inv (en_sessions (wd_engine w))" using assms(1) by (simp add: world_inv_def engine_inv_def)
  note o = store_open_lookup [OF this assms(2)]
  show ?thesis using o(1) by (intro step_sessions [OF assms(1) o(2)]) (auto simp: about_def split: if_splits)
qed

lemma step_close:
  assumes "world_inv w" and "store_close now (en_sessions (wd_engine w)) sid = (sessions, r)"
  shows "world_inv (w\<lparr>wd_engine := (wd_engine w)\<lparr>en_sessions := sessions\<rparr>\<rparr>)"
proof -
  have "store_inv (en_sessions (wd_engine w))" using assms(1) by (simp add: world_inv_def engine_inv_def)
  note c = store_close_lookup [OF this assms(2)]
  show ?thesis using c(1) by (intro step_sessions [OF assms(1) c(2)]) (auto split: if_splits)
qed

lemma step_started:
  assumes "world_inv w" and "at_point w jid PRegistered sid h"
  shows "world_inv (advance w (spawn_task (record_session_audit now (wd_engine w) sid (JobStarted jid)) task)
    jid PActive sid h)"
  unfolding spawn_world_inv by (intro step_audit [OF assms]) (auto simp: audit_shape_def)

lemma step_finished:
  assumes "world_inv w" and "at_point w jid (PNotified st) sid h"
  shows "world_inv (advance w (record_session_audit now (wd_engine w) sid (JobFinished jid (status_to_proto st)))
    jid (PAudited st) sid h)"
  by (rule step_audit [OF assms, where st = "status_to_proto st"]) (auto simp: audit_shape_def)

lemma step_flags: "world_inv w \<Longrightarrow> world_inv (w\<lparr>wd_engine := new_flags (wd_engine w)\<rparr>)"
  by (simp add: world_inv_def new_flags_def engine_inv_def point_ok_def)

lemmas step_invs = step_insert step_register step_started step_log step_write step_notify step_finished
  step_remove step_flags step_cancel step_open step_close

lemma job_step_inv: "job_step w w' \<Longrightarrow> world_inv w \<Longrightarrow> world_inv w'"
  by (induction rule: job_step.induct) (blast intro: step_invs)+

lemma job_reachable_inv: "job_reachable w \<Longrightarrow> world_inv w"
  by (induction rule: job_reachable.induct) (auto intro: world_new_inv job_step_inv)

section \<open>The operations are runs of these steps\<close>

lemma start_steps:
  assumes "en_next_id (wd_engine w) \<noteq> - 1"
    and "insert_running_job now (wd_engine w) req cwd = (eng1, jid, h)"
    and "eng' = spawn_task (record_session_audit now (register_cancel eng1 jid i c) (js_session_id req) (JobStarted jid)) task"
  shows "\<exists>w'. job_step\<^sup>*\<^sup>* w w' \<and> wd_engine w' = eng' \<and> at_point w' jid PActive (js_session_id req) h"
proof -
  let ?sid = "js_session_id req"
  let ?w1 = "advance w eng1 jid PInserted ?sid h"
  let ?w2 = "advance ?w1 (register_cancel (wd_engine ?w1) jid i c) jid PRegistered ?sid h"
  let ?w3 = "advance ?w2 (spawn_task (record_session_audit now (wd_engine ?w2) ?sid (JobStarted jid)) task)
    jid PActive ?sid h"
  have "job_step w ?w1" using assms(1,2) by (rule job_step.js_insert)
  moreover have "job_step ?w1 ?w2" by (rule job_step.js_register) (simp add: at_point_def)
  moreover have "job_step ?w2 ?w3" by (rule job_step.js_started) (simp add: at_point_def)
  ultimately have "job_step\<^sup>*\<^sup>* w ?w3" by (meson converse_rtranclp_into_rtranclp rtranclp.rtrancl_refl)
  then show ?thesis using assms(3) by (intro exI [of _ ?w3]) (simp add: at_point_def)
qed

lemma finish_steps:
  assumes "at_point w jid PActive sid h" and "status_is_terminal st"
  shows "\<exists>w'. job_step\<^sup>*\<^sup>* w w' \<and> wd_engine w' = finish_job now (wd_engine w) jid sid h st \<and>
    at_point w' jid (PDone st) sid h"
proof -
  let ?w1 = "advance w (finish_write now (wd_engine w) h st) jid (PWritten st) sid h"
  let ?w2 = "advance ?w1 (finish_notify (wd_engine ?w1) h) jid (PNotified st) sid h"
  let ?w3 = "advance ?w2 (record_session_audit now (wd_engine ?w2) sid (JobFinished jid (status_to_proto st)))
    jid (PAudited st) sid h"
  let ?w4 = "advance ?w3 (finish_remove (wd_engine ?w3) jid) jid (PDone st) sid h"
  have "job_step w ?w1" using assms by (rule job_step.js_write)
  moreover have "job_step ?w1 ?w2" by (rule job_step.js_notify) (simp add: at_point_def)
  moreover have "job_step ?w2 ?w3" by (rule job_step.js_audit) (simp add: at_point_def)
  moreover have "job_step ?w3 ?w4" by (rule job_step.js_remove) (simp add: at_point_def)
  ultimately have "job_step\<^sup>*\<^sup>* w ?w4" by (meson converse_rtranclp_into_rtranclp rtranclp.rtrancl_refl)
  then show ?thesis by (intro exI [of _ ?w4]) (simp add: finish_job_def at_point_def Let_def)
qed

lemma engine_start_steps:
  assumes "en_next_id (wd_engine w) \<noteq> - 1" and "engine_start env (wd_engine w) req = (eng', Inr jid)"
  shows "\<exists>w' h. job_step\<^sup>*\<^sup>* w w' \<and> wd_engine w' = eng' \<and> at_point w' jid PActive (js_session_id req) h"
proof -
  consider se runnable where "start_process env (wd_engine w) se req runnable = (eng', Inr jid)"
    | se cwd bytes where "start_code_job env (wd_engine w) se req cwd bytes = (eng', Inr jid)"
    using assms(2) by (auto simp: engine_start_def split: option.splits job_payload.splits if_splits sum.splits)
  then show ?thesis
  proof cases
    case 1
    then obtain cwd cmd where "prepare_process env se req runnable = Inr (cwd, cmd)"
      by (auto simp: start_process_def split: sum.splits)
    note secs = start_process_sections [OF this, of "wd_engine w"]
    obtain eng1 h where "insert_running_job (sv_now env) (wd_engine w) req cwd = (eng1, jid, h)"
      using 1 unfolding secs Let_def by (auto split: prod.splits)
    note ins = this
    show ?thesis
      using start_steps [OF assms(1) ins refl] 1 unfolding secs Let_def ins by auto blast
  next
    case 2
    then have "sv_runner env = None" by (auto simp: start_code_job_def Let_def split: option.splits)
    note secs = start_code_job_sections [OF this, of "wd_engine w"]
    let ?w0 = "w\<lparr>wd_engine := new_flags (wd_engine w)\<rparr>"
    have n: "en_next_id (wd_engine ?w0) \<noteq> - 1" using assms(1) by (simp add: new_flags_def)
    obtain eng1 h where ins: "insert_running_job (sv_now env) (wd_engine ?w0) req cwd = (eng1, jid, h)"
      using 2 unfolding secs Let_def by (auto split: prod.splits)
    have "\<exists>w'. job_step\<^sup>*\<^sup>* ?w0 w' \<and> wd_engine w' = eng' \<and> at_point w' jid PActive (js_session_id req) h"
      using start_steps [OF n ins refl] 2 ins unfolding secs Let_def by auto
    then obtain w' where "job_step\<^sup>*\<^sup>* ?w0 w'" "wd_engine w' = eng'" "at_point w' jid PActive (js_session_id req) h"
      by blast
    then show ?thesis
      using converse_rtranclp_into_rtranclp [of job_step w ?w0, OF job_step.js_flags] by blast
  qed
qed

section \<open>Finished jobs\<close>

definition frozen :: "'j job_store \<Rightarrow> 'j job_store \<Rightarrow> job_id \<Rightarrow> bool" where
  "frozen jobs jobs' jid \<longleftrightarrow> (\<forall>job. job_lookup jobs jid = Some job \<longrightarrow> (\<exists>job'. job_lookup jobs' jid = Some job' \<and>
     jb_status job' = jb_status job \<and> jb_finished_at job' = jb_finished_at job \<and>
     ml_events (jb_replay_log job') = ml_events (jb_replay_log job)))"

lemma frozen_same: "job_lookup jobs' jid = job_lookup jobs jid \<Longrightarrow> frozen jobs jobs' jid"
  by (simp add: frozen_def)

lemma running_until_written:
  assumes "world_inv w" and "at_point w jid PActive sid h"
    and "job_lookup (en_jobs (wd_engine w)) jid = Some job"
  shows "\<not> status_is_terminal (jb_status job)"
  using world_inv_point [OF assms(1,2)] assms(3) by (simp add: point_ok_def)

lemma update_frozen:
  assumes "world_inv w" and "at_point w jid' p sid h"
    and "jid' \<noteq> jid \<or> (\<forall>job. jb_status (f job) = jb_status job \<and> jb_finished_at (f job) = jb_finished_at job \<and>
      ml_events (jb_replay_log (f job)) = ml_events (jb_replay_log job))"
  shows "frozen (en_jobs (wd_engine w)) (update_job f (en_jobs (wd_engine w)) h) jid"
proof -
  have "job_store_inv (en_jobs (wd_engine w))" using assms(1) by (simp add: world_inv_def engine_inv_def)
  moreover have "job_store_get (en_jobs (wd_engine w)) jid' = Some h"
    using world_inv_point [OF assms(1,2)] by (simp add: point_ok_def)
  ultimately show ?thesis using assms(3) by (auto simp: frozen_def update_job_lookup)
qed

lemma job_step_frozen:
  assumes "job_step w w'" and "world_inv w"
    and "job_lookup (en_jobs (wd_engine w)) jid = Some job" and "status_is_terminal (jb_status job)"
  shows "frozen (en_jobs (wd_engine w)) (en_jobs (wd_engine w')) jid"
  using assms(1)
proof cases
  case (js_insert now req cwd eng jid' h)
  have "engine_inv (wd_engine w)" using assms(2) by (simp add: world_inv_def)
  note ins = insert_running_job_inv [OF this js_insert(2,3)]
  have "jid' \<noteq> jid" using ins(3) assms(3) by auto
  then show ?thesis using ins(4) by (simp add: js_insert(1) frozen_same)
next
  case (js_log jid' sid h now stream data)
  have "jid' \<noteq> jid" using running_until_written [OF assms(2) js_log(2)] assms(3,4) by auto
  then show ?thesis using update_frozen [OF assms(2) js_log(2)] by (simp add: js_log(1) push_log_update)
next
  case (js_write jid' sid h st now)
  have "jid' \<noteq> jid" using running_until_written [OF assms(2) js_write(2)] assms(3,4) by auto
  then show ?thesis using update_frozen [OF assms(2) js_write(2)] by (simp add: js_write(1) finish_write_update)
next
  case (js_notify jid' st sid h)
  then show ?thesis using update_frozen [OF assms(2) js_notify(2)] by (simp add: finish_notify_update)
next
  case (js_cancel req eng r)
  then show ?thesis using engine_cancel_quieter [OF js_cancel(2)] by (simp add: quieter_def frozen_same)
next
  case (js_cancel_session sid eng n)
  then have "quieter (wd_engine w) eng" using cancel_jobs_quieter unfolding cancel_for_session_def by blast
  then show ?thesis by (simp add: js_cancel_session(1) quieter_def frozen_same)
qed (simp_all add: frozen_same spawn_task_def finish_remove_def new_flags_def)

section \<open>Reachable examples\<close>

lemma job_step_star_reachable: "job_reachable w \<Longrightarrow> job_step\<^sup>*\<^sup>* w w' \<Longrightarrow> job_reachable w'"
  by (rotate_tac, induction rule: rtranclp_induct) (auto intro: jr_step)

definition demo_request :: "unit job_start_request" where
  "demo_request = \<lparr>js_session_id = SessionId ''s'', js_cap_token = ''t'', js_payload = PCommand ''true'',
     js_cwd = None, js_capabilities = []\<rparr>"

definition demo_empty :: "unit world" where
  "demo_empty = world_new registry_new 16"

text \<open>The demo job, with an empty log, at a program point.\<close>

definition demo_at :: "unit world \<Rightarrow> program_point \<Rightarrow> nat \<Rightarrow> bool" where
  "demo_at w p h \<longleftrightarrow> job_reachable w \<and> at_point w (job_id_of 1) p (SessionId ''s'') h \<and>
     (\<exists>job. job_lookup (en_jobs (wd_engine w)) (job_id_of 1) = Some job \<and> ml_events (jb_replay_log job) = [])"

lemma demo_inserted: "\<exists>w h. demo_at w PInserted h"
proof -
  let ?w = demo_empty
  obtain eng jid h where ins: "insert_running_job 0 (wd_engine ?w) demo_request ''/'' = (eng, jid, h)"
    by (metis prod_cases3)
  have n: "en_next_id (wd_engine ?w) = 1"
    by (simp add: demo_empty_def world_new_def with_log_byte_cap_def engine_new_def)
  then have "job_step ?w (advance ?w eng jid PInserted (js_session_id demo_request) h)"
    using ins by (intro job_step.js_insert) auto
  moreover have r: "job_reachable ?w" unfolding demo_empty_def by (rule jr_new)
  moreover have jid: "jid = job_id_of 1" using ins n by (simp add: insert_running_job_eq)
  moreover have "en_next_id (wd_engine ?w) \<noteq> - 1" "engine_inv (wd_engine ?w)"
    using n job_reachable_inv [OF r] by (simp_all add: world_inv_def)
  then have "job_lookup (en_jobs eng) jid = Some (registered_job 0 (wd_engine ?w) demo_request ''/'')"
    using insert_running_job_inv(4) [OF _ _ ins] by simp
  ultimately show ?thesis
    by (intro exI [of _ "advance ?w eng jid PInserted (js_session_id demo_request) h"] exI [of _ h])
      (auto intro: jr_step simp: demo_at_def at_point_def demo_request_def mem_with_cap_def)
qed

lemma demo_registered: "\<exists>w h entry. demo_at w PActive h \<and> en_cancels (wd_engine w) (job_id_of 1) = Some entry"
proof -
  obtain w h where w: "demo_at w PInserted h" using demo_inserted by blast
  let ?j = "job_id_of 1" and ?s = "SessionId ''s''"
  let ?w2 = "advance w (register_cancel (wd_engine w) ?j None None) ?j PRegistered ?s h"
  let ?w3 = "advance ?w2 (spawn_task (record_session_audit 0 (wd_engine ?w2) ?s (JobStarted ?j)) undefined) ?j PActive ?s h"
  have "job_step w ?w2" using w by (intro job_step.js_register) (simp add: demo_at_def)
  moreover have "job_step ?w2 ?w3" by (rule job_step.js_started) (simp add: at_point_def)
  ultimately have "job_reachable ?w3" using w unfolding demo_at_def by (meson jr_step)
  then show ?thesis
    using w by (intro exI [of _ ?w3]) (simp add: demo_at_def at_point_def spawn_task_def)
qed

text \<open>A step of the demo job that keeps its events.\<close>

lemma demo_update:
  assumes "demo_at w p h" and "same_job f" and "\<And>job. ml_events (jb_replay_log (f job)) = ml_events (jb_replay_log job)"
    and "w' = advance w ((wd_engine w)\<lparr>en_jobs := update_job f (en_jobs (wd_engine w)) h\<rparr>) (job_id_of 1) q (SessionId ''s'') h"
    and "job_step w w'"
  shows "demo_at w' q h"
proof -
  have inv: "world_inv w" using assms(1) by (simp add: demo_at_def job_reachable_inv)
  then have "job_store_inv (en_jobs (wd_engine w))" by (simp add: world_inv_def engine_inv_def)
  moreover have "job_store_get (en_jobs (wd_engine w)) (job_id_of 1) = Some h"
    using world_inv_point [OF inv] assms(1) by (auto simp: demo_at_def point_ok_def)
  ultimately show ?thesis
    using assms jr_step [OF _ assms(5)] by (auto simp: demo_at_def at_point_def update_job_lookup)
qed

lemma demo_written:
  "\<exists>w h entry. demo_at w (PWritten Killed) h \<and> en_cancels (wd_engine w) (job_id_of 1) = Some entry"
proof -
  obtain w h entry where w: "demo_at w PActive h" "en_cancels (wd_engine w) (job_id_of 1) = Some entry"
    using demo_registered by blast
  let ?w' = "advance w (finish_write 0 (wd_engine w) h Killed) (job_id_of 1) (PWritten Killed) (SessionId ''s'') h"
  have "job_step w ?w'" using w(1) by (intro job_step.js_write) (simp_all add: demo_at_def)
  then have "demo_at ?w' (PWritten Killed) h"
    by (intro demo_update [OF w(1) _ _ _ \<open>job_step w ?w'\<close>]) (simp_all add: finish_write_update same_job_def)
  then show ?thesis using w(2) by (intro exI [of _ ?w']) (auto simp: finish_write_update)
qed

lemma demo_notified: "\<exists>w h. demo_at w (PNotified Killed) h"
proof -
  obtain w h where w: "demo_at w (PWritten Killed) h" using demo_written by blast
  let ?w' = "advance w (finish_notify (wd_engine w) h) (job_id_of 1) (PNotified Killed) (SessionId ''s'') h"
  have "job_step w ?w'" using w by (intro job_step.js_notify) (simp add: demo_at_def)
  then have "demo_at ?w' (PNotified Killed) h"
    by (intro demo_update [OF w _ _ _ \<open>job_step w ?w'\<close>]) (simp_all add: finish_notify_update same_job_def)
  then show ?thesis by blast
qed

text \<open>What a cancel by the owner answers at a program point.\<close>

lemma owner_cancel:
  assumes "world_inv w" and "at_point w jid p sid h"
  shows "snd (engine_cancel (wd_engine w) \<lparr>jc_session_id = sid, jc_cap_token = tok, jc_job_id = jid\<rparr>) =
    Inr \<lparr>jcr_ok = (en_cancels (wd_engine w) jid \<noteq> None)\<rparr>"
proof -
  note pt = world_inv_point [OF assms]
  then have "lookup_owned (wd_engine w) sid jid = Inr h"
    by (auto simp: point_ok_def lookup_owned_def job_lookup_def am_lookup_def job_store_get_def job_read_def)
  then show ?thesis by (cases "en_cancels (wd_engine w) jid") (simp_all add: engine_cancel_def kill_job_def)
qed

section \<open>Properties\<close>

text \<open>C5: The life of a job under every interleaving of starts, drainers, cancels and sessions coming and
  going: each stored job is running or has a terminal status; its log is numbered from 0, its byte
  total is exact and within the cap; only its own session's audit log mentions it, as one
  \<open>JobStarted\<close> followed by one \<open>JobFinished\<close> at most (either may be missing when the session
  was closed or reopened in between), and \<open>JobFinished\<close> carries the status the job ended with.\<close>

theorem job_lifecycle:
  assumes "job_reachable w" and "job_lookup (en_jobs (wd_engine w)) jid = Some job"
  shows "(jb_status job = Running \<or> status_is_terminal (jb_status job)) \<and>
    log_ok (en_log_byte_cap (wd_engine w)) (jb_replay_log job) \<and>
    (\<forall>sid se. am_lookup (en_sessions (wd_engine w)) sid = Some se \<longrightarrow>
      (let st = status_to_proto (jb_status job); ks = about jid (se_audit_events se) in
        (sid \<noteq> jb_session_id job \<longrightarrow> ks = []) \<and>
        ks \<in> {[], [JobStarted jid], [JobFinished jid st], [JobStarted jid, JobFinished jid st]} \<and>
        (jb_status job = Running \<longrightarrow> ks \<in> {[], [JobStarted jid]})))"
proof -
  have inv: "world_inv w" using assms(1) by (rule job_reachable_inv)
  then have "wd_point w jid \<noteq> None" using assms(2) by (auto simp del: not_None_eq simp: world_inv_def)
  then obtain p sid0 h where at: "at_point w jid p sid0 h" by (auto simp: at_point_def)
  note pt = world_inv_point [OF inv at, unfolded point_ok_def]
  have "let st = status_to_proto (jb_status job); ks = about jid (se_audit_events se) in
        (sid \<noteq> jb_session_id job \<longrightarrow> ks = []) \<and>
        ks \<in> {[], [JobStarted jid], [JobFinished jid st], [JobStarted jid, JobFinished jid st]} \<and>
        (jb_status job = Running \<longrightarrow> ks \<in> {[], [JobStarted jid]})"
    if "am_lookup (en_sessions (wd_engine w)) sid = Some se" for sid se
    using world_inv_shape [OF inv that, of jid] at pt assms(2)
    by (cases "sid = sid0"; cases p) (auto simp: audit_shape_def Let_def)
  then show ?thesis using pt assms(2) by (cases p) auto
qed

lemma job_lifecycle_witness:
  "\<exists>(w :: unit world) job. job_reachable w \<and>
     job_lookup (en_jobs (wd_engine w)) (job_id_of 1) = Some job \<and> jb_status job = Killed \<and>
     log_ok (en_log_byte_cap (wd_engine w)) (jb_replay_log job)"
proof -
  obtain w :: "unit world" and h where w: "job_reachable w"
      "at_point w (job_id_of 1) (PWritten Killed) (SessionId ''s'') h"
    using demo_written by (auto simp: demo_at_def)
  then obtain job where job: "job_lookup (en_jobs (wd_engine w)) (job_id_of 1) = Some job" "jb_status job = Killed"
    using world_inv_point [OF job_reachable_inv [OF w(1)] w(2)] by (auto simp: point_ok_def)
  show ?thesis using job_lifecycle [OF w(1) job(1)] job w(1) by blast
qed

text \<open>C16: A finished job is final: whatever any thread does next, it stays in the store with the same
  terminal status, finish time and log.\<close>

theorem finished_job_is_final:
  assumes "job_reachable w" and "job_step w w'"
    and "job_lookup (en_jobs (wd_engine w)) jid = Some job" and "status_is_terminal (jb_status job)"
  shows "\<exists>job'. job_lookup (en_jobs (wd_engine w')) jid = Some job' \<and> jb_status job' = jb_status job \<and>
    jb_finished_at job' = jb_finished_at job \<and> ml_events (jb_replay_log job') = ml_events (jb_replay_log job)"
  using job_step_frozen [OF assms(2) job_reachable_inv [OF assms(1)] assms(3,4)] assms(3)
  by (simp add: frozen_def)

lemma finished_job_is_final_witness:
  "\<exists>(w :: unit world) w' job. job_reachable w \<and> job_step w w' \<and> job_lookup (en_jobs (wd_engine w')) (job_id_of 1) = Some job \<and>
     jb_status job = Killed"
proof -
  obtain w :: "unit world" and h where w: "job_reachable w"
      "at_point w (job_id_of 1) (PWritten Killed) (SessionId ''s'') h"
    using demo_written by (auto simp: demo_at_def)
  then obtain job where job: "job_lookup (en_jobs (wd_engine w)) (job_id_of 1) = Some job" "jb_status job = Killed"
    using world_inv_point [OF job_reachable_inv [OF w(1)] w(2)] by (auto simp: point_ok_def)
  note s = job_step.js_notify [OF w(2)]
  show ?thesis using finished_job_is_final [OF w(1) s job(1)] job(2) s w(1) by fastforce
qed

text \<open>C15: The detailed operations implement the transition system: a successful \<open>start\<close> is a run of
  atomic steps that ends with the job's task active, and \<open>finish_job\<close> called by that task is a run
  that ends with the job done; so what holds in every reachable world holds for them in any
  interleaving.\<close>

theorem operations_refine_steps:
  assumes "en_next_id (wd_engine w) \<noteq> - 1" and "engine_start env (wd_engine w) req = (eng', Inr jid)"
    and "status_is_terminal st"
  shows "\<exists>w1 w2 h. job_step\<^sup>*\<^sup>* w w1 \<and> wd_engine w1 = eng' \<and> at_point w1 jid PActive (js_session_id req) h \<and>
    job_step\<^sup>*\<^sup>* w1 w2 \<and> wd_engine w2 = finish_job now eng' jid (js_session_id req) h st \<and>
    at_point w2 jid (PDone st) (js_session_id req) h"
proof -
  obtain w1 h where w1: "job_step\<^sup>*\<^sup>* w w1" "wd_engine w1 = eng'" "at_point w1 jid PActive (js_session_id req) h"
    using engine_start_steps [OF assms(1,2)] by blast
  then show ?thesis using finish_steps [OF w1(3) assms(3), of now] by blast
qed

lemma operations_refine_steps_witness:
  "\<exists>w1 w2 h. job_step\<^sup>*\<^sup>* \<lparr>wd_engine = wit_engine, wd_point = (\<lambda>_. None)\<rparr> w1 \<and>
     wd_engine w1 = fst (engine_start wit_start_env wit_engine wit_request) \<and>
     job_step\<^sup>*\<^sup>* w1 w2 \<and> wd_engine w2 = finish_job 0 (wd_engine w1) (job_id_of 1) (SessionId ''s'') h Killed \<and>
     at_point w2 (job_id_of 1) (PDone Killed) (SessionId ''s'') h"
proof -
  let ?w = "\<lparr>wd_engine = wit_engine, wd_point = (\<lambda>_. None)\<rparr>"
  have n: "en_next_id (wd_engine ?w) \<noteq> - 1" by (simp add: wit_engine_def engine_new_def)
  have start: "engine_start wit_start_env (wd_engine ?w) wit_request =
      (fst (engine_start wit_start_env wit_engine wit_request), Inr (job_id_of 1))"
    using wit_start_eq by simp
  have "js_session_id wit_request = SessionId ''s''" by (simp add: wit_request_def)
  with operations_refine_steps [OF n start, of Killed 0] show ?thesis by fastforce
qed

definition cancel_answer :: "'j world \<Rightarrow> session_id \<Rightarrow> string \<Rightarrow> job_id \<Rightarrow> job_cancel_response core_result" where
  "cancel_answer w sid tok jid =
     snd (engine_cancel (wd_engine w) \<lparr>jc_session_id = sid, jc_cap_token = tok, jc_job_id = jid\<rparr>)"

text \<open>C39: What \<open>cancel\<close> answers the owner of a job, in every reachable world and at every point of the
  job's life: \<open>ok: true\<close> if and only if the job has a cancel entry. So until \<open>start\<close> has registered
  the entry the running job is answered \<open>ok: false\<close>, and \<open>ok: true\<close> as soon as \<open>start\<close> goes one step
  on; and from the write of its terminal status until \<open>finish_job\<close> removes the entry, a finished job that
  still has it is answered \<open>ok: true\<close>, and \<open>ok: false\<close> after that. Both windows are reachable.\<close>

theorem cancel_answer_windows:
  "(\<forall>(w :: 'j world) jid p sid h. job_reachable w \<longrightarrow> at_point w jid p sid h \<longrightarrow>
      (\<exists>job. job_lookup (en_jobs (wd_engine w)) jid = Some job \<and> jb_session_id job = sid \<and>
        cancel_answer w sid tok jid = Inr \<lparr>jcr_ok = (en_cancels (wd_engine w) jid \<noteq> None)\<rparr> \<and>
        (p = PInserted \<longrightarrow> jb_status job = Running \<and> cancel_answer w sid tok jid = Inr \<lparr>jcr_ok = False\<rparr> \<and>
          (\<exists>w'. job_step w w' \<and> at_point w' jid PRegistered sid h \<and>
             job_lookup (en_jobs (wd_engine w')) jid = Some job \<and> cancel_answer w' sid tok jid = Inr \<lparr>jcr_ok = True\<rparr>)) \<and>
        (\<forall>st. p \<in> {PWritten st, PNotified st, PAudited st} \<longrightarrow> jb_status job = st \<and> status_is_terminal st) \<and>
        (\<forall>st. p = PDone st \<longrightarrow> jb_status job = st \<and> cancel_answer w sid tok jid = Inr \<lparr>jcr_ok = False\<rparr>))) \<and>
    (\<exists>(w :: unit world) jid sid h. job_reachable w \<and> at_point w jid PInserted sid h) \<and>
    (\<exists>(w :: unit world) jid sid h. job_reachable w \<and> at_point w jid (PWritten Killed) sid h \<and> cancel_answer w sid tok jid = Inr \<lparr>jcr_ok = True\<rparr>)"
proof (intro conjI allI impI)
  fix w :: "'j world" and jid p sid h
  assume w: "job_reachable w" "at_point w jid p sid h"
  note inv = job_reachable_inv [OF w(1)]
  note ans = owner_cancel [OF inv w(2), of tok, folded cancel_answer_def]
  obtain job where job: "job_lookup (en_jobs (wd_engine w)) jid = Some job" "jb_session_id job = sid"
      and st: "case final_status p of None \<Rightarrow> jb_status job = Running | Some st \<Rightarrow> jb_status job = st \<and> status_is_terminal st"
      and entry: "p = PInserted \<Longrightarrow> en_cancels (wd_engine w) jid = None" "p = PDone st \<Longrightarrow> en_cancels (wd_engine w) jid = None" for st
    using world_inv_point [OF inv w(2)] by (auto simp: point_ok_def)
  have opened: "\<exists>w'. job_step w w' \<and> at_point w' jid PRegistered sid h \<and>
      job_lookup (en_jobs (wd_engine w')) jid = Some job \<and> cancel_answer w' sid tok jid = Inr \<lparr>jcr_ok = True\<rparr>" if "p = PInserted"
  proof -
    let ?w' = "advance w (register_cancel (wd_engine w) jid None None) jid PRegistered sid h"
    have step: "job_step w ?w'" using w(2) that by (intro job_step.js_register) simp
    have at: "at_point ?w' jid PRegistered sid h" by (simp add: at_point_def)
    have "en_cancels (wd_engine ?w') jid \<noteq> None" by (simp add: register_cancel_def)
    then have "cancel_answer ?w' sid tok jid = Inr \<lparr>jcr_ok = True\<rparr>"
      using owner_cancel [OF job_reachable_inv [OF jr_step [OF w(1) step]] at, of tok] by (simp add: cancel_answer_def)
    moreover have "job_lookup (en_jobs (wd_engine ?w')) jid = Some job" using job(1) by (simp add: register_cancel_def)
    ultimately show ?thesis using step at by blast
  qed
  show "\<exists>job. job_lookup (en_jobs (wd_engine w)) jid = Some job \<and> jb_session_id job = sid \<and>
      cancel_answer w sid tok jid = Inr \<lparr>jcr_ok = (en_cancels (wd_engine w) jid \<noteq> None)\<rparr> \<and>
      (p = PInserted \<longrightarrow> jb_status job = Running \<and> cancel_answer w sid tok jid = Inr \<lparr>jcr_ok = False\<rparr> \<and>
        (\<exists>w'. job_step w w' \<and> at_point w' jid PRegistered sid h \<and>
           job_lookup (en_jobs (wd_engine w')) jid = Some job \<and> cancel_answer w' sid tok jid = Inr \<lparr>jcr_ok = True\<rparr>)) \<and>
      (\<forall>st. p \<in> {PWritten st, PNotified st, PAudited st} \<longrightarrow> jb_status job = st \<and> status_is_terminal st) \<and>
      (\<forall>st. p = PDone st \<longrightarrow> jb_status job = st \<and> cancel_answer w sid tok jid = Inr \<lparr>jcr_ok = False\<rparr>)"
    using job st entry opened ans by (intro exI [of _ job]) auto
next
  show "\<exists>(w :: unit world) jid sid h. job_reachable w \<and> at_point w jid PInserted sid h"
    using demo_inserted by (auto simp: demo_at_def)
next
  obtain w :: "unit world" and h entry where w: "job_reachable w"
      "at_point w (job_id_of 1) (PWritten Killed) (SessionId ''s'') h"
      "en_cancels (wd_engine w) (job_id_of 1) = Some entry"
    using demo_written by (auto simp: demo_at_def)
  then have "cancel_answer w (SessionId ''s'') tok (job_id_of 1) = Inr \<lparr>jcr_ok = True\<rparr>"
    using owner_cancel [OF job_reachable_inv [OF w(1)] w(2), of tok] by (simp add: cancel_answer_def)
  then show "\<exists>(w :: unit world) jid sid h. job_reachable w \<and> at_point w jid (PWritten Killed) sid h \<and> cancel_answer w sid tok jid = Inr \<lparr>jcr_ok = True\<rparr>"
    using w(1,2) by blast
qed

lemma cancel_answer_windows_witness:
  "\<exists>(w :: unit world) w' sid jid job. job_reachable w \<and> job_lookup (en_jobs (wd_engine w)) jid = Some job \<and>
     jb_status job = Running \<and> cancel_answer w sid ''t'' jid = Inr \<lparr>jcr_ok = False\<rparr> \<and>
     job_step w w' \<and> cancel_answer w' sid ''t'' jid = Inr \<lparr>jcr_ok = True\<rparr>"
  using cancel_answer_windows [where ?'j = unit and tok = "''t''"] by blast

end
