(* ===== verification/Log_Stream.thy ===== *)
theory Log_Stream
  imports Job_Lifecycle
begin

text \<open>
  The attach path of \<open>axp-core/src/job/engine.rs\<close>: \<open>attach\<close>, \<open>event_to_frame\<close> and
  \<open>JobLogStream::next\<close>. One call of \<open>next\<close> is a little state machine over its atomic parts:
  at the top it pops a pending frame or registers with the wake signal, then it reads the job
  under its lock, and it may end up waiting. It runs beside every step of the engine
  (\<open>job_step\<close>): a stream in a world is the product of the two.
\<close>

section \<open>Frames\<close>

primrec stream_to_proto :: "log_stream \<Rightarrow> log_stream_proto" where
  "stream_to_proto Stdout = ProtoStdout"
| "stream_to_proto Stderr = ProtoStderr"

text \<open>\<open>duration_since(UNIX_EPOCH)\<close> fails before the epoch; \<open>as u64\<close> truncates.\<close>

definition event_to_frame :: "job_id \<Rightarrow> log_event \<Rightarrow> log_event_frame" where
  "event_to_frame jid ev =
     \<lparr>lf_job_id = jid, lf_seq = ev_seq ev, lf_stream = stream_to_proto (ev_stream ev), lf_data = ev_data ev,
      lf_ts_millis = (if ev_timestamp ev \<ge> 0 then of_int (ev_timestamp ev div 1000000) else 0)\<rparr>"

section \<open>The stream\<close>

record job_log_stream =
  jl_job_id :: job_id
  jl_handle :: nat
  jl_cursor :: seq
  jl_pending :: "log_event_frame list"

definition engine_attach :: "'j job_engine \<Rightarrow> job_attach_request \<Rightarrow> job_log_stream core_result" where
  "engine_attach eng req =
     rbind (lookup_owned eng (ja_session_id req) (ja_job_id req)) (\<lambda>handle.
     Inr \<lparr>jl_job_id = ja_job_id req, jl_handle = handle, jl_cursor = ja_from_offset req, jl_pending = []\<rparr>)"

text \<open>The wake signal's count: a waiter registered at one count is woken when it has moved on.\<close>

definition notify_count :: "'j job_store \<Rightarrow> nat \<Rightarrow> nat" where
  "notify_count jobs h = (case job_read jobs h of None \<Rightarrow> 0 | Some job \<Rightarrow> ml_notify (jb_replay_log job))"

text \<open>The loop over the replayed events.\<close>

definition queue_event :: "log_event \<Rightarrow> job_log_stream \<Rightarrow> job_log_stream" where
  "queue_event ev s = s\<lparr>jl_pending := jl_pending s @ [event_to_frame (jl_job_id s) ev], jl_cursor := ev_seq ev + 1\<rparr>"

definition stream_read :: "'j job \<Rightarrow> job_log_stream \<Rightarrow> job_log_stream \<times> bool" where
  "stream_read job s =
     (let replay = mem_replay_from (jb_replay_log job) (jl_cursor s) in
      (fold queue_event (replay_events replay) s, status_is_terminal (jb_status job)))"

text \<open>The program points of a call of \<open>next\<close>; \<open>NDone\<close> carries what it returned.\<close>

datatype next_point =
  NTop
| NEnabled nat
| NWaiting nat
| NDone "log_event_frame option"

definition next_step :: "'j job_store \<Rightarrow> job_log_stream \<Rightarrow> next_point \<Rightarrow> job_log_stream \<times> next_point" where
  "next_step jobs s p =
     (case p of
        NTop \<Rightarrow>
          (case jl_pending s of
             frame # rest \<Rightarrow> (s\<lparr>jl_pending := rest\<rparr>, NDone (Some frame))
           | [] \<Rightarrow> (s, NEnabled (notify_count jobs (jl_handle s))))
      | NEnabled seen \<Rightarrow>
          (case job_read jobs (jl_handle s) of
             None \<Rightarrow> (s, NEnabled seen)
           | Some job \<Rightarrow>
               (case stream_read job s of (s, terminal) \<Rightarrow>
                  if jl_pending s \<noteq> [] then (s, NTop)
                  else if terminal then (s, NDone None)
                  else (s, NWaiting seen)))
      | NWaiting seen \<Rightarrow> (s, if notify_count jobs (jl_handle s) = seen then NWaiting seen else NTop)
      | NDone r \<Rightarrow> (s, NDone r))"

text \<open>
  A caller that asks again after every frame, on a store nobody changes any more: the frames it
  receives up to \<open>None\<close>, or \<open>None\<close> when the steps ran out.
\<close>

fun stream_collect :: "nat \<Rightarrow> 'j job_store \<Rightarrow> job_log_stream \<Rightarrow> next_point \<Rightarrow> log_event_frame list option" where
  "stream_collect 0 jobs s p = None"
| "stream_collect (Suc n) jobs s p =
     (case next_step jobs s p of
        (s, NDone None) \<Rightarrow> Some []
      | (s, NDone (Some frame)) \<Rightarrow> map_option (Cons frame) (stream_collect n jobs s NTop)
      | (s, p) \<Rightarrow> stream_collect n jobs s p)"

section \<open>A stream beside the engine\<close>

record 'j stream_world =
  sw_world :: "'j world"
  sw_stream :: job_log_stream
  sw_point :: next_point
  sw_received :: "log_event_frame list"

inductive stream_step :: "'j stream_world \<Rightarrow> 'j stream_world \<Rightarrow> bool" where
  ss_engine: "job_step (sw_world x) w \<Longrightarrow> stream_step x (x\<lparr>sw_world := w\<rparr>)"
| ss_next:
    "\<forall>r. sw_point x \<noteq> NDone r \<Longrightarrow>
     next_step (en_jobs (wd_engine (sw_world x))) (sw_stream x) (sw_point x) = (s, p) \<Longrightarrow>
     stream_step x (x\<lparr>sw_stream := s, sw_point := p,
       sw_received := sw_received x @ (case p of NDone (Some frame) \<Rightarrow> [frame] | _ \<Rightarrow> [])\<rparr>)"
| ss_again: "sw_point x = NDone (Some frame) \<Longrightarrow> stream_step x (x\<lparr>sw_point := NTop\<rparr>)"

inductive stream_reachable :: "job_attach_request \<Rightarrow> 'j stream_world \<Rightarrow> bool" for req where
  sr_attach:
    "job_reachable w \<Longrightarrow> engine_attach (wd_engine w) req = Inr s \<Longrightarrow>
     stream_reachable req \<lparr>sw_world = w, sw_stream = s, sw_point = NTop, sw_received = []\<rparr>"
| sr_step: "stream_reachable req x \<Longrightarrow> stream_step x y \<Longrightarrow> stream_reachable req y"

section \<open>One job seen from its stream\<close>

definition at_job :: "'j world \<Rightarrow> job_id \<Rightarrow> nat \<Rightarrow> program_point \<Rightarrow> 'j job \<Rightarrow> bool" where
  "at_job w jid h p job \<longleftrightarrow> (\<exists>sid. at_point w jid p sid h) \<and> job_lookup (en_jobs (wd_engine w)) jid = Some job"

lemma at_job_read:
  assumes "world_inv w" and "at_job w jid h p job"
  shows "job_read (en_jobs (wd_engine w)) h = Some job"
    and "log_ok (en_log_byte_cap (wd_engine w)) (jb_replay_log job)"
    and "status_is_terminal (jb_status job) \<longleftrightarrow> final_status p \<noteq> None"
proof -
  obtain sid where at: "at_point w jid p sid h" and job: "job_lookup (en_jobs (wd_engine w)) jid = Some job"
    using assms(2) by (auto simp: at_job_def)
  note pt = world_inv_point [OF assms(1) at, unfolded point_ok_def]
  show "job_read (en_jobs (wd_engine w)) h = Some job"
    using pt job by (simp add: job_lookup_def am_lookup_def job_store_get_def job_read_def)
  show "log_ok (en_log_byte_cap (wd_engine w)) (jb_replay_log job)" using pt job by auto
  show "status_is_terminal (jb_status job) \<longleftrightarrow> final_status p \<noteq> None"
    using pt job by (cases "final_status p") auto
qed

text \<open>What a step of the engine may do to the job: nothing the stream sees, an append, the final
  status, the final notification.\<close>

definition unseen :: "'j job \<Rightarrow> 'j job \<Rightarrow> bool" where
  "unseen job job' \<longleftrightarrow> ml_events (jb_replay_log job') = ml_events (jb_replay_log job) \<and>
     ml_notify (jb_replay_log job') = ml_notify (jb_replay_log job) \<and> jb_status job' = jb_status job"

definition notified :: "program_point \<Rightarrow> bool" where
  "notified p \<longleftrightarrow> (\<exists>st. p \<in> {PNotified st, PAudited st, PDone st})"

definition view_step :: "program_point \<Rightarrow> 'j job \<Rightarrow> program_point \<Rightarrow> 'j job \<Rightarrow> bool" where
  "view_step p job p' job' \<longleftrightarrow>
     unseen job job' \<and> final_status p' = final_status p \<and> notified p' = notified p \<or>
     p = PActive \<and> p' = PActive \<and> jb_status job' = jb_status job \<and>
       (\<exists>e. ml_events (jb_replay_log job') = ml_events (jb_replay_log job) @ [e]) \<and>
       ml_notify (jb_replay_log job') = Suc (ml_notify (jb_replay_log job)) \<or>
     p = PActive \<and> (\<exists>st. p' = PWritten st \<and> status_is_terminal st) \<and>
       ml_events (jb_replay_log job') = ml_events (jb_replay_log job) \<and>
       ml_notify (jb_replay_log job') = ml_notify (jb_replay_log job) \<or>
     final_status p' = final_status p \<and> notified p' \<and> jb_status job' = jb_status job \<and>
       ml_events (jb_replay_log job') = ml_events (jb_replay_log job) \<and>
       ml_notify (jb_replay_log job') = Suc (ml_notify (jb_replay_log job))"

lemma unseen_refl [simp]: "unseen job job" by (simp add: unseen_def)

lemma view_stutter:
  "at_job w jid h p job \<Longrightarrow> wd_point w' jid = wd_point w jid \<Longrightarrow>
     job_lookup (en_jobs (wd_engine w')) jid = job_lookup (en_jobs (wd_engine w)) jid \<Longrightarrow>
     \<exists>p' job'. at_job w' jid h p' job' \<and> view_step p job p' job'"
  by (auto simp: at_job_def at_point_def view_step_def)

text \<open>A step of the job's own threads that updates the job through its handle.\<close>

lemma view_own:
  assumes "world_inv w" and "at_job w jid h p job" and "at_point w k q sid g"
    and "w' = advance w ((wd_engine w)\<lparr>en_jobs := update_job f (en_jobs (wd_engine w)) g\<rparr>) k q' sid g"
    and "k = jid \<Longrightarrow> view_step q job q' (f job)"
  shows "\<exists>p' job'. at_job w' jid h p' job' \<and> view_step p job p' job'"
proof -
  have inv: "job_store_inv (en_jobs (wd_engine w))" using assms(1) by (simp add: world_inv_def engine_inv_def)
  have get: "job_store_get (en_jobs (wd_engine w)) k = Some g"
    using world_inv_point [OF assms(1,3)] by (simp add: point_ok_def)
  show ?thesis
  proof (cases "k = jid")
    case True
    then have "q = p" "g = h" using assms(2,3) by (auto simp: at_job_def at_point_def)
    then show ?thesis
      using assms(2,4) assms(5) [OF True] True update_job_lookup [OF inv get, of f jid]
      by (intro exI [of _ q'] exI [of _ "f job"]) (auto simp: at_job_def at_point_def)
  next
    case False
    then show ?thesis
      using assms(4) update_job_lookup [OF inv get, of f jid] by (intro view_stutter [OF assms(2)]) auto
  qed
qed

text \<open>A step of the job's own threads that leaves the jobs alone.\<close>

lemma view_point:
  assumes "at_job w jid h p job" and "at_point w k q sid g" and "w' = advance w eng k q' sid g"
    and "en_jobs eng = en_jobs (wd_engine w)" and "final_status q' = final_status q" and "notified q' = notified q"
  shows "\<exists>p' job'. at_job w' jid h p' job' \<and> view_step p job p' job'"
proof (cases "k = jid")
  case True
  then have "q = p" "g = h" using assms(1,2) by (auto simp: at_job_def at_point_def)
  then show ?thesis
    using assms True by (intro exI [of _ q'] exI [of _ job]) (auto simp: at_job_def at_point_def view_step_def)
next
  case False
  then show ?thesis using assms by (intro view_stutter [OF assms(1)]) auto
qed

lemma view_log:
  assumes "world_inv w" and "at_job w jid h p job" and "at_point w k PActive sid g"
    and "w' = w\<lparr>wd_engine := (wd_engine w)\<lparr>en_jobs := fst (push_log now (en_jobs (wd_engine w)) g stream data)\<rparr>\<rparr>"
  shows "\<exists>p' job'. at_job w' jid h p' job' \<and> view_step p job p' job'"
proof -
  let ?f = "\<lambda>job. job\<lparr>jb_replay_log :=
    fst (mem_append (jb_replay_log job) \<lparr>ap_stream = stream, ap_data = data, ap_timestamp = now\<rparr>)\<rparr>"
  have "w' = advance w ((wd_engine w)\<lparr>en_jobs := update_job ?f (en_jobs (wd_engine w)) g\<rparr>) k PActive sid g"
    using assms(4) unfolding push_log_update by (simp add: advance_stay [OF assms(3)])
  moreover have "view_step PActive job PActive (?f job)"
    using mem_append_cases [OF surjective_pairing, of "jb_replay_log job"
      "\<lparr>ap_stream = stream, ap_data = data, ap_timestamp = now\<rparr>"] by (auto simp: view_step_def unseen_def)
  ultimately show ?thesis by (intro view_own [OF assms(1-3)])
qed

lemma job_step_view:
  assumes "job_step w w'" and "world_inv w" and "at_job w jid h p job"
  shows "\<exists>p' job'. at_job w' jid h p' job' \<and> view_step p job p' job'"
  using assms(1)
proof cases
  case (js_insert now req cwd eng jid' h')
  have "engine_inv (wd_engine w)" using assms(2) by (simp add: world_inv_def)
  note ins = insert_running_job_inv [OF this js_insert(2,3)]
  have "jid' \<noteq> jid" using ins(3) assms(3) by (auto simp: at_job_def)
  then show ?thesis using ins(4) js_insert(1) by (intro view_stutter [OF assms(3)]) auto
next
  case (js_register k sid g i c)
  then show ?thesis by (intro view_point [OF assms(3) js_register(2,1)]) (simp_all add: notified_def)
next
  case (js_started k sid g now task)
  then show ?thesis
    by (intro view_point [OF assms(3) js_started(2,1)]) (simp_all add: notified_def spawn_task_def)
next
  case (js_log k sid g now stream data)
  then show ?thesis by (intro view_log [OF assms(2,3) js_log(2)]) simp
next
  case (js_write k sid g st now)
  show ?thesis
    by (rule view_own [OF assms(2,3) js_write(2) js_write(1) [unfolded finish_write_update]])
      (use js_write(3) in \<open>simp add: view_step_def\<close>)
next
  case (js_notify k st sid g)
  show ?thesis
    by (rule view_own [OF assms(2,3) js_notify(2) js_notify(1) [unfolded finish_notify_update]])
      (simp add: view_step_def notified_def)
next
  case (js_audit k st sid g now)
  then show ?thesis by (intro view_point [OF assms(3) js_audit(2,1)]) (simp_all add: notified_def)
next
  case (js_remove k st sid g)
  then show ?thesis
    by (intro view_point [OF assms(3) js_remove(2,1)]) (simp_all add: notified_def finish_remove_def)
next
  case (js_cancel req eng r)
  then show ?thesis
    using engine_cancel_quieter [OF js_cancel(2)] by (intro view_stutter [OF assms(3)]) (simp_all add: quieter_def)
next
  case (js_cancel_session sid eng n)
  then have "quieter (wd_engine w) eng" using cancel_jobs_quieter unfolding cancel_for_session_def by blast
  then show ?thesis using js_cancel_session(1) by (intro view_stutter [OF assms(3)]) (simp_all add: quieter_def)
qed (intro view_stutter [OF assms(3)], simp_all add: new_flags_def)+

section \<open>Reading\<close>

lemma fold_queue_event:
  "jl_job_id (fold queue_event evs s) = jl_job_id s \<and> jl_handle (fold queue_event evs s) = jl_handle s \<and>
   jl_pending (fold queue_event evs s) = jl_pending s @ map (event_to_frame (jl_job_id s)) evs \<and>
   jl_cursor (fold queue_event evs s) = (if evs = [] then jl_cursor s else ev_seq (last evs) + 1)"
  by (induction evs arbitrary: s) (simp_all add: queue_event_def)

text \<open>With the cursor at position \<open>c\<close>, a read queues the events from \<open>c\<close> on and moves it to the end.\<close>

lemma stream_read_eq:
  assumes "log_ok cap (jb_replay_log job)" and "jl_cursor s = of_nat c" and "c \<le> usize_max"
    and "length (ml_events (jb_replay_log job)) \<le> usize_max" and "stream_read job s = (s', terminal)"
  shows "terminal = status_is_terminal (jb_status job) \<and> jl_job_id s' = jl_job_id s \<and> jl_handle s' = jl_handle s \<and>
    jl_pending s' = jl_pending s @ map (event_to_frame (jl_job_id s)) (drop c (ml_events (jb_replay_log job))) \<and>
    jl_cursor s' = of_nat (max c (length (ml_events (jb_replay_log job))))"
proof -
  let ?evs = "ml_events (jb_replay_log job)"
  have replay: "replay_events (mem_replay_from (jb_replay_log job) (jl_cursor s)) = drop c ?evs"
    using assms(2,3) by (simp add: mem_replay_from_def mem_since_def unat_of_nat_u64)
  have "ev_seq (last (drop c ?evs)) + 1 = of_nat (length ?evs)" if "c < length ?evs"
  proof -
    have "last (drop c ?evs) = ?evs ! (length ?evs - 1)" using that by (simp add: last_conv_nth)
    moreover have "ev_seq (?evs ! (length ?evs - 1)) = of_nat (length ?evs - 1)"
      using assms(1) that by (simp add: log_ok_def)
    ultimately show ?thesis using that by (cases "length ?evs") simp_all
  qed
  moreover have "s' = fold queue_event (drop c ?evs) s" "terminal = status_is_terminal (jb_status job)"
    using assms(5) replay by (simp_all add: stream_read_def Let_def)
  ultimately show ?thesis
    using assms(2) fold_queue_event [of "drop c ?evs" s] by (cases "c < length ?evs") (auto simp: max_def)
qed

section \<open>The stream invariant\<close>

text \<open>
  The frames received and pending are those of the events from the offset up to the cursor. A
  stream that waits with nothing signalled has nothing to deliver and a wake-up still to come.
\<close>

definition point_inv :: "program_point \<Rightarrow> 'j job \<Rightarrow> job_log_stream \<Rightarrow> nat \<Rightarrow> next_point \<Rightarrow> bool" where
  "point_inv p job s c np \<longleftrightarrow>
     (case np of
        NTop \<Rightarrow> True
      | NEnabled n \<Rightarrow> jl_pending s = [] \<and> n \<le> ml_notify (jb_replay_log job)
      | NWaiting n \<Rightarrow> jl_pending s = [] \<and> n \<le> ml_notify (jb_replay_log job) \<and>
          (n = ml_notify (jb_replay_log job) \<longrightarrow> length (ml_events (jb_replay_log job)) \<le> c \<and> \<not> notified p)
      | NDone None \<Rightarrow> jl_pending s = [] \<and> status_is_terminal (jb_status job) \<and>
          length (ml_events (jb_replay_log job)) \<le> c
      | NDone (Some frame) \<Rightarrow> True)"

definition cursor_inv :: "job_attach_request \<Rightarrow> 'j job \<Rightarrow> job_log_stream \<Rightarrow> log_event_frame list \<Rightarrow> nat \<Rightarrow> bool" where
  "cursor_inv req job s received c \<longleftrightarrow>
     (let k = unat (ja_from_offset req); evs = ml_events (jb_replay_log job) in
      jl_cursor s = of_nat c \<and> c \<le> usize_max \<and> k \<le> c \<and> c \<le> max k (length evs) \<and>
      received @ jl_pending s = map (event_to_frame (ja_job_id req)) (take (c - k) (drop k evs)))"

definition stream_inv :: "job_attach_request \<Rightarrow> 'j stream_world \<Rightarrow> bool" where
  "stream_inv req x \<longleftrightarrow> world_inv (sw_world x) \<and> jl_job_id (sw_stream x) = ja_job_id req \<and>
     (\<exists>p job. at_job (sw_world x) (ja_job_id req) (jl_handle (sw_stream x)) p job \<and>
        (length (ml_events (jb_replay_log job)) \<le> usize_max \<longrightarrow>
          (\<exists>c. cursor_inv req job (sw_stream x) (sw_received x) c \<and>
             point_inv p job (sw_stream x) c (sw_point x))))"

lemma cursor_inv_more:
  "cursor_inv req job s received c \<Longrightarrow> ml_events (jb_replay_log job') = ml_events (jb_replay_log job) @ evs \<Longrightarrow>
     cursor_inv req job' s received c"
  by (auto simp: cursor_inv_def Let_def)

lemma point_inv_view:
  assumes "view_step p job p' job'" and "point_inv p job s c np"
    and "status_is_terminal (jb_status job) \<longleftrightarrow> final_status p \<noteq> None"
    and "status_is_terminal (jb_status job') \<longleftrightarrow> final_status p' \<noteq> None"
  shows "point_inv p' job' s c np"
  using assms by (cases np) (auto simp: point_inv_def view_step_def unseen_def notified_def split: option.splits)

lemma view_step_events:
  "view_step p job p' job' \<Longrightarrow>
     \<exists>evs. ml_events (jb_replay_log job') = ml_events (jb_replay_log job) @ evs"
  by (auto simp: view_step_def unseen_def)

lemma stream_inv_engine:
  assumes "stream_inv req x" and "job_step (sw_world x) w"
  shows "stream_inv req (x\<lparr>sw_world := w\<rparr>)"
proof -
  let ?h = "jl_handle (sw_stream x)" and ?j = "ja_job_id req"
  from assms(1) obtain p job where inv: "world_inv (sw_world x)" and at: "at_job (sw_world x) ?j ?h p job"
      and c: "length (ml_events (jb_replay_log job)) \<le> usize_max \<Longrightarrow>
        \<exists>c. cursor_inv req job (sw_stream x) (sw_received x) c \<and> point_inv p job (sw_stream x) c (sw_point x)"
    by (auto simp: stream_inv_def)
  note inv' = job_step_inv [OF assms(2) inv]
  obtain p' job' where at': "at_job w ?j ?h p' job'" and view: "view_step p job p' job'"
    using job_step_view [OF assms(2) inv at] by blast
  obtain evs where evs: "ml_events (jb_replay_log job') = ml_events (jb_replay_log job) @ evs"
    using view_step_events [OF view] by blast
  have "\<exists>c. cursor_inv req job' (sw_stream x) (sw_received x) c \<and> point_inv p' job' (sw_stream x) c (sw_point x)"
    if "length (ml_events (jb_replay_log job')) \<le> usize_max"
    using c that evs cursor_inv_more [OF _ evs] point_inv_view [OF view] at_job_read(3) [OF inv at]
      at_job_read(3) [OF inv' at'] by fastforce
  then show ?thesis using assms(1) inv' at' by (auto simp: stream_inv_def)
qed

lemma next_step_frame:
  "next_step jobs s np = (s', np') \<Longrightarrow> jl_job_id s' = jl_job_id s \<and> jl_handle s' = jl_handle s"
  using fold_queue_event
  by (auto simp: next_step_def stream_read_def Let_def split: next_point.splits list.splits option.splits if_splits)

lemma next_step_inv:
  assumes "cursor_inv req job s received c" and "point_inv p job s c np" and "\<forall>r. np \<noteq> NDone r"
    and "job_read jobs (jl_handle s) = Some job" and "log_ok cap (jb_replay_log job)"
    and "length (ml_events (jb_replay_log job)) \<le> usize_max" and "jl_job_id s = ja_job_id req"
    and "status_is_terminal (jb_status job) \<longleftrightarrow> final_status p \<noteq> None"
    and "next_step jobs s np = (s', np')"
  shows "\<exists>c'. cursor_inv req job s' (received @ (case np' of NDone (Some frame) \<Rightarrow> [frame] | _ \<Rightarrow> [])) c' \<and>
    point_inv p job s' c' np'"
proof (cases np)
  case NTop
  then show ?thesis
    using assms(1,4,9)
    by (cases "jl_pending s")
      (auto simp: next_step_def cursor_inv_def point_inv_def notify_count_def Let_def intro!: exI [of _ c])
next
  case (NEnabled seen)
  obtain s1 terminal where rd: "stream_read job s = (s1, terminal)" by fastforce
  have c: "jl_cursor s = of_nat c" "c \<le> usize_max" using assms(1) by (simp_all add: cursor_inv_def Let_def)
  note r = stream_read_eq [OF assms(5) c assms(6) rd]
  let ?evs = "ml_events (jb_replay_log job)" and ?k = "unat (ja_from_offset req)"
  let ?c = "max c (length ?evs)"
  have empty: "jl_pending s = []" using assms(2) NEnabled by (simp add: point_inv_def)
  have "drop (c - ?k) (drop ?k ?evs) = drop c ?evs"
    using assms(1) by (simp add: cursor_inv_def Let_def)
  then have "take (c - ?k) (drop ?k ?evs) @ drop c ?evs = drop ?k ?evs" by (metis append_take_drop_id)
  then have cur: "cursor_inv req job s1 received ?c"
    using assms(1,6,7) r empty by (auto simp: cursor_inv_def Let_def simp flip: map_append)
  have np': "np' = (if jl_pending s1 \<noteq> [] then NTop else if terminal then NDone None else NWaiting seen)" "s' = s1"
    using assms(4,9) NEnabled rd by (auto simp: next_step_def split: if_splits)
  have "point_inv p job s1 ?c np'"
    using assms(2,8) NEnabled r by (auto simp: np' point_inv_def notified_def split: if_splits)
  then show ?thesis using cur np' by (intro exI [of _ ?c]) (auto split: if_splits)
next
  case (NWaiting seen)
  then show ?thesis
    using assms(1,2,4,9) by (auto simp: next_step_def point_inv_def notify_count_def intro!: exI [of _ c] split: if_splits)
qed (use assms(3) in simp)

lemma stream_inv_next:
  assumes "stream_inv req x" and "\<forall>r. sw_point x \<noteq> NDone r"
    and "next_step (en_jobs (wd_engine (sw_world x))) (sw_stream x) (sw_point x) = (s, np)"
  shows "stream_inv req (x\<lparr>sw_stream := s, sw_point := np,
    sw_received := sw_received x @ (case np of NDone (Some frame) \<Rightarrow> [frame] | _ \<Rightarrow> [])\<rparr>)"
proof -
  from assms(1) obtain p job where inv: "world_inv (sw_world x)" "jl_job_id (sw_stream x) = ja_job_id req"
      and at: "at_job (sw_world x) (ja_job_id req) (jl_handle (sw_stream x)) p job"
      and c: "length (ml_events (jb_replay_log job)) \<le> usize_max \<Longrightarrow>
        \<exists>c. cursor_inv req job (sw_stream x) (sw_received x) c \<and> point_inv p job (sw_stream x) c (sw_point x)"
    by (auto simp: stream_inv_def)
  note rd = at_job_read [OF inv(1) at]
  have "\<exists>c. cursor_inv req job s (sw_received x @ (case np of NDone (Some frame) \<Rightarrow> [frame] | _ \<Rightarrow> [])) c \<and>
      point_inv p job s c np" if "length (ml_events (jb_replay_log job)) \<le> usize_max"
    using c [OF that] next_step_inv [OF _ _ assms(2) rd(1,2) that inv(2) rd(3) assms(3)] by blast
  then show ?thesis
    using inv at next_step_frame [OF assms(3)] by (auto simp: stream_inv_def)
qed

lemma stream_inv_attach:
  assumes "job_reachable w" and "engine_attach (wd_engine w) req = Inr s"
  shows "stream_inv req \<lparr>sw_world = w, sw_stream = s, sw_point = NTop, sw_received = []\<rparr>"
proof -
  have inv: "world_inv w" using assms(1) by (rule job_reachable_inv)
  obtain h where own: "lookup_owned (wd_engine w) (ja_session_id req) (ja_job_id req) = Inr h"
      and s: "s = \<lparr>jl_job_id = ja_job_id req, jl_handle = h, jl_cursor = ja_from_offset req, jl_pending = []\<rparr>"
    using assms(2) by (auto simp: engine_attach_def elim!: rbind_InrE)
  then have get: "job_store_get (en_jobs (wd_engine w)) (ja_job_id req) = Some h"
    by (auto simp: lookup_owned_def result_simps split: option.splits if_splits)
  obtain job where job: "job_lookup (en_jobs (wd_engine w)) (ja_job_id req) = Some job"
    using own get by (auto simp: lookup_owned_def job_lookup_def am_lookup_def job_store_get_def job_read_def
        split: option.splits)
  then have "wd_point w (ja_job_id req) \<noteq> None" using inv by (auto simp del: not_None_eq simp: world_inv_def)
  then obtain p sid g where at: "at_point w (ja_job_id req) p sid g" by (auto simp: at_point_def)
  then have "g = h" using world_inv_point [OF inv at] get by (simp add: point_ok_def)
  then have "at_job w (ja_job_id req) h p job" using at job by (auto simp: at_job_def)
  moreover have "cursor_inv req job s [] (unat (ja_from_offset req))"
    by (simp add: cursor_inv_def s Let_def)
  ultimately show ?thesis
    using inv s by (auto simp: stream_inv_def point_inv_def)
qed

lemma stream_reachable_inv: "stream_reachable req x \<Longrightarrow> stream_inv req x"
proof (induction rule: stream_reachable.induct)
  case (sr_attach w s)
  then show ?case by (rule stream_inv_attach)
next
  case (sr_step x y)
  from sr_step.hyps(2) show ?case
  proof cases
    case (ss_engine w)
    then show ?thesis using stream_inv_engine [OF sr_step.IH] by simp
  next
    case (ss_next s p)
    then show ?thesis using stream_inv_next [OF sr_step.IH] by simp
  next
    case (ss_again frame)
    then show ?thesis using sr_step.IH by (auto simp: stream_inv_def point_inv_def)
  qed
qed

section \<open>The end of a stream\<close>

lemma collect_steps:
  "next_step jobs s p = (s', NDone None) \<Longrightarrow> stream_collect (Suc n) jobs s p = Some []"
  "next_step jobs s p = (s', NDone (Some frame)) \<Longrightarrow>
     stream_collect (Suc n) jobs s p = map_option (Cons frame) (stream_collect n jobs s' NTop)"
  "next_step jobs s p = (s', p') \<Longrightarrow> \<forall>r. p' \<noteq> NDone r \<Longrightarrow>
     stream_collect (Suc n) jobs s p = stream_collect n jobs s' p'"
  by (simp_all split: next_point.split)

declare stream_collect.simps(2) [simp del]

text \<open>Of a finished job whose events \<open>evs\<close> no longer change.\<close>

definition finished :: "'j job_store \<Rightarrow> nat \<Rightarrow> log_event list \<Rightarrow> bool" where
  "finished jobs h evs \<longleftrightarrow> (\<exists>job cap. job_read jobs h = Some job \<and> status_is_terminal (jb_status job) \<and>
     log_ok cap (jb_replay_log job) \<and> ml_events (jb_replay_log job) = evs) \<and> length evs \<le> usize_max"

lemma finished_read:
  assumes "finished jobs h evs" and "jl_handle s = h" and "jl_cursor s = of_nat c" and "c \<le> usize_max"
    and "jl_pending s = []"
  shows "\<exists>s'. next_step jobs s (NEnabled n) = (s', if c < length evs then NTop else NDone None) \<and>
    jl_handle s' = h \<and> jl_cursor s' = of_nat (max c (length evs)) \<and>
    jl_pending s' = map (event_to_frame (jl_job_id s)) (drop c evs)"
proof -
  obtain job cap where job: "job_read jobs h = Some job" "status_is_terminal (jb_status job)"
      "log_ok cap (jb_replay_log job)" "ml_events (jb_replay_log job) = evs" "length evs \<le> usize_max"
    using assms(1) by (auto simp: finished_def)
  obtain s1 t where rd: "stream_read job s = (s1, t)" by fastforce
  from stream_read_eq [OF job(3) assms(3,4) _ rd] job assms(2,5) rd show ?thesis
    by (intro exI [of _ s1]) (auto simp: next_step_def)
qed

lemma finished_top: "jl_pending s = [] \<Longrightarrow> next_step jobs s NTop = (s, NEnabled (notify_count jobs (jl_handle s)))"
  by (simp add: next_step_def)

lemma finished_pop: "jl_pending s = f # fs \<Longrightarrow> next_step jobs s NTop = (s\<lparr>jl_pending := fs\<rparr>, NDone (Some f))"
  by (simp add: next_step_def)

lemma collect_end:
  assumes "finished jobs h evs" and "length evs \<le> c" and "c \<le> usize_max"
  shows "jl_handle s = h \<Longrightarrow> jl_cursor s = of_nat c \<Longrightarrow> length (jl_pending s) + 2 \<le> n \<Longrightarrow>
    stream_collect n jobs s NTop = Some (jl_pending s)"
proof (induction "jl_pending s" arbitrary: s n)
  case Nil
  then obtain m where n: "n = Suc (Suc m)" by (metis add_2_eq_Suc' le_Suc_ex list.size(3) add_0 add_Suc)
  from finished_read [OF assms(1) Nil.prems(1,2) assms(3)] Nil.hyps assms(2)
  obtain s' where "next_step jobs s (NEnabled (notify_count jobs (jl_handle s))) = (s', NDone None)"
    by (metis leD)
  then show ?case
    using collect_steps(3) [OF finished_top] collect_steps(1) Nil.hyps n by (metis next_point.distinct(9))
next
  case (Cons f fs)
  then obtain m where n: "n = Suc m" "length fs + 2 \<le> m" by (cases n) (simp_all flip: Cons.hyps(2))
  have "stream_collect m jobs (s\<lparr>jl_pending := fs\<rparr>) NTop = Some fs"
    using Cons.hyps(1) [of "s\<lparr>jl_pending := fs\<rparr>"] Cons.prems n by simp
  then show ?case
    using collect_steps(2) [of jobs s NTop, OF finished_pop, of f fs m] n(1) by (simp flip: Cons.hyps(2))
qed

lemma collect_read:
  assumes "finished jobs h evs" and "c \<le> usize_max" and "jl_handle s = h" and "jl_cursor s = of_nat c"
    and "jl_pending s = []" and "length evs + 3 \<le> n"
  shows "stream_collect n jobs s (NEnabled i) = Some (map (event_to_frame (jl_job_id s)) (drop c evs))"
proof -
  obtain m where n: "n = Suc m" "length evs + 2 \<le> m" using assms(6) by (cases n) simp_all
  obtain s' where s': "next_step jobs s (NEnabled i) = (s', if c < length evs then NTop else NDone None)"
      "jl_handle s' = h" "jl_cursor s' = of_nat (max c (length evs))"
      "jl_pending s' = map (event_to_frame (jl_job_id s)) (drop c evs)"
    using finished_read [OF assms(1,3,4,2,5)] by blast
  show ?thesis
  proof (cases "c < length evs")
    case True
    have "length evs \<le> usize_max" using assms(1) by (simp add: finished_def)
    then have "stream_collect m jobs s' NTop = Some (jl_pending s')"
      using s' n True assms(2) by (intro collect_end [OF assms(1), of "max c (length evs)"]) simp_all
    then show ?thesis using s' n True collect_steps(3) [of jobs s "NEnabled i" s' NTop m] by simp
  next
    case False
    then show ?thesis using s' n collect_steps(1) [of jobs s "NEnabled i" s' m] by simp
  qed
qed

lemma collect_top:
  assumes "finished jobs h evs" and "c \<le> usize_max"
  shows "jl_handle s = h \<Longrightarrow> jl_cursor s = of_nat c \<Longrightarrow> length (jl_pending s) + length evs + 4 \<le> n \<Longrightarrow>
    stream_collect n jobs s NTop = Some (jl_pending s @ map (event_to_frame (jl_job_id s)) (drop c evs))"
proof (induction "jl_pending s" arbitrary: s n)
  case Nil
  then obtain m where n: "n = Suc m" "length evs + 3 \<le> m" by (cases n) simp_all
  show ?case
    using collect_steps(3) [OF finished_top, of s jobs m] n Nil collect_read [OF assms Nil.prems(1,2) _ n(2)] by simp
next
  case (Cons f fs)
  then obtain m where n: "n = Suc m" "length fs + length evs + 4 \<le> m" by (cases n) (simp_all flip: Cons.hyps(2))
  have "stream_collect m jobs (s\<lparr>jl_pending := fs\<rparr>) NTop =
      Some (fs @ map (event_to_frame (jl_job_id s)) (drop c evs))"
    using Cons.hyps(1) [of "s\<lparr>jl_pending := fs\<rparr>"] Cons.prems n by simp
  then show ?case
    using collect_steps(2) [of jobs s NTop, OF finished_pop, of f fs m] n(1) by (simp flip: Cons.hyps(2))
qed

section \<open>Properties\<close>

text \<open>The frames a stream owes its caller.\<close>

definition owed :: "job_attach_request \<Rightarrow> 'j job \<Rightarrow> log_event_frame list" where
  "owed req job = map (event_to_frame (ja_job_id req))
     (drop (unat (ja_from_offset req)) (ml_events (jb_replay_log job)))"

lemma cursor_inv_owed:
  assumes "cursor_inv req job s received c"
  shows "prefix received (owed req job)"
    and "jl_pending s = [] \<Longrightarrow> length (ml_events (jb_replay_log job)) \<le> c \<Longrightarrow> received = owed req job"
    and "received @ jl_pending s @ map (event_to_frame (ja_job_id req)) (drop c (ml_events (jb_replay_log job))) =
      owed req job"
proof -
  let ?k = "unat (ja_from_offset req)" and ?evs = "ml_events (jb_replay_log job)"
  have rp: "received @ jl_pending s = map (event_to_frame (ja_job_id req)) (take (c - ?k) (drop ?k ?evs))"
      and k: "?k \<le> c"
    using assms by (simp_all add: cursor_inv_def Let_def)
  have "drop c ?evs = drop (c - ?k) (drop ?k ?evs)" using k by simp
  then show all: "received @ jl_pending s @ map (event_to_frame (ja_job_id req)) (drop c ?evs) = owed req job"
    using rp by (metis append.assoc append_take_drop_id map_append owed_def)
  then show "prefix received (owed req job)" by (metis prefixI)
  show "received = owed req job" if "jl_pending s = []" "length ?evs \<le> c"
    using all that by simp
qed

lemma stream_reachable_cases:
  assumes "stream_reachable req x" and "job_lookup (en_jobs (wd_engine (sw_world x))) (ja_job_id req) = Some job"
    and "length (ml_events (jb_replay_log job)) \<le> usize_max"
  obtains p c where "world_inv (sw_world x)" and "jl_job_id (sw_stream x) = ja_job_id req"
    and "at_job (sw_world x) (ja_job_id req) (jl_handle (sw_stream x)) p job"
    and "cursor_inv req job (sw_stream x) (sw_received x) c" and "point_inv p job (sw_stream x) c (sw_point x)"
  using stream_reachable_inv [OF assms(1)] assms(2,3) that by (auto simp: stream_inv_def at_job_def)

text \<open>A stream attached to the demo job, for the witnesses.\<close>

definition demo_attach :: job_attach_request where
  "demo_attach = \<lparr>ja_session_id = SessionId ''s'', ja_cap_token = ''t'', ja_job_id = job_id_of 1, ja_from_offset = 0\<rparr>"

definition demo_stream :: "unit world \<Rightarrow> nat \<Rightarrow> next_point \<Rightarrow> unit stream_world" where
  "demo_stream w h np = \<lparr>sw_world = w, sw_stream = \<lparr>jl_job_id = job_id_of 1, jl_handle = h, jl_cursor = 0, jl_pending = []\<rparr>,
     sw_point = np, sw_received = []\<rparr>"

lemma demo_stream_top:
  assumes "demo_at w p h"
  shows "stream_reachable demo_attach (demo_stream w h NTop)"
proof -
  have inv: "world_inv w" and at: "at_point w (job_id_of 1) p (SessionId ''s'') h"
    using assms by (auto simp: demo_at_def job_reachable_inv)
  then have "lookup_owned (wd_engine w) (SessionId ''s'') (job_id_of 1) = Inr h"
    using world_inv_point [OF inv at]
    by (auto simp: point_ok_def lookup_owned_def job_lookup_def am_lookup_def job_store_get_def job_read_def)
  then have "engine_attach (wd_engine w) demo_attach = Inr (sw_stream (demo_stream w h NTop))"
    by (simp add: engine_attach_def demo_attach_def demo_stream_def)
  from sr_attach [OF _ this] show ?thesis using assms by (simp add: demo_at_def demo_stream_def)
qed

lemma demo_stream_next:
  assumes "demo_at w p h" and "job_lookup (en_jobs (wd_engine w)) (job_id_of 1) = Some job"
  shows "stream_reachable demo_attach
    (demo_stream w h (if status_is_terminal (jb_status job) then NDone None else NWaiting (ml_notify (jb_replay_log job))))"
proof -
  let ?jobs = "en_jobs (wd_engine w)" and ?n = "ml_notify (jb_replay_log job)"
  let ?s = "sw_stream (demo_stream w h NTop)"
  have inv: "world_inv w" and "at_job w (job_id_of 1) h p job"
    using assms by (auto simp: demo_at_def job_reachable_inv at_job_def)
  from at_job_read(1) [OF this] have rd: "job_read ?jobs h = Some job" .
  have ev: "ml_events (jb_replay_log job) = []" using assms by (simp add: demo_at_def)
  have "next_step ?jobs ?s NTop = (?s, NEnabled ?n)"
    by (simp add: next_step_def demo_stream_def notify_count_def rd)
  then have "stream_step (demo_stream w h NTop) (demo_stream w h (NEnabled ?n))"
    using ss_next [of "demo_stream w h NTop" ?s "NEnabled ?n"] by (simp add: demo_stream_def)
  with demo_stream_top [OF assms(1)] have r: "stream_reachable demo_attach (demo_stream w h (NEnabled ?n))" by (rule sr_step)
  let ?np = "if status_is_terminal (jb_status job) then NDone None else NWaiting ?n"
  have "next_step ?jobs ?s (NEnabled ?n) = (?s, ?np)"
    by (simp add: next_step_def demo_stream_def rd stream_read_def mem_replay_from_def mem_since_def ev Let_def)
  then have "stream_step (demo_stream w h (NEnabled ?n)) (demo_stream w h ?np)"
    using ss_next [of "demo_stream w h (NEnabled ?n)" ?s ?np]
    by (cases "status_is_terminal (jb_status job)") (simp_all add: demo_stream_def)
  with r show ?thesis by (rule sr_step)
qed

text \<open>C19: An attached stream delivers every event from the requested offset exactly once and in order:
  at any moment, whatever the engine's threads did in between, the frames received are a prefix of
  the frames of the events from the offset on; and once \<open>next\<close> returned \<open>None\<close> the job is finished
  and they are all of them.\<close>

theorem log_stream_exactly_once:
  assumes "stream_reachable req x" and "job_lookup (en_jobs (wd_engine (sw_world x))) (ja_job_id req) = Some job"
    and "length (ml_events (jb_replay_log job)) \<le> usize_max"
  shows "prefix (sw_received x) (owed req job) \<and>
    (sw_point x = NDone None \<longrightarrow> status_is_terminal (jb_status job) \<and> sw_received x = owed req job)"
proof (rule stream_reachable_cases [OF assms])
  fix p c
  assume "cursor_inv req job (sw_stream x) (sw_received x) c" and "point_inv p job (sw_stream x) c (sw_point x)"
  then show ?thesis using cursor_inv_owed [of req job] by (auto simp: point_inv_def)
qed

lemma log_stream_exactly_once_witness:
  "\<exists>(x :: unit stream_world) job. stream_reachable demo_attach x \<and>
     job_lookup (en_jobs (wd_engine (sw_world x))) (job_id_of 1) = Some job \<and> sw_point x = NDone None \<and>
     status_is_terminal (jb_status job) \<and> sw_received x = owed demo_attach job"
proof -
  obtain w h where w: "demo_at w (PNotified Killed) h" using demo_notified by blast
  then obtain job where job: "job_lookup (en_jobs (wd_engine w)) (job_id_of 1) = Some job"
      "ml_events (jb_replay_log job) = []" by (auto simp: demo_at_def)
  have "at_job w (job_id_of 1) h (PNotified Killed) job" "world_inv w"
    using w job by (auto simp: demo_at_def at_job_def job_reachable_inv)
  then have "status_is_terminal (jb_status job)" using at_job_read(3) by force
  then have r: "stream_reachable demo_attach (demo_stream w h (NDone None))"
    using demo_stream_next [OF w job(1)] by simp
  then show ?thesis
    using log_stream_exactly_once [OF r, of job] job r
    by (intro exI [of _ "demo_stream w h (NDone None)"] exI [of _ job]) (simp add: demo_stream_def demo_attach_def)
qed

text \<open>C20: No wake-up is lost: when a stream waits and nothing has been signalled since it registered,
  it has delivered every event there is and the job's final notification is still to come; so a
  stream never sleeps on undelivered output, nor past the end of its job.\<close>

theorem log_stream_no_lost_wakeup:
  assumes "stream_reachable req x" and "job_lookup (en_jobs (wd_engine (sw_world x))) (ja_job_id req) = Some job"
    and "length (ml_events (jb_replay_log job)) \<le> usize_max"
    and "sw_point x = NWaiting (ml_notify (jb_replay_log job))"
  shows "sw_received x = owed req job \<and>
    (\<exists>p sid h. at_point (sw_world x) (ja_job_id req) p sid h \<and>
      p \<in> {PInserted, PRegistered, PActive} \<union> range PWritten)"
proof (rule stream_reachable_cases [OF assms(1-3)])
  fix p c
  assume at: "at_job (sw_world x) (ja_job_id req) (jl_handle (sw_stream x)) p job"
    and "cursor_inv req job (sw_stream x) (sw_received x) c" and "point_inv p job (sw_stream x) c (sw_point x)"
  then have "sw_received x = owed req job" and "\<not> notified p"
    using assms(4) cursor_inv_owed(2) [of req job] by (auto simp: point_inv_def)
  then show ?thesis using at by (cases p) (auto simp: at_job_def notified_def)
qed

lemma log_stream_no_lost_wakeup_witness:
  "\<exists>(x :: unit stream_world) n job. stream_reachable demo_attach x \<and>
     job_lookup (en_jobs (wd_engine (sw_world x))) (job_id_of 1) = Some job \<and> sw_point x = NWaiting n \<and>
     sw_received x = owed demo_attach job"
proof -
  obtain w h where w: "demo_at w PActive h" using demo_registered by blast
  then obtain job where job: "job_lookup (en_jobs (wd_engine w)) (job_id_of 1) = Some job"
      "ml_events (jb_replay_log job) = []" by (auto simp: demo_at_def)
  have "at_job w (job_id_of 1) h PActive job" "world_inv w"
    using w job by (auto simp: demo_at_def at_job_def job_reachable_inv)
  then have "\<not> status_is_terminal (jb_status job)" using at_job_read(3) by force
  then have r: "stream_reachable demo_attach (demo_stream w h (NWaiting (ml_notify (jb_replay_log job))))"
    using demo_stream_next [OF w job(1)] by simp
  then show ?thesis
    using log_stream_no_lost_wakeup [OF r, of job] job r
    by (intro exI [of _ "demo_stream w h (NWaiting (ml_notify (jb_replay_log job)))"] exI
        [of _ "ml_notify (jb_replay_log job)"] exI [of _ job]) (simp add: demo_stream_def demo_attach_def)
qed

text \<open>C21: A stream ends: once the job's final notification was sent, a caller that keeps asking
  receives the frames still owed and then \<open>None\<close>, within a number of atomic steps bounded by the
  number of events.\<close>

theorem log_stream_ends:
  assumes "stream_reachable req x" and "job_lookup (en_jobs (wd_engine (sw_world x))) (ja_job_id req) = Some job"
    and "length (ml_events (jb_replay_log job)) \<le> usize_max"
    and "at_point (sw_world x) (ja_job_id req) p sid h" and "notified p" and "\<forall>r. sw_point x \<noteq> NDone r"
    and "length (jl_pending (sw_stream x)) + length (ml_events (jb_replay_log job)) + 5 \<le> n"
  shows "\<exists>frames. stream_collect n (en_jobs (wd_engine (sw_world x))) (sw_stream x) (sw_point x) = Some frames \<and>
    sw_received x @ frames = owed req job"
proof (rule stream_reachable_cases [OF assms(1-3)])
  let ?jobs = "en_jobs (wd_engine (sw_world x))" and ?s = "sw_stream x" and ?evs = "ml_events (jb_replay_log job)"
  fix q c
  assume inv: "world_inv (sw_world x)" "jl_job_id ?s = ja_job_id req"
    and at: "at_job (sw_world x) (ja_job_id req) (jl_handle ?s) q job"
    and cur: "cursor_inv req job ?s (sw_received x) c" and pt: "point_inv q job ?s c (sw_point x)"
  have q: "q = p" using at assms(4) by (auto simp: at_job_def at_point_def)
  then have "final_status q \<noteq> None" using assms(5) by (auto simp: notified_def)
  then have fin: "finished ?jobs (jl_handle ?s) ?evs"
    using at_job_read [OF inv(1) at] assms(3) unfolding finished_def by blast
  have c: "c \<le> usize_max" "jl_cursor ?s = of_nat c" using cur by (simp_all add: cursor_inv_def Let_def)
  obtain m where n: "n = Suc m" "length (jl_pending ?s) + length ?evs + 4 \<le> m" using assms(7) by (cases n) simp_all
  let ?rest = "jl_pending ?s @ map (event_to_frame (jl_job_id ?s)) (drop c ?evs)"
  have "stream_collect n ?jobs ?s (sw_point x) = Some ?rest"
  proof (cases "sw_point x")
    case NTop
    then show ?thesis using collect_top [OF fin c(1) refl c(2)] n by simp
  next
    case (NEnabled i)
    then have "jl_pending ?s = []" using pt by (simp add: point_inv_def)
    then show ?thesis using collect_read [OF fin c(1) refl c(2)] NEnabled n by simp
  next
    case (NWaiting i)
    then have "i \<noteq> notify_count ?jobs (jl_handle ?s)" "jl_pending ?s = []"
      using pt assms(5) q at_job_read(1) [OF inv(1) at] by (auto simp: point_inv_def notify_count_def)
    then have ns: "next_step ?jobs ?s (sw_point x) = (?s, NTop)" using NWaiting by (simp add: next_step_def)
    show ?thesis using collect_steps(3) [OF ns] collect_top [OF fin c(1) refl c(2) n(2)] n(1) by simp
  next
    case (NDone r)
    then show ?thesis using assms(6) by simp
  qed
  then show ?thesis using cursor_inv_owed(3) [OF cur] inv(2) by simp
qed

lemma log_stream_ends_witness:
  "\<exists>(x :: unit stream_world) frames. stream_reachable demo_attach x \<and> sw_point x = NTop \<and>
     stream_collect 5 (en_jobs (wd_engine (sw_world x))) (sw_stream x) NTop = Some frames"
proof -
  obtain w h where w: "demo_at w (PNotified Killed) h" using demo_notified by blast
  then obtain job where job: "job_lookup (en_jobs (wd_engine w)) (job_id_of 1) = Some job"
      "ml_events (jb_replay_log job) = []" and at: "at_point w (job_id_of 1) (PNotified Killed) (SessionId ''s'') h"
    by (auto simp: demo_at_def)
  note r = demo_stream_top [OF w]
  have "notified (PNotified Killed)" by (simp add: notified_def)
  from log_stream_ends [OF r _ _ _ this, of job "SessionId ''s''" h 5] show ?thesis
    using job at r by (intro exI [of _ "demo_stream w h NTop"]) (simp add: demo_stream_def demo_attach_def)
qed

end
