(* ===== verification/Transport.thy ===== *)
theory Transport
  imports Log_Stream
begin

text \<open>
  \<open>crates/axp-transport\<close>: the JSON-RPC envelope (\<open>jsonrpc.rs\<close>), the error type and its
  mapping to error objects (\<open>error.rs\<close>), the shared state (\<open>state.rs\<close>), the method
  handlers (\<open>handlers.rs\<close>), the dispatcher and the routes (\<open>router.rs\<close>) and the event-stream
  endpoint (\<open>attach.rs\<close>). Every handler is a function of the state and the request's parameters that
  returns the new state beside its result. What \<open>serde_json\<close> decodes and encodes is the record
  \<open>wire\<close>, with one decoder per request type and one encoder for all response types.
\<close>

section \<open>The envelope\<close>

definition PARSE_ERROR :: i64 where "PARSE_ERROR = - 32700"
definition INVALID_REQUEST :: i64 where "INVALID_REQUEST = - 32600"
definition METHOD_NOT_FOUND :: i64 where "METHOD_NOT_FOUND = - 32601"
definition INVALID_PARAMS :: i64 where "INVALID_PARAMS = - 32602"
definition INTERNAL_ERROR :: i64 where "INTERNAL_ERROR = - 32603"
definition NOT_FOUND :: i64 where "NOT_FOUND = - 32001"
definition DENIED :: i64 where "DENIED = - 32002"
definition NOT_IMPLEMENTED :: i64 where "NOT_IMPLEMENTED = - 32003"
definition UNAUTHORIZED :: i64 where "UNAUTHORIZED = - 32004"

lemmas rpc_codes = PARSE_ERROR_def INVALID_REQUEST_def METHOD_NOT_FOUND_def INVALID_PARAMS_def
  INTERNAL_ERROR_def NOT_FOUND_def DENIED_def NOT_IMPLEMENTED_def UNAUTHORIZED_def

record 'j jsonrpc_request =
  rq_jsonrpc :: string
  rq_id :: "'j option"
  rq_method :: string
  rq_params :: 'j

record 'j jsonrpc_error =
  er_code :: i64
  er_message :: string
  er_data :: "'j option"

datatype 'j jsonrpc_body = RpcSuccess 'j | RpcFailure "'j jsonrpc_error"

record 'j jsonrpc_response =
  rs_jsonrpc :: string
  rs_id :: 'j
  rs_body :: "'j jsonrpc_body"

definition response_success :: "'j \<Rightarrow> 'j \<Rightarrow> 'j jsonrpc_response" where
  "response_success rid v = \<lparr>rs_jsonrpc = ''2.0'', rs_id = rid, rs_body = RpcSuccess v\<rparr>"

definition response_error :: "'j \<Rightarrow> 'j jsonrpc_error \<Rightarrow> 'j jsonrpc_response" where
  "response_error rid e = \<lparr>rs_jsonrpc = ''2.0'', rs_id = rid, rs_body = RpcFailure e\<rparr>"

section \<open>Errors\<close>

datatype transport_error =
  Runtime core_error
| Parse string
| InvalidParams string
| Unauthorized
| Internal string

primrec transport_error_display :: "(string \<Rightarrow> string) \<Rightarrow> transport_error \<Rightarrow> string" where
  "transport_error_display dbg (Runtime e) = core_error_display dbg e"
| "transport_error_display dbg (Parse m) = ''parse error: '' @ m"
| "transport_error_display dbg (InvalidParams m) = ''invalid params: '' @ m"
| "transport_error_display dbg Unauthorized = ''unauthorized''"
| "transport_error_display dbg (Internal m) = ''internal error: '' @ m"

definition error_code :: "transport_error \<Rightarrow> i64" where
  "error_code e =
     (case e of
        Parse _ \<Rightarrow> PARSE_ERROR
      | InvalidParams _ \<Rightarrow> INVALID_PARAMS
      | Unauthorized \<Rightarrow> UNAUTHORIZED
      | Internal _ \<Rightarrow> INTERNAL_ERROR
      | Runtime core_err \<Rightarrow>
          (case core_err of
             SessionNotFound _ \<Rightarrow> NOT_FOUND
           | JobNotFound _ \<Rightarrow> NOT_FOUND
           | CapabilityNotFound _ \<Rightarrow> NOT_FOUND
           | CapabilityDenied _ \<Rightarrow> DENIED
           | NotImplemented _ \<Rightarrow> NOT_IMPLEMENTED
           | InvalidWorkspace _ _ \<Rightarrow> INVALID_PARAMS
           | CapabilityParse _ _ \<Rightarrow> INVALID_PARAMS
           | WorkspaceViolation _ \<Rightarrow> INVALID_PARAMS
           | _ \<Rightarrow> INTERNAL_ERROR))"

definition to_jsonrpc_error :: "(string \<Rightarrow> string) \<Rightarrow> transport_error \<Rightarrow> 'j jsonrpc_error" where
  "to_jsonrpc_error dbg e =
     \<lparr>er_code = error_code e, er_message = transport_error_display dbg e, er_data = None\<rparr>"

section \<open>State\<close>

text \<open>
  The session store and the registry are shared with the engine, as \<open>with_registry\<close> wires
  them, so both are the engine's. The registry is only read after the start.
\<close>

record 'j app_state =
  st_engine :: "'j job_engine"
  st_session_counter :: u64

definition with_registry :: "'j provider_registry \<Rightarrow> 'j app_state" where
  "with_registry registry =
     \<lparr>st_engine = engine_new am_empty job_store_new registry, st_session_counter = 1\<rparr>"

text \<open>\<open>None\<close> is the panic of \<open>builtin_registry\<close>.\<close>

definition app_state_new ::
    "(string \<Rightarrow> string) \<Rightarrow> ('j \<Rightarrow> string \<Rightarrow> string option) \<Rightarrow> 'j \<Rightarrow> 'j \<Rightarrow> 'j app_state option" where
  "app_state_new lower get_str schema_empty schema_path =
     map_option with_registry (builtin_registry lower get_str schema_empty schema_path)"

definition with_mcp_tools ::
    "(string \<Rightarrow> string) \<Rightarrow> ('j \<Rightarrow> (string, string) result) \<Rightarrow> 'j provider_registry \<Rightarrow> string \<Rightarrow> string
      \<Rightarrow> string list \<Rightarrow> (string \<times> string \<times> 'j) list \<Rightarrow> 'j app_state core_result" where
  "with_mcp_tools lower to_json builtins provider_id bridge_program bridge_args tools =
     (let bridge = \<lparr>br_program = bridge_program, br_args = bridge_args\<rparr>;
          descriptors = map (\<lambda>(name, desc, schema). \<lparr>mt_provider_id = provider_id, mt_name = name,
            mt_desc = desc, mt_schema = schema, mt_bridge = bridge\<rparr>) tools in
      rbind (mcp_new provider_id descriptors) (\<lambda>p.
      case register lower builtins (mcp_dyn to_json p) of
        (_, Inl e) \<Rightarrow> Inl e
      | (reg, Inr _) \<Rightarrow> Inr (with_registry reg)))"

definition static_mcp_bridge_args :: "string list" where
  "static_mcp_bridge_args = [''call'']"

text \<open>\<open>static_mcp_schema\<close> is a JSON literal, an argument.\<close>

definition with_mcp_tool ::
    "(string \<Rightarrow> string) \<Rightarrow> ('j \<Rightarrow> (string, string) result) \<Rightarrow> 'j provider_registry \<Rightarrow> 'j \<Rightarrow> string \<Rightarrow> string
      \<Rightarrow> string \<Rightarrow> string \<Rightarrow> 'j app_state core_result" where
  "with_mcp_tool lower to_json builtins static_schema provider_id tool_name desc bridge_program =
     with_mcp_tools lower to_json builtins provider_id bridge_program static_mcp_bridge_args
       [(tool_name, desc, static_schema)]"

definition session_id_of :: "u64 \<Rightarrow> session_id" where
  "session_id_of n = SessionId (''s_'' @ dec_digits (unat n))"

definition next_session_id :: "'j app_state \<Rightarrow> 'j app_state \<times> session_id" where
  "next_session_id st =
     (st\<lparr>st_session_counter := st_session_counter st + 1\<rparr>, session_id_of (st_session_counter st))"

section \<open>Helpers of the handlers\<close>

datatype 'j rpc_result =
  ROpen session_open_response
| RClose session_close_response
| RAudit session_audit_response
| RIndex index_response
| RDescribe "'j capability_detail"
| RStart job_start_response
| RStatus job_status_response
| RCancel job_cancel_response

record 'j wire =
  wi_request :: "byte list \<Rightarrow> (string, 'j jsonrpc_request) result"
  wi_open :: "'j \<Rightarrow> (string, session_open_request) result"
  wi_close :: "'j \<Rightarrow> (string, session_close_request) result"
  wi_audit :: "'j \<Rightarrow> (string, session_audit_request) result"
  wi_index :: "'j \<Rightarrow> (string, index_request) result"
  wi_describe :: "'j \<Rightarrow> (string, describe_request) result"
  wi_start :: "'j \<Rightarrow> (string, 'j job_start_request) result"
  wi_status :: "'j \<Rightarrow> (string, job_status_request) result"
  wi_cancel :: "'j \<Rightarrow> (string, job_cancel_request) result"
  wi_encode :: "'j rpc_result \<Rightarrow> (string, 'j) result"
  wi_null :: 'j
  wi_debug :: "string \<Rightarrow> string"

text \<open>What the operating system answers while one request is handled.\<close>

record server_env =
  ve_start :: start_env
  ve_entropy :: "byte list option"

definition parse_params :: "('j \<Rightarrow> (string, 'r) result) \<Rightarrow> 'j \<Rightarrow> (transport_error, 'r) result" where
  "parse_params decode params = map_err InvalidParams (decode params)"

definition to_value :: "'j wire \<Rightarrow> 'j rpc_result \<Rightarrow> (transport_error, 'j) result" where
  "to_value wi v = map_err Internal (wi_encode wi v)"

definition require_authorized_session ::
    "'j app_state \<Rightarrow> session_id \<Rightarrow> string \<Rightarrow> (transport_error, unit) result" where
  "require_authorized_session st sid presented =
     (if \<not> store_authorize (en_sessions (st_engine st)) sid presented then Inl Unauthorized else Inr ())"

text \<open>The session behind an id, as \<open>sessions.get(id)\<close> and its read lock give it.\<close>

definition session_of :: "'j app_state \<Rightarrow> session_id \<Rightarrow> (transport_error, session) result" where
  "session_of st sid =
     ok_or (Option.bind (store_get (en_sessions (st_engine st)) sid) (am_read (en_sessions (st_engine st))))
       Unauthorized"

definition authenticated_session_capabilities ::
    "'j app_state \<Rightarrow> session_id \<Rightarrow> string \<Rightarrow> (transport_error, capability_set) result" where
  "authenticated_session_capabilities st sid presented =
     rbind (require_authorized_session st sid presented) (\<lambda>_.
     rbind (session_of st sid) (\<lambda>se. Inr (se_capabilities se)))"

definition system_time_to_millis :: "int \<Rightarrow> u64" where
  "system_time_to_millis timestamp =
     (let millis = (if timestamp \<ge> 0 then timestamp div 1000000 else 0) in
      if millis > 2 ^ 64 - 1 then - 1 else of_int millis)"

definition audit_event_to_wire :: "audit_event \<Rightarrow> (transport_error, session_audit_event) result" where
  "audit_event_to_wire event =
     (let kind =
        (case ae_kind event of
           SessionOpened \<Rightarrow> WireSessionOpened
         | SessionClosed \<Rightarrow> WireSessionClosed
         | JobStarted jid \<Rightarrow> WireJobStarted jid
         | JobFinished jid status \<Rightarrow> WireJobFinished jid status) in
      Inr \<lparr>sae_ts_millis = system_time_to_millis (ae_timestamp event), sae_kind = kind\<rparr>)"

section \<open>Handlers\<close>

type_synonym 'j handled = "'j app_state \<times> (transport_error, 'j) result"

definition session_open :: "'j wire \<Rightarrow> server_env \<Rightarrow> 'j app_state \<Rightarrow> 'j \<Rightarrow> 'j handled" where
  "session_open wi env st params =
     (case rbind (parse_params (wi_open wi) params) (\<lambda>req.
           rbind (map_err Runtime (workspace_new (sv_canonicalize (ve_start env)) (so_workspace req))) (\<lambda>ws.
           rbind (map_err Runtime (cs_from_wire (so_capabilities req))) (\<lambda>caps. Inr (req, ws, caps)))) of
        Inl e \<Rightarrow> (st, Inl e)
      | Inr (req, ws, caps) \<Rightarrow>
          let (st, sid) = next_session_id st in
          (case cap_token_generate (ve_entropy env) of
             Inl e \<Rightarrow> (st, Inl (Runtime e))
           | Inr cap_token \<Rightarrow>
               let resp = \<lparr>sor_session_id = sid, sor_granted_tier = so_sandbox_tier req,
                     sor_cap_token = cap_token_expose cap_token\<rparr>;
                   (sessions, _) = store_open (sv_now (ve_start env)) (en_sessions (st_engine st)) sid ws
                     (so_sandbox_tier req) caps cap_token in
               (st\<lparr>st_engine := (st_engine st)\<lparr>en_sessions := sessions\<rparr>\<rparr>, to_value wi (ROpen resp))))"

definition session_close :: "'j wire \<Rightarrow> server_env \<Rightarrow> 'j app_state \<Rightarrow> 'j \<Rightarrow> 'j handled" where
  "session_close wi env st params =
     (case rbind (parse_params (wi_close wi) params) (\<lambda>req.
           rbind (require_authorized_session st (sc_session_id req) (sc_cap_token req)) (\<lambda>_. Inr req)) of
        Inl e \<Rightarrow> (st, Inl e)
      | Inr req \<Rightarrow>
          (case store_close (sv_now (ve_start env)) (en_sessions (st_engine st)) (sc_session_id req) of
             (sessions, closed) \<Rightarrow>
               (st\<lparr>st_engine := (st_engine st)\<lparr>en_sessions := sessions\<rparr>\<rparr>,
                rbind (map_err (\<lambda>_. Unauthorized) closed) (\<lambda>_. to_value wi (RClose \<lparr>scr_ok = True\<rparr>)))))"

definition session_audit :: "'j wire \<Rightarrow> 'j app_state \<Rightarrow> 'j \<Rightarrow> 'j handled" where
  "session_audit wi st params =
     (st, rbind (parse_params (wi_audit wi) params) (\<lambda>req.
          rbind (require_authorized_session st (sa_session_id req) (sa_cap_token req)) (\<lambda>_.
          rbind (session_of st (sa_session_id req)) (\<lambda>se.
          rbind (collect_results audit_event_to_wire (se_audit_events se)) (\<lambda>events.
          to_value wi (RAudit \<lparr>sar_events = events\<rparr>))))))"

definition rpc_index :: "'j wire \<Rightarrow> 'j app_state \<Rightarrow> 'j \<Rightarrow> 'j handled" where
  "rpc_index wi st params =
     (st, rbind (parse_params (wi_index wi) params) (\<lambda>req.
          rbind (authenticated_session_capabilities st (ir_session_id req) (ir_cap_token req)) (\<lambda>capabilities.
          rbind (map_err Runtime (index_for_capabilities (en_registry (st_engine st)) capabilities)) (\<lambda>resp.
          to_value wi (RIndex resp)))))"

definition rpc_describe :: "'j wire \<Rightarrow> 'j app_state \<Rightarrow> 'j \<Rightarrow> 'j handled" where
  "rpc_describe wi st params =
     (st, rbind (parse_params (wi_describe wi) params) (\<lambda>req.
          rbind (authenticated_session_capabilities st (dr_session_id req) (dr_cap_token req)) (\<lambda>capabilities.
          rbind (map_err Runtime (describe_for_capabilities (en_registry (st_engine st)) (dr_name req) capabilities))
            (\<lambda>detail. to_value wi (RDescribe detail)))))"

definition job_start :: "'j wire \<Rightarrow> server_env \<Rightarrow> 'j app_state \<Rightarrow> 'j \<Rightarrow> 'j handled" where
  "job_start wi env st params =
     (case rbind (parse_params (wi_start wi) params) (\<lambda>req.
           rbind (require_authorized_session st (js_session_id req) (js_cap_token req)) (\<lambda>_. Inr req)) of
        Inl e \<Rightarrow> (st, Inl e)
      | Inr req \<Rightarrow>
          (case engine_start (ve_start env) (st_engine st) req of
             (eng, r) \<Rightarrow>
               (st\<lparr>st_engine := eng\<rparr>,
                rbind (map_err Runtime r) (\<lambda>jid. to_value wi (RStart \<lparr>jsr_job_id = jid\<rparr>)))))"

definition job_status :: "'j wire \<Rightarrow> 'j app_state \<Rightarrow> 'j \<Rightarrow> 'j handled" where
  "job_status wi st params =
     (st, rbind (parse_params (wi_status wi) params) (\<lambda>req.
          rbind (require_authorized_session st (jt_session_id req) (jt_cap_token req)) (\<lambda>_.
          rbind (map_err Runtime (engine_status (st_engine st) req)) (\<lambda>resp. to_value wi (RStatus resp)))))"

definition job_cancel :: "'j wire \<Rightarrow> 'j app_state \<Rightarrow> 'j \<Rightarrow> 'j handled" where
  "job_cancel wi st params =
     (case rbind (parse_params (wi_cancel wi) params) (\<lambda>req.
           rbind (require_authorized_session st (jc_session_id req) (jc_cap_token req)) (\<lambda>_. Inr req)) of
        Inl e \<Rightarrow> (st, Inl e)
      | Inr req \<Rightarrow>
          (case engine_cancel (st_engine st) req of
             (eng, r) \<Rightarrow>
               (st\<lparr>st_engine := eng\<rparr>, rbind (map_err Runtime r) (\<lambda>resp. to_value wi (RCancel resp)))))"

section \<open>The dispatcher\<close>

definition call_method :: "'j wire \<Rightarrow> server_env \<Rightarrow> 'j app_state \<Rightarrow> string \<Rightarrow> 'j \<Rightarrow> 'j handled option" where
  "call_method wi env st m params =
     (if m = ''session.open'' then Some (session_open wi env st params)
      else if m = ''session.close'' then Some (session_close wi env st params)
      else if m = ''session.audit'' then Some (session_audit wi st params)
      else if m = ''axp.index'' then Some (rpc_index wi st params)
      else if m = ''axp.describe'' then Some (rpc_describe wi st params)
      else if m = ''job.start'' then Some (job_start wi env st params)
      else if m = ''job.status'' then Some (job_status wi st params)
      else if m = ''job.cancel'' then Some (job_cancel wi st params)
      else None)"

definition attach_hint :: string where
  "attach_hint =
     ''job.attach is a streaming endpoint; connect with GET /job/attach (text/event-stream)''"

definition dispatch ::
    "'j wire \<Rightarrow> server_env \<Rightarrow> 'j app_state \<Rightarrow> 'j jsonrpc_request \<Rightarrow> 'j app_state \<times> 'j jsonrpc_response" where
  "dispatch wi env st req =
     (let rid = (case rq_id req of None \<Rightarrow> wi_null wi | Some v \<Rightarrow> v) in
      case call_method wi env st (rq_method req) (rq_params req) of
        Some (st, Inr v) \<Rightarrow> (st, response_success rid v)
      | Some (st, Inl te) \<Rightarrow> (st, response_error rid (to_jsonrpc_error (wi_debug wi) te))
      | None \<Rightarrow>
          (st, response_error rid
            (if rq_method req = ''job.attach'' then
               \<lparr>er_code = INVALID_REQUEST, er_message = attach_hint, er_data = None\<rparr>
             else \<lparr>er_code = METHOD_NOT_FOUND, er_message = ''method not found: '' @ rq_method req,
               er_data = None\<rparr>)))"

definition rpc_handler ::
    "'j wire \<Rightarrow> server_env \<Rightarrow> 'j app_state \<Rightarrow> byte list \<Rightarrow> 'j app_state \<times> 'j jsonrpc_response" where
  "rpc_handler wi env st body =
     (case wi_request wi body of
        Inl e \<Rightarrow> (st, response_error (wi_null wi)
          \<lparr>er_code = PARSE_ERROR, er_message = ''parse error: '' @ e, er_data = None\<rparr>)
      | Inr req \<Rightarrow> dispatch wi env st req)"

section \<open>The event stream endpoint\<close>

text \<open>\<open>str::parse::<u64>\<close>: an optional plus sign, then digits, and no overflow.\<close>

definition is_digit :: "char \<Rightarrow> bool" where
  "is_digit c \<longleftrightarrow> of_char c \<ge> (48 :: nat) \<and> of_char c \<le> (57 :: nat)"

definition parse_u64 :: "string \<Rightarrow> u64 option" where
  "parse_u64 s =
     (let ds = (case s of c # r \<Rightarrow> if c = CHR ''+'' then r else s | [] \<Rightarrow> []) in
      if ds = [] \<or> \<not> list_all is_digit ds then None
      else if dec_value ds \<le> usize_max then Some (of_nat (dec_value ds)) else None)"

record attach_params =
  ap_session_id :: string
  ap_cap_token :: string
  ap_job_id :: string
  ap_from_offset :: u64

definition resume_offset :: "attach_params \<Rightarrow> string option \<Rightarrow> u64" where
  "resume_offset params last_event_id =
     (case Option.bind last_event_id parse_u64 of Some n \<Rightarrow> n | None \<Rightarrow> ap_from_offset params)"

text \<open>\<open>last_event_id\<close> is the header's value when it is present and a string.\<close>

definition attach_sse ::
    "'j app_state \<Rightarrow> attach_params \<Rightarrow> string option \<Rightarrow> (transport_error, job_log_stream) result" where
  "attach_sse st params last_event_id =
     (let req = \<lparr>ja_session_id = SessionId (ap_session_id params), ja_cap_token = ap_cap_token params,
            ja_job_id = JobId (ap_job_id params), ja_from_offset = resume_offset params last_event_id\<rparr> in
      if \<not> store_authorize (en_sessions (st_engine st)) (ja_session_id req) (ja_cap_token req) then
        Inl Unauthorized
      else map_err Runtime (engine_attach (st_engine st) req))"

definition attach_error_status :: "transport_error \<Rightarrow> nat" where
  "attach_error_status e =
     (let code = error_code e in
      if code = NOT_FOUND then 404
      else if code = DENIED then 403
      else if code = UNAUTHORIZED then 401
      else if code = INVALID_PARAMS then 400
      else 500)"

record sse_event =
  sv_id :: string
  sv_data :: string

text \<open>The body's loop over the frames of the stream: a frame that fails to serialize is dropped.\<close>

fun sse_events :: "(log_event_frame \<Rightarrow> (string, string) result) \<Rightarrow> log_event_frame list \<Rightarrow> sse_event list" where
  "sse_events to_json [] = []"
| "sse_events to_json (frame # frames) =
     (case to_json frame of
        Inr data \<Rightarrow> \<lparr>sv_id = dec_digits (unat (lf_seq frame)), sv_data = data\<rparr> # sse_events to_json frames
      | Inl _ \<Rightarrow> sse_events to_json frames)"

text \<open>The status and the JSON body of an \<open>AttachError\<close>: its code and message.\<close>

record attach_error_body =
  eb_code :: i64
  eb_message :: string

definition attach_error_response :: "(string \<Rightarrow> string) \<Rightarrow> transport_error \<Rightarrow> nat \<times> attach_error_body" where
  "attach_error_response dbg e =
     (let err = (to_jsonrpc_error dbg e :: unit jsonrpc_error) in
      (attach_error_status e, \<lparr>eb_code = er_code err, eb_message = er_message err\<rparr>))"

section \<open>The router\<close>

datatype http_method = HttpGet | HttpPost | HttpOther string

datatype endpoint = RpcEndpoint | AttachEndpoint

definition build_router :: "(string \<times> http_method \<times> endpoint) list" where
  "build_router = [(''/'', HttpPost, RpcEndpoint), (''/job/attach'', HttpGet, AttachEndpoint)]"

text \<open>
  A request as axum hands it to the handlers: the body's bytes, the query or the status its
  extractor rejects it with, the header \<open>Last-Event-ID\<close> if it is present and a string. How axum
  matches a request with the routes is an argument: an endpoint, or the status of its refusal.
\<close>

record http_call =
  hc_method :: http_method
  hc_path :: string
  hc_query :: "(nat, attach_params) result"
  hc_last_event_id :: "string option"
  hc_body :: "byte list"

datatype 'j http_reply =
  JsonReply "'j jsonrpc_response"
| EventStream job_log_stream
| ErrorReply nat attach_error_body
| StatusReply nat

type_synonym route_match =
  "(string \<times> http_method \<times> endpoint) list \<Rightarrow> http_method \<Rightarrow> string \<Rightarrow> (nat, endpoint) result"

definition http_serve ::
    "route_match \<Rightarrow> 'j wire \<Rightarrow> server_env \<Rightarrow> 'j app_state \<Rightarrow> http_call \<Rightarrow> 'j app_state \<times> 'j http_reply" where
  "http_serve match_route wi env st call =
     (case match_route build_router (hc_method call) (hc_path call) of
        Inl status \<Rightarrow> (st, StatusReply status)
      | Inr RpcEndpoint \<Rightarrow> apsnd JsonReply (rpc_handler wi env st (hc_body call))
      | Inr AttachEndpoint \<Rightarrow>
          (st, case hc_query call of
             Inl status \<Rightarrow> StatusReply status
           | Inr params \<Rightarrow>
               (case attach_sse st params (hc_last_event_id call) of
                  Inr stream \<Rightarrow> EventStream stream
                | Inl e \<Rightarrow> case_prod ErrorReply (attach_error_response (wi_debug wi) e))))"

text \<open>Only the attach endpoint opens a stream.\<close>

lemma http_serve_stream:
  assumes "http_serve match_route wi env st call = (st', EventStream stream)"
  obtains params where "match_route build_router (hc_method call) (hc_path call) = Inr AttachEndpoint" and "st' = st"
    and "hc_query call = Inr params" and "attach_sse st params (hc_last_event_id call) = Inr stream"
  using assms
  by (auto simp: http_serve_def apsnd_def map_prod_def
      split: if_splits sum.splits option.splits endpoint.splits prod.splits)

section \<open>Event ids\<close>

lemma dec_digits_digits: "list_all is_digit (dec_digits n) \<and> dec_digits n \<noteq> []"
proof (induction n rule: dec_digits.induct)
  case (1 n)
  have "is_digit (char_of (48 + d))" if "d < 10" for d :: nat
    using that by (simp add: is_digit_def)
  with 1 show ?case by (subst (1 2) dec_digits.simps) auto
qed

lemma parse_u64_digits: "n \<le> usize_max \<Longrightarrow> parse_u64 (dec_digits n) = Some (of_nat n)"
proof -
  assume n: "n \<le> usize_max"
  obtain c r where c: "dec_digits n = c # r" "is_digit c" "list_all is_digit r"
    using dec_digits_digits [of n] by (cases "dec_digits n") auto
  then have "c \<noteq> CHR ''+''" by (auto simp: is_digit_def)
  then show ?thesis
    using c n dec_value_dec_digits [of n] by (simp add: parse_u64_def Let_def del: dec_value.simps)
qed

text \<open>The id of a sent event, presented as \<open>Last-Event-ID\<close>, parses to the frame's number.\<close>

lemma parse_u64_id [simp]: "parse_u64 (dec_digits (unat (n :: u64))) = Some n"
  by (simp add: parse_u64_digits)

end
