(* ===== verification/Server.thy ===== *)
theory Server
  imports Transport
begin

text \<open>
  The server as a whole: what a request may do to the state (\<open>rpc_effect\<close>), its runs of
  requests and background tasks, and what they keep: authorization, fresh session ids, sessions
  and jobs of different sessions apart. A request is one step here; \<open>Concurrent\<close> lets
  requests overlap.
\<close>

section \<open>Credentials\<close>

definition decoded :: "(string, 'r) result \<Rightarrow> ('r \<Rightarrow> session_id \<times> string) \<Rightarrow> (session_id \<times> string) option" where
  "decoded d f = (case d of Inr r \<Rightarrow> Some (f r) | Inl _ \<Rightarrow> None)"

lemma decoded_simps [simp]: "decoded (Inr r) f = Some (f r)" "decoded (Inl e) f = None"
  by (simp_all add: decoded_def)

text \<open>The session id and token a request presents, if its parameters decode.\<close>

definition request_credentials :: "'j wire \<Rightarrow> string \<Rightarrow> 'j \<Rightarrow> (session_id \<times> string) option" where
  "request_credentials wi m params =
     (if m = ''session.close'' then decoded (wi_close wi params) (\<lambda>r. (sc_session_id r, sc_cap_token r))
      else if m = ''session.audit'' then decoded (wi_audit wi params) (\<lambda>r. (sa_session_id r, sa_cap_token r))
      else if m = ''axp.index'' then decoded (wi_index wi params) (\<lambda>r. (ir_session_id r, ir_cap_token r))
      else if m = ''axp.describe'' then decoded (wi_describe wi params) (\<lambda>r. (dr_session_id r, dr_cap_token r))
      else if m = ''job.start'' then decoded (wi_start wi params) (\<lambda>r. (js_session_id r, js_cap_token r))
      else if m = ''job.status'' then decoded (wi_status wi params) (\<lambda>r. (jt_session_id r, jt_cap_token r))
      else if m = ''job.cancel'' then decoded (wi_cancel wi params) (\<lambda>r. (jc_session_id r, jc_cap_token r))
      else None)"

abbreviation authorized :: "'j app_state \<Rightarrow> session_id \<Rightarrow> string \<Rightarrow> bool" where
  "authorized st \<equiv> store_authorize (en_sessions (st_engine st))"

lemmas handler_defs = session_close_def session_audit_def rpc_index_def rpc_describe_def job_start_def
  job_status_def job_cancel_def parse_params_def require_authorized_session_def
  authenticated_session_capabilities_def

lemma unauthorized_call:
  assumes "request_credentials wi m params = Some (sid, tok)" and "\<not> authorized st sid tok"
  shows "call_method wi env st m params = Some (st, Inl Unauthorized)"
  using assms
  by (auto simp: request_credentials_def call_method_def handler_defs decoded_def split: if_splits sum.splits)

lemma undecoded_call:
  assumes "request_credentials wi m params = None" and "m \<noteq> ''session.open''"
    and "call_method wi env st m params = Some (st', r)"
  shows "st' = st \<and> (\<exists>e. r = Inl (InvalidParams e))"
  using assms
  by (auto simp: request_credentials_def call_method_def handler_defs decoded_def split: if_splits sum.splits)

section \<open>Effects\<close>

inductive rpc_effect :: "server_env \<Rightarrow> 'j app_state \<Rightarrow> 'j app_state \<Rightarrow> bool" for env st where
  fx_none: "rpc_effect env st st"
| fx_id: "rpc_effect env st (fst (next_session_id st))"
| fx_open:
    "cap_token_generate (ve_entropy env) = Inr tok \<Longrightarrow>
     store_open now (en_sessions (st_engine st)) (session_id_of (st_session_counter st)) ws tier caps tok =
       (sessions, h) \<Longrightarrow>
     rpc_effect env st (st\<lparr>st_session_counter := st_session_counter st + 1,
       st_engine := (st_engine st)\<lparr>en_sessions := sessions\<rparr>\<rparr>)"
| fx_close:
    "store_close now (en_sessions (st_engine st)) sid = (sessions, r) \<Longrightarrow>
     rpc_effect env st (st\<lparr>st_engine := (st_engine st)\<lparr>en_sessions := sessions\<rparr>\<rparr>)"
| fx_start:
    "engine_start (ve_start env) (st_engine st) req = (eng, Inr jid) \<Longrightarrow>
     rpc_effect env st (st\<lparr>st_engine := eng\<rparr>)"
| fx_cancel:
    "engine_cancel (st_engine st) creq = (eng, cr) \<Longrightarrow> rpc_effect env st (st\<lparr>st_engine := eng\<rparr>)"

lemma engine_start_Inl: "engine_start env eng req = (eng', Inl e) \<Longrightarrow> eng' = eng"
  using engine_start_cases [of env eng req eng' "Inl e"] by auto

text \<open>A successful \<open>session.open\<close>, from the inside.\<close>

lemma session_open_Inr:
  assumes "session_open wi env st params = (st', Inr v)"
  obtains ws tier caps tok sessions h where "cap_token_generate (ve_entropy env) = Inr tok"
    and "store_open (sv_now (ve_start env)) (en_sessions (st_engine st))
       (session_id_of (st_session_counter st)) ws tier caps tok = (sessions, h)"
    and "st' = st\<lparr>st_session_counter := st_session_counter st + 1,
       st_engine := (st_engine st)\<lparr>en_sessions := sessions\<rparr>\<rparr>"
    and "wi_encode wi (ROpen \<lparr>sor_session_id = session_id_of (st_session_counter st), sor_granted_tier = tier,
       sor_cap_token = cap_token_expose tok\<rparr>) = Inr v"
  using assms
  by (auto simp: session_open_def next_session_id_def to_value_def Let_def map_err_iff
      split: sum.splits prod.splits)

lemma session_open_effect: "session_open wi env st params = (st', r) \<Longrightarrow> rpc_effect env st st'"
  using fx_id [of env st]
  by (auto simp: session_open_def next_session_id_def Let_def split: sum.splits prod.splits intro: fx_none fx_open)

lemma session_close_effect: "session_close wi env st params = (st', r) \<Longrightarrow> rpc_effect env st st'"
  by (auto simp: session_close_def split: sum.splits prod.splits intro: fx_none fx_close)

lemma job_cancel_effect: "job_cancel wi st params = (st', r) \<Longrightarrow> rpc_effect env st st'"
  by (auto simp: job_cancel_def split: sum.splits prod.splits intro: fx_none fx_cancel)

lemma job_start_cases:
  assumes "job_start wi env st params = (st', r)"
  obtains "st' = st" and "\<exists>e. r = Inl e" | req where "wi_start wi params = Inr req"
    and "authorized st (js_session_id req) (js_cap_token req)"
    and "st' = st\<lparr>st_engine := fst (engine_start (ve_start env) (st_engine st) req)\<rparr>"
proof (cases "rbind (parse_params (wi_start wi) params) (\<lambda>req.
           rbind (require_authorized_session st (js_session_id req) (js_cap_token req)) (\<lambda>_. Inr req))")
  case (Inl e)
  then show ?thesis using assms that(1) by (auto simp: job_start_def)
next
  case (Inr req)
  then have "wi_start wi params = Inr req \<and> authorized st (js_session_id req) (js_cap_token req)"
    by (auto simp: result_simps parse_params_def require_authorized_session_def split: if_splits)
  then show ?thesis using assms Inr that(2) [of req] by (simp add: job_start_def split: prod.splits)
qed

lemma job_start_effect:
  assumes "job_start wi env st params = (st', r)"
  shows "rpc_effect env st st'"
  using assms
proof (cases rule: job_start_cases)
  case (2 req)
  obtain eng x where start: "engine_start (ve_start env) (st_engine st) req = (eng, x)" by fastforce
  then show ?thesis
  proof (cases x)
    case (Inl e)
    then show ?thesis using 2(3) start engine_start_Inl [OF start [unfolded Inl]] by (simp add: fx_none)
  next
    case (Inr jid)
    then show ?thesis using 2(3) start by (simp add: fx_start)
  qed
qed (simp add: fx_none)

lemma call_method_effect:
  assumes "call_method wi env st m params = Some (st', r)"
  shows "rpc_effect env st st'"
  using assms session_open_effect [of wi env st params st' r] session_close_effect [of wi env st params st' r]
    job_cancel_effect [of wi st params st' r env] job_start_effect [of wi env st params st' r] fx_none [of env st]
  unfolding call_method_def session_audit_def rpc_index_def rpc_describe_def job_status_def
  by (simp split: if_splits)

lemma dispatch_effect: "dispatch wi env st req = (st', resp) \<Longrightarrow> rpc_effect env st st'"
  by (auto simp: dispatch_def Let_def intro: fx_none
      split: option.splits prod.splits sum.splits dest!: call_method_effect)

text \<open>Every request is a run of the engine's atomic steps.\<close>

lemma rpc_effect_steps:
  assumes "rpc_effect env st st'" and "wd_engine w = st_engine st" and "en_next_id (st_engine st) \<noteq> - 1"
  shows "\<exists>w'. job_step\<^sup>*\<^sup>* w w' \<and> wd_engine w' = st_engine st'"
  using assms(1)
proof cases
  case (fx_open tok now ws tier caps sessions h)
  then have "job_step w (w\<lparr>wd_engine := (wd_engine w)\<lparr>en_sessions := sessions\<rparr>\<rparr>)"
    using assms(2) by (intro job_step.js_open) simp
  then show ?thesis using fx_open(1) assms(2) by (intro exI [of _ "w\<lparr>wd_engine := (wd_engine w)\<lparr>en_sessions := sessions\<rparr>\<rparr>"]) auto
next
  case (fx_close now sid sessions r)
  then have "job_step w (w\<lparr>wd_engine := (wd_engine w)\<lparr>en_sessions := sessions\<rparr>\<rparr>)"
    using assms(2) by (intro job_step.js_close) simp
  then show ?thesis using fx_close(1) assms(2) by (intro exI [of _ "w\<lparr>wd_engine := (wd_engine w)\<lparr>en_sessions := sessions\<rparr>\<rparr>"]) auto
next
  case (fx_start req eng jid)
  then show ?thesis using engine_start_steps [of w "ve_start env" req eng jid] assms(2,3) by auto
next
  case (fx_cancel creq eng cr)
  then have "job_step w (w\<lparr>wd_engine := eng\<rparr>)" using assms(2) by (intro job_step.js_cancel) simp
  then show ?thesis using fx_cancel(1) by (intro exI [of _ "w\<lparr>wd_engine := eng\<rparr>"]) auto
qed (use assms(2) in \<open>auto simp: next_session_id_def\<close>)

section \<open>Runs of the server\<close>

text \<open>The steps of the tasks of running jobs: output, and the parts of \<open>finish_job\<close>.\<close>

inductive task_step :: "'j world \<Rightarrow> 'j world \<Rightarrow> bool" where
  ts_log:
    "at_point w jid PActive sid h \<Longrightarrow>
     task_step w (w\<lparr>wd_engine := (wd_engine w)\<lparr>en_jobs :=
       fst (push_log now (en_jobs (wd_engine w)) h stream data)\<rparr>\<rparr>)"
| ts_write:
    "at_point w jid PActive sid h \<Longrightarrow> status_is_terminal st \<Longrightarrow>
     task_step w (advance w (finish_write now (wd_engine w) h st) jid (PWritten st) sid h)"
| ts_notify:
    "at_point w jid (PWritten st) sid h \<Longrightarrow>
     task_step w (advance w (finish_notify (wd_engine w) h) jid (PNotified st) sid h)"
| ts_audit:
    "at_point w jid (PNotified st) sid h \<Longrightarrow>
     task_step w (advance w (record_session_audit now (wd_engine w) sid (JobFinished jid (status_to_proto st)))
       jid (PAudited st) sid h)"
| ts_remove:
    "at_point w jid (PAudited st) sid h \<Longrightarrow>
     task_step w (advance w (finish_remove (wd_engine w) jid) jid (PDone st) sid h)"

lemma task_step_job_step: "task_step w w' \<Longrightarrow> job_step w w'"
  by (induction rule: task_step.induct) (auto intro: job_step.intros)

record 'j server =
  sr_world :: "'j world"
  sr_counter :: u64

definition server_state :: "'j server \<Rightarrow> 'j app_state" where
  "server_state s = \<lparr>st_engine = wd_engine (sr_world s), st_session_counter = sr_counter s\<rparr>"

definition server_new :: "'j provider_registry \<Rightarrow> 'j server" where
  "server_new registry = \<lparr>sr_world = world_new registry DEFAULT_LOG_BYTE_CAP, sr_counter = 1\<rparr>"

text \<open>The bounds on the two counters exclude only the last of \<open>2 ^ 64\<close> jobs and sessions.\<close>

inductive server_step :: "'j server \<Rightarrow> 'j server \<Rightarrow> bool" where
  sv_request:
    "en_next_id (wd_engine (sr_world s)) \<noteq> - 1 \<Longrightarrow> sr_counter s \<noteq> - 1 \<Longrightarrow>
     dispatch wi env (server_state s) req = (st, resp) \<Longrightarrow>
     job_step\<^sup>*\<^sup>* (sr_world s) w \<Longrightarrow> wd_engine w = st_engine st \<Longrightarrow>
     server_step s \<lparr>sr_world = w, sr_counter = st_session_counter st\<rparr>"
| sv_task: "task_step (sr_world s) w \<Longrightarrow> server_step s (s\<lparr>sr_world := w\<rparr>)"

definition server_reachable :: "'j server \<Rightarrow> bool" where
  "server_reachable s \<longleftrightarrow> (\<exists>registry. server_step\<^sup>*\<^sup>* (server_new registry) s)"

lemma server_new_state: "server_state (server_new registry) = with_registry registry"
  by (simp add: server_state_def server_new_def world_new_def with_registry_def with_log_byte_cap_def
      engine_new_def)

lemma session_id_of_inj [simp]: "session_id_of m = session_id_of n \<longleftrightarrow> m = n"
  by (simp add: session_id_of_def word_unat_eq_iff)

text \<open>Every session, and the session of every job, has an id below a counter: handed out before.\<close>

definition issued :: "u64 \<Rightarrow> session_store \<Rightarrow> 'j job_store \<Rightarrow> bool" where
  "issued c sessions jobs \<longleftrightarrow>
     (\<forall>sid. am_lookup sessions sid \<noteq> None \<longrightarrow> (\<exists>n < c. sid = session_id_of n)) \<and>
     (\<forall>jid job. job_lookup jobs jid = Some job \<longrightarrow> (\<exists>n < c. jb_session_id job = session_id_of n))"

lemma issued_next: "issued c sessions jobs \<Longrightarrow> c \<noteq> - 1 \<Longrightarrow> issued (c + 1) sessions jobs"
  unfolding issued_def by (meson u64_less_next)

lemma issued_fresh:
  assumes "issued c sessions jobs"
  shows "am_lookup sessions (session_id_of c) = None"
    and "job_lookup jobs jid = Some job \<Longrightarrow> jb_session_id job \<noteq> session_id_of c"
  using assms by (force simp: issued_def)+

lemma issued_effect:
  assumes "rpc_effect env st st'" and "st_session_counter st \<noteq> - 1" and "en_next_id (st_engine st) \<noteq> - 1"
    and "engine_inv (st_engine st)"
    and "issued (st_session_counter st) (en_sessions (st_engine st)) (en_jobs (st_engine st))"
  shows "issued (st_session_counter st') (en_sessions (st_engine st')) (en_jobs (st_engine st'))"
  using assms(1)
proof cases
  case fx_none
  then show ?thesis using assms(5) by simp
next
  case fx_id
  then show ?thesis using issued_next [OF assms(5,2)] by (simp add: next_session_id_def)
next
  case (fx_open tok now ws tier caps sessions h)
  have "store_inv (en_sessions (st_engine st))" using assms(4) by (simp add: engine_inv_def)
  note l = store_open_lookup(1) [OF this fx_open(3)]
  show ?thesis
    using issued_next [OF assms(5,2)] u64_less_next [OF assms(2)] by (auto simp: fx_open(1) issued_def l)
next
  case (fx_close now sid sessions r)
  have "store_inv (en_sessions (st_engine st))" using assms(4) by (simp add: engine_inv_def)
  note l = store_close_lookup(1) [OF this fx_close(2)]
  show ?thesis using assms(5) by (auto simp: fx_close(1) issued_def l split: if_splits)
next
  case (fx_start req eng jid)
  obtain se cwd work where st: "am_lookup (en_sessions (st_engine st)) (js_session_id req) = Some se"
      "started (ve_start env) (st_engine st) req cwd work eng"
    using engine_start_cases [OF fx_start(2)] by auto
  have s: "en_sessions eng = audited_sessions (sv_now (ve_start env)) (en_sessions (st_engine st)) (js_session_id req)
      (JobStarted (job_id_of (en_next_id (st_engine st))))" using st(2) by (auto simp: started_def Let_def)
  have "store_inv (en_sessions (st_engine st))" using assms(4) by (simp add: engine_inv_def)
  note l = audited_sessions_lookup [OF this] started_jobs(1) [OF st(2) assms(4,3)]
  show ?thesis using assms(5) st(1) by (auto simp: fx_start(1) issued_def s l split: if_splits)
next
  case (fx_cancel creq eng cr)
  then show ?thesis using engine_cancel_quieter [OF fx_cancel(2)] assms(5) by (simp add: quieter_def)
qed

lemma issued_update:
  assumes "world_inv w" and "at_point w jid p sid h" and "same_job f"
    and "issued c sessions (en_jobs (wd_engine w))"
  shows "issued c sessions (update_job f (en_jobs (wd_engine w)) h)"
proof -
  have inv: "job_store_inv (en_jobs (wd_engine w))" using assms(1) by (simp add: world_inv_def engine_inv_def)
  have get: "job_store_get (en_jobs (wd_engine w)) jid = Some h"
    using world_inv_point [OF assms(1,2)] by (simp add: point_ok_def)
  show ?thesis
    using assms(3,4) by (auto simp: issued_def update_job_lookup [OF inv get] same_job_def split: if_splits)
qed

lemma issued_task:
  assumes "task_step w w'" and "world_inv w" and "issued c (en_sessions (wd_engine w)) (en_jobs (wd_engine w))"
  shows "issued c (en_sessions (wd_engine w')) (en_jobs (wd_engine w'))"
  using assms(1)
proof cases
  case (ts_log jid sid h now stream data)
  then show ?thesis
    using issued_update [OF assms(2) ts_log(2) _ assms(3)] by (simp add: push_log_update same_job_def)
next
  case (ts_write jid sid h st now)
  then show ?thesis
    using issued_update [OF assms(2) ts_write(2) _ assms(3)] by (simp add: finish_write_update same_job_def)
next
  case (ts_notify jid st sid h)
  then show ?thesis
    using issued_update [OF assms(2) ts_notify(2) _ assms(3)] by (simp add: finish_notify_update same_job_def)
next
  case (ts_audit jid st sid h now)
  have "store_inv (en_sessions (wd_engine w))" using assms(2) by (simp add: world_inv_def engine_inv_def)
  then show ?thesis
    using assms(3) by (auto simp: ts_audit(1) issued_def audited_sessions_lookup split: if_splits)
qed (use assms(3) in \<open>simp add: finish_remove_def\<close>)

definition server_inv :: "'j server \<Rightarrow> bool" where
  "server_inv s \<longleftrightarrow> world_inv (sr_world s) \<and>
     issued (sr_counter s) (en_sessions (wd_engine (sr_world s))) (en_jobs (wd_engine (sr_world s)))"

lemma server_step_inv: "server_step s s' \<Longrightarrow> server_inv s \<Longrightarrow> server_inv s'"
proof (induction rule: server_step.induct)
  case (sv_request s wi env req st resp w)
  have w: "world_inv w"
    using sv_request(4,6) by (induction rule: rtranclp_induct) (auto simp: server_inv_def intro: job_step_inv)
  show ?case
    using issued_effect [OF dispatch_effect [OF sv_request(3)]] sv_request(1,2,5,6) w
    by (simp add: server_inv_def server_state_def world_inv_def)
next
  case (sv_task s w)
  then show ?case
    using issued_task [OF sv_task(1)] job_step_inv [OF task_step_job_step [OF sv_task(1)]]
    by (simp add: server_inv_def)
qed

lemma server_reachable_inv: "server_reachable s \<Longrightarrow> server_inv s"
proof -
  assume "server_reachable s"
  then obtain registry where "server_step\<^sup>*\<^sup>* (server_new registry) s" by (auto simp: server_reachable_def)
  then show ?thesis
  proof (induction rule: rtranclp_induct)
    case base
    show ?case
      by (simp add: server_inv_def server_new_def world_new_inv)
        (simp add: issued_def world_new_def with_log_byte_cap_def engine_new_def job_lookup_def job_store_new_def)
  next
    case (step s s')
    then show ?case using server_step_inv by blast
  qed
qed

section \<open>Errors\<close>

lemma error_code_Internal [simp]: "error_code (Internal m) = INTERNAL_ERROR"
  by (simp add: error_code_def)

lemma to_value_Inl: "to_value wi v = Inl te \<Longrightarrow> error_code te = INTERNAL_ERROR"
  by (auto simp: to_value_def map_err_iff)

lemma authorized_close:
  assumes "authorized st sid tok"
  shows "snd (store_close now (en_sessions (st_engine st)) sid) = Inr ()"
  using assms
  by (auto simp: store_authorize_def store_get_def store_close_def am_remove_def am_get_def split: option.splits)

lemma engine_cancel_Inl: "engine_cancel eng req = (eng', Inl e) \<Longrightarrow> eng' = eng"
  by (auto simp: engine_cancel_def kill_job_def split: sum.splits option.splits core_error.splits)

lemma session_open_error:
  "session_open wi env st params = (st', Inl te) \<Longrightarrow> error_code te \<noteq> INTERNAL_ERROR \<Longrightarrow> st' = st"
  by (auto simp: session_open_def next_session_id_def cap_token_generate_def error_code_def Let_def
      dest!: to_value_Inl split: sum.splits prod.splits option.splits if_splits)

lemma session_close_error:
  assumes "session_close wi env st params = (st', Inl te)" and "error_code te \<noteq> INTERNAL_ERROR"
  shows "st' = st"
proof (cases "rbind (parse_params (wi_close wi) params) (\<lambda>req.
           rbind (require_authorized_session st (sc_session_id req) (sc_cap_token req)) (\<lambda>_. Inr req))")
  case (Inr req)
  then have "authorized st (sc_session_id req) (sc_cap_token req)"
    by (auto simp: result_simps require_authorized_session_def split: if_splits)
  from authorized_close [OF this, of "sv_now (ve_start env)"] show ?thesis
    using assms Inr by (auto simp: session_close_def dest!: to_value_Inl split: prod.splits)
qed (use assms in \<open>auto simp: session_close_def\<close>)

lemma job_cancel_error:
  assumes "job_cancel wi st params = (st', Inl te)" and "error_code te \<noteq> INTERNAL_ERROR"
  shows "st' = st"
proof (cases "rbind (parse_params (wi_cancel wi) params) (\<lambda>req.
           rbind (require_authorized_session st (jc_session_id req) (jc_cap_token req)) (\<lambda>_. Inr req))")
  case (Inr req)
  obtain eng x where "engine_cancel (st_engine st) req = (eng, x)" by fastforce
  then show ?thesis
    using assms Inr engine_cancel_Inl [of "st_engine st" req eng]
    by (cases x) (auto simp: job_cancel_def dest!: to_value_Inl)
qed (use assms in \<open>auto simp: job_cancel_def\<close>)

lemma job_start_error:
  assumes "job_start wi env st params = (st', Inl te)" and "error_code te \<noteq> INTERNAL_ERROR"
  shows "st' = st"
proof (cases "rbind (parse_params (wi_start wi) params) (\<lambda>req.
           rbind (require_authorized_session st (js_session_id req) (js_cap_token req)) (\<lambda>_. Inr req))")
  case (Inr req)
  obtain eng x where "engine_start (ve_start env) (st_engine st) req = (eng, x)" by fastforce
  then show ?thesis
    using assms Inr engine_start_Inl [of "ve_start env" "st_engine st" req eng]
    by (cases x) (auto simp: job_start_def dest!: to_value_Inl)
qed (use assms in \<open>auto simp: job_start_def\<close>)

lemma call_method_error:
  assumes "call_method wi env st m params = Some (st', Inl te)" and "error_code te \<noteq> INTERNAL_ERROR"
  shows "st' = st"
  using assms session_open_error [OF _ assms(2), of wi env st params st']
    session_close_error [OF _ assms(2), of wi env st params st']
    job_start_error [OF _ assms(2), of wi env st params st'] job_cancel_error [OF _ assms(2), of wi st params st']
  unfolding call_method_def session_audit_def rpc_index_def rpc_describe_def job_status_def
  by (simp split: if_splits)

definition rpc_error_codes :: "i64 list" where
  "rpc_error_codes = [PARSE_ERROR, INVALID_REQUEST, METHOD_NOT_FOUND, INVALID_PARAMS, INTERNAL_ERROR,
     NOT_FOUND, DENIED, NOT_IMPLEMENTED, UNAUTHORIZED]"

lemma error_code_known: "error_code te \<in> set rpc_error_codes"
  by (simp add: error_code_def rpc_error_codes_def split: transport_error.split core_error.split)

text \<open>A wire whose decoders answer with fixed requests, for the witnesses.\<close>

definition wit_wire :: "unit wire" where
  "wit_wire = \<lparr>wi_request = (\<lambda>_. Inr \<lparr>rq_jsonrpc = ''2.0'', rq_id = None, rq_method = ''session.close'', rq_params = ()\<rparr>),
     wi_open = (\<lambda>_. Inr \<lparr>so_workspace = ''/w'', so_sandbox_tier = DevNone, so_capabilities = []\<rparr>),
     wi_close = (\<lambda>_. Inr \<lparr>sc_session_id = session_id_of 1, sc_cap_token = ''ct_''\<rparr>),
     wi_audit = (\<lambda>_. Inl ''e''), wi_index = (\<lambda>_. Inl ''e''), wi_describe = (\<lambda>_. Inl ''e''),
     wi_start = (\<lambda>_. Inl ''e''), wi_status = (\<lambda>_. Inl ''e''), wi_cancel = (\<lambda>_. Inl ''e''),
     wi_encode = (\<lambda>_. Inr ()), wi_null = (), wi_debug = (\<lambda>s. s)\<rparr>"

definition wit_server_env :: server_env where
  "wit_server_env = \<lparr>ve_start = wit_start_env, ve_entropy = Some []\<rparr>"

definition wit_rpc :: "string \<Rightarrow> unit jsonrpc_request" where
  "wit_rpc m = \<lparr>rq_jsonrpc = ''2.0'', rq_id = None, rq_method = m, rq_params = ()\<rparr>"

section \<open>Properties\<close>

text \<open>C3: The authentication gate: a request whose session id and token are not those of a live session
  gets the same \<open>UNAUTHORIZED\<close> error whether the session exists or not, and changes nothing; and
  a request that changes the state or succeeds is either \<open>session.open\<close> or presented the token of a
  live session.\<close>

theorem rpc_auth_gate:
  assumes "dispatch wi env st req = (st', resp)"
  shows "(\<forall>sid tok. request_credentials wi (rq_method req) (rq_params req) = Some (sid, tok) \<longrightarrow>
      \<not> authorized st sid tok \<longrightarrow>
      st' = st \<and> rs_body resp = RpcFailure \<lparr>er_code = UNAUTHORIZED, er_message = ''unauthorized'', er_data = None\<rparr>) \<and>
    (st' \<noteq> st \<or> (\<exists>v. rs_body resp = RpcSuccess v) \<longrightarrow> rq_method req = ''session.open'' \<or>
      (\<exists>sid tok. request_credentials wi (rq_method req) (rq_params req) = Some (sid, tok) \<and> authorized st sid tok))"
proof -
  let ?m = "rq_method req" and ?p = "rq_params req"
  have d: "dispatch wi env st req = (st', resp)" by fact
  have un: "st' = st \<and> rs_body resp = RpcFailure \<lparr>er_code = UNAUTHORIZED, er_message = ''unauthorized'', er_data = None\<rparr>"
    if "request_credentials wi ?m ?p = Some (sid, tok)" "\<not> authorized st sid tok" for sid tok
    using d unauthorized_call [OF that, of env]
    by (auto simp: dispatch_def response_error_def to_jsonrpc_error_def error_code_def Let_def)
  have "st' = st \<and> (\<exists>e. rs_body resp = RpcFailure e)"
    if none: "request_credentials wi ?m ?p = None" "?m \<noteq> ''session.open''"
  proof (cases "call_method wi env st ?m ?p")
    case None
    then show ?thesis using d by (auto simp: dispatch_def response_error_def Let_def)
  next
    case (Some p)
    obtain st1 r where "p = (st1, r)" by fastforce
    then show ?thesis
      using d Some undecoded_call [OF none, of env st st1 r] by (auto simp: dispatch_def response_error_def Let_def)
  qed
  then show ?thesis using un by (cases "request_credentials wi ?m ?p") (auto, fastforce+)
qed

lemma rpc_auth_gate_witness:
  "fst (dispatch wit_wire wit_server_env (with_registry registry_new) (wit_rpc ''session.close'')) = with_registry registry_new"
proof -
  let ?st = "with_registry registry_new :: unit app_state"
  have "request_credentials wit_wire ''session.close'' () = Some (session_id_of 1, ''ct_'')"
    by (simp add: request_credentials_def wit_wire_def)
  moreover have "\<not> authorized ?st (session_id_of 1) ''ct_''"
    by (simp add: with_registry_def engine_new_def store_authorize_iff)
  moreover obtain st' resp where d: "dispatch wit_wire wit_server_env ?st (wit_rpc ''session.close'') = (st', resp)"
    by fastforce
  ultimately show ?thesis using rpc_auth_gate [OF d] by (simp add: wit_rpc_def)
qed

text \<open>C24: A reply carries the request's id, or null when the request has none or does not parse; its
  error code is one of the nine of the protocol; and an error other than \<open>INTERNAL_ERROR\<close> means
  that the request changed nothing.\<close>

theorem error_reply_no_effect:
  assumes "rpc_handler wi env st body = (st', resp)"
  shows "rs_jsonrpc resp = ''2.0'' \<and>
    rs_id resp = (case wi_request wi body of Inr req \<Rightarrow> (case rq_id req of Some v \<Rightarrow> v | None \<Rightarrow> wi_null wi)
      | Inl _ \<Rightarrow> wi_null wi) \<and>
    (\<forall>e. rs_body resp = RpcFailure e \<longrightarrow> er_code e \<in> set rpc_error_codes \<and>
      (er_code e \<noteq> INTERNAL_ERROR \<longrightarrow> st' = st))"
proof (cases "wi_request wi body")
  case (Inl e)
  then show ?thesis
    using assms by (auto simp: rpc_handler_def response_error_def rpc_error_codes_def)
next
  case (Inr req)
  then have d: "dispatch wi env st req = (st', resp)" using assms by (simp add: rpc_handler_def)
  show ?thesis
  proof (cases "call_method wi env st (rq_method req) (rq_params req)")
    case None
    then show ?thesis
      using d Inr by (auto simp: dispatch_def response_error_def rpc_error_codes_def Let_def split: option.split)
  next
    case (Some p)
    obtain st1 r where p: "p = (st1, r)" by fastforce
    show ?thesis
    proof (cases r)
      case (Inr v)
      then show ?thesis
        using d Some p \<open>wi_request wi body = Inr req\<close>
        by (auto simp: dispatch_def response_success_def Let_def split: option.split)
    next
      case (Inl te)
      then show ?thesis
        using d Some p \<open>wi_request wi body = Inr req\<close> error_code_known [of te]
          call_method_error [of wi env st "rq_method req" "rq_params req" st1 te]
        by (auto simp: dispatch_def response_error_def to_jsonrpc_error_def Let_def split: option.split)
    qed
  qed
qed

lemma error_reply_no_effect_witness:
  "fst (rpc_handler wit_wire wit_server_env (with_registry registry_new) []) = with_registry registry_new"
proof -
  let ?st = "with_registry registry_new :: unit app_state"
  obtain st' resp where h: "rpc_handler wit_wire wit_server_env ?st [] = (st', resp)" by fastforce
  have "\<not> authorized ?st (session_id_of 1) ''ct_''"
    by (simp add: with_registry_def engine_new_def store_authorize_iff)
  then have "\<exists>e. rs_body resp = RpcFailure e \<and> er_code e = UNAUTHORIZED"
    using h by (auto simp: rpc_handler_def dispatch_def call_method_def session_close_def wit_wire_def parse_params_def
        require_authorized_session_def response_error_def to_jsonrpc_error_def error_code_def)
  then show ?thesis
    using error_reply_no_effect [OF h] h by (auto simp: rpc_codes)
qed

text \<open>Every request is a run of the engine's atomic steps, so what \<open>Job_Lifecycle\<close> and
  \<open>Log_Stream\<close> prove of all such runs holds of the server, whatever the requests are.\<close>

theorem requests_refine_engine_steps:
  assumes "dispatch wi env st req = (st', resp)" and "wd_engine w = st_engine st"
    and "en_next_id (st_engine st) \<noteq> - 1" and "job_reachable w"
  shows "\<exists>w'. job_step\<^sup>*\<^sup>* w w' \<and> wd_engine w' = st_engine st' \<and> job_reachable w'"
  using rpc_effect_steps [OF dispatch_effect [OF assms(1)] assms(2,3)] job_step_star_reachable [OF assms(4)] by blast

lemma with_registry_world: "st_engine (with_registry registry) = wd_engine (world_new registry DEFAULT_LOG_BYTE_CAP)"
  by (simp add: world_new_def with_registry_def with_log_byte_cap_def engine_new_def)

definition wit_opened :: "unit app_state" where
  "wit_opened = fst (session_open wit_wire wit_server_env (with_registry registry_new) ())"

lemma wit_open_result:
  "session_open wit_wire wit_server_env (with_registry registry_new) () = (wit_opened, Inr ())"
  "dispatch wit_wire wit_server_env (with_registry registry_new) (wit_rpc ''session.open'') =
     (wit_opened, response_success () ())"
proof -
  have *: "snd (session_open wit_wire wit_server_env (with_registry registry_new) ()) = Inr ()"
    by (simp add: session_open_def wit_wire_def wit_server_env_def wit_start_env_def parse_params_def workspace_new_def
        cs_from_wire_def next_session_id_def cap_token_generate_def to_value_def Let_def path_is_absolute_def
        split: prod.split)
  then show o: "session_open wit_wire wit_server_env (with_registry registry_new) () = (wit_opened, Inr ())"
    by (metis wit_opened_def prod.collapse)
  show "dispatch wit_wire wit_server_env (with_registry registry_new) (wit_rpc ''session.open'') =
     (wit_opened, response_success () ())"
    by (simp add: dispatch_def wit_rpc_def call_method_def o)
qed

lemma wit_opened_engine:
  "en_next_id (st_engine wit_opened) = 1" "st_session_counter wit_opened = 2"
  "en_jobs (st_engine wit_opened) = job_store_new"
  "authorized wit_opened (session_id_of 1) ''ct_''"
proof -
  obtain ws tier caps tok sessions h where o: "cap_token_generate (ve_entropy wit_server_env) = Inr tok"
      "store_open (sv_now (ve_start wit_server_env)) (en_sessions (st_engine (with_registry registry_new :: unit app_state)))
         (session_id_of (st_session_counter (with_registry registry_new :: unit app_state))) ws tier caps tok = (sessions, h)"
      "wit_opened = (with_registry registry_new)\<lparr>st_session_counter := st_session_counter (with_registry registry_new :: unit app_state) + 1,
         st_engine := (st_engine (with_registry registry_new))\<lparr>en_sessions := sessions\<rparr>\<rparr>"
    by (rule session_open_Inr [OF wit_open_result(1)]) blast
  have tok: "cap_token_expose tok = ''ct_''"
    using o(1) by (auto simp: wit_server_env_def cap_token_generate_eq TOKEN_PREFIX_def)
  have "store_inv (en_sessions (st_engine (with_registry registry_new :: unit app_state)))"
    by (simp add: with_registry_def engine_new_def)
  from store_open_lookup(1) [OF this o(2)] show "authorized wit_opened (session_id_of 1) ''ct_''"
    by (simp add: o(3) store_authorize_iff tok with_registry_def)
  show "en_next_id (st_engine wit_opened) = 1" "st_session_counter wit_opened = 2"
      "en_jobs (st_engine wit_opened) = job_store_new"
    by (simp_all add: o(3) with_registry_def engine_new_def)
qed

lemma requests_refine_engine_steps_witness:
  "\<exists>w'. job_step\<^sup>*\<^sup>* (world_new (registry_new :: unit provider_registry) DEFAULT_LOG_BYTE_CAP) w' \<and>
     wd_engine w' = st_engine wit_opened \<and> job_reachable w'"
proof -
  have "en_next_id (st_engine (with_registry registry_new :: unit app_state)) \<noteq> - 1"
    by (simp add: with_registry_def engine_new_def)
  from requests_refine_engine_steps [OF wit_open_result(2) with_registry_world [symmetric] this jr_new]
  show ?thesis .
qed

lemma server_sessions_inv:
  assumes "server_reachable s"
  shows "store_inv (en_sessions (st_engine (server_state s)))" and "engine_inv (st_engine (server_state s))"
    and "issued (st_session_counter (server_state s)) (en_sessions (st_engine (server_state s))) (en_jobs (st_engine (server_state s)))"
  using server_reachable_inv [OF assms] by (simp_all add: server_inv_def world_inv_def engine_inv_def server_state_def)

text \<open>C22: A session that \<open>session.open\<close> reports is new: its id named no session and owns no job, of
  the token in the reply and no other it has the authority, and the authority over every other
  session is what it was.\<close>

theorem session_open_fresh:
  assumes "server_reachable s" and "session_open wi env (server_state s) params = (st', Inr v)"
  shows "\<exists>resp. wi_encode wi (ROpen resp) = Inr v \<and>
    am_lookup (en_sessions (st_engine (server_state s))) (sor_session_id resp) = None \<and>
    (\<forall>jid job. job_lookup (en_jobs (st_engine st')) jid = Some job \<longrightarrow> jb_session_id job \<noteq> sor_session_id resp) \<and>
    (\<forall>tok. authorized st' (sor_session_id resp) tok \<longleftrightarrow> tok = sor_cap_token resp) \<and>
    (\<forall>sid tok. sid \<noteq> sor_session_id resp \<longrightarrow> authorized st' sid tok = authorized (server_state s) sid tok)"
proof (rule session_open_Inr [OF assms(2)])
  let ?st = "server_state s"
  fix ws tier caps tok sessions h
  assume o: "store_open (sv_now (ve_start env)) (en_sessions (st_engine ?st)) (session_id_of (st_session_counter ?st))
      ws tier caps tok = (sessions, h)"
    and st': "st' = ?st\<lparr>st_session_counter := st_session_counter ?st + 1,
      st_engine := (st_engine ?st)\<lparr>en_sessions := sessions\<rparr>\<rparr>"
    and v: "wi_encode wi (ROpen \<lparr>sor_session_id = session_id_of (st_session_counter ?st), sor_granted_tier = tier,
      sor_cap_token = cap_token_expose tok\<rparr>) = Inr v"
  note inv = server_sessions_inv [OF assms(1)]
  note l = store_open_lookup(1) [OF inv(1) o]
  show ?thesis
    by (rule exI, rule conjI [OF v])
      (use issued_fresh [OF inv(3)] in \<open>auto simp: st' store_authorize_iff l\<close>)
qed

lemma serve:
  assumes "server_reachable s" and "dispatch wi env (server_state s) req = (st, resp)"
    and "en_next_id (st_engine (server_state s)) \<noteq> - 1" and "st_session_counter (server_state s) \<noteq> - 1"
  shows "\<exists>s'. server_reachable s' \<and> server_step s s' \<and> server_state s' = st"
proof -
  obtain w' where w: "job_step\<^sup>*\<^sup>* (sr_world s) w'" "wd_engine w' = st_engine st"
    using rpc_effect_steps [OF dispatch_effect [OF assms(2)], of "sr_world s"] assms(3) by (auto simp: server_state_def)
  let ?s = "\<lparr>sr_world = w', sr_counter = st_session_counter st\<rparr>"
  have step: "server_step s ?s"
    using assms(3,4) by (intro sv_request [OF _ _ assms(2) w]) (simp_all add: server_state_def)
  then have "server_reachable ?s" using assms(1) unfolding server_reachable_def by (meson rtranclp.rtrancl_into_rtrancl)
  then show ?thesis using step w(2) by (intro exI [of _ ?s]) (simp add: server_state_def)
qed

lemma server_new_reachable: "server_reachable (server_new registry)"
  unfolding server_reachable_def by blast

lemma session_open_fresh_witness:
  "\<exists>resp. wi_encode wit_wire (ROpen resp) = Inr () \<and> (\<forall>tok. authorized wit_opened (sor_session_id resp) tok \<longleftrightarrow> tok = sor_cap_token resp)"
  using session_open_fresh [OF server_new_reachable wit_open_result(1) [folded server_new_state]] by blast

lemma wit_server_opened: "\<exists>s. server_reachable s \<and> server_state s = wit_opened"
proof -
  have "dispatch wit_wire wit_server_env (server_state (server_new registry_new)) (wit_rpc ''session.open'') =
      (wit_opened, response_success () ())"
    by (simp only: server_new_state wit_open_result(2))
  from serve [OF server_new_reachable this] show ?thesis
    by (auto simp: server_new_state with_registry_def engine_new_def)
qed

text \<open>An id handed out that names no session any more.\<close>

definition retired :: "session_id \<Rightarrow> 'j app_state \<Rightarrow> bool" where
  "retired sid st \<longleftrightarrow> (\<exists>n < st_session_counter st. sid = session_id_of n) \<and>
     am_lookup (en_sessions (st_engine st)) sid = None"

lemma retired_effect:
  assumes "rpc_effect env st st'" and "retired sid st" and "st_session_counter st \<noteq> - 1"
    and "en_next_id (st_engine st) \<noteq> - 1" and "engine_inv (st_engine st)"
  shows "retired sid st'"
  using assms(1)
proof cases
  case fx_id
  then show ?thesis using assms(2) u64_less_next [OF assms(3)] by (auto simp: retired_def next_session_id_def)
next
  case (fx_open tok now ws tier caps sessions h)
  have "store_inv (en_sessions (st_engine st))" using assms(5) by (simp add: engine_inv_def)
  note l = store_open_lookup(1) [OF this fx_open(3)]
  show ?thesis using assms(2) u64_less_next [OF assms(3)] by (auto simp: fx_open(1) retired_def l)
next
  case (fx_close now sid' sessions r)
  have "store_inv (en_sessions (st_engine st))" using assms(5) by (simp add: engine_inv_def)
  note l = store_close_lookup(1) [OF this fx_close(2)]
  show ?thesis using assms(2) by (auto simp: fx_close(1) retired_def l)
next
  case (fx_start req eng jid)
  obtain cwd work where st: "started (ve_start env) (st_engine st) req cwd work eng"
    using engine_start_cases [OF fx_start(2)] by auto
  have s: "en_sessions eng = audited_sessions (sv_now (ve_start env)) (en_sessions (st_engine st)) (js_session_id req)
      (JobStarted (job_id_of (en_next_id (st_engine st))))" using st by (auto simp: started_def Let_def)
  have "store_inv (en_sessions (st_engine st))" using assms(5) by (simp add: engine_inv_def)
  note l = audited_sessions_lookup [OF this]
  show ?thesis using assms(2) by (auto simp: fx_start(1) retired_def s l)
next
  case (fx_cancel creq eng cr)
  then show ?thesis using engine_cancel_quieter [OF fx_cancel(2)] assms(2) by (simp add: quieter_def retired_def)
qed (use assms(2) in simp)

lemma retired_task:
  assumes "task_step (sr_world s) w" and "world_inv (sr_world s)" and "retired sid (server_state s)"
  shows "retired sid (server_state (s\<lparr>sr_world := w\<rparr>))"
  using assms(1)
proof cases
  case (ts_audit jid st sid' h now)
  have "store_inv (en_sessions (wd_engine (sr_world s)))" using assms(2) by (simp add: world_inv_def engine_inv_def)
  then show ?thesis using assms(3) ts_audit(1) by (auto simp: retired_def server_state_def audited_sessions_lookup)
qed (use assms(3) in \<open>auto simp: retired_def server_state_def push_log_update finish_write_update
    finish_notify_update finish_remove_def\<close>)

lemma retired_run:
  assumes "server_step\<^sup>*\<^sup>* s t" and "server_reachable s" and "retired sid (server_state s)"
  shows "retired sid (server_state t) \<and> server_reachable t"
  using assms(1)
proof (induction rule: rtranclp_induct)
  case base
  then show ?case using assms(2,3) by simp
next
  case (step t u)
  then have "server_reachable u" unfolding server_reachable_def by (meson rtranclp.rtrancl_into_rtrancl)
  moreover have inv: "world_inv (sr_world t)" using server_reachable_inv step.IH by (auto simp: server_inv_def)
  moreover from step.hyps(2) have "retired sid (server_state u)"
  proof cases
    case (sv_request wi env req st resp w)
    then have "server_state u = st" by (simp add: server_state_def)
    then show ?thesis
      using retired_effect [OF dispatch_effect [OF sv_request(4)]] step.IH inv sv_request(2,3)
      by (simp add: server_state_def world_inv_def)
  next
    case (sv_task w)
    then show ?thesis using retired_task inv step.IH by blast
  qed
  ultimately show ?case by simp
qed

lemma session_close_Inr:
  assumes "session_close wi env st params = (st', Inr v)" and "wi_close wi params = Inr req"
  obtains sessions where "authorized st (sc_session_id req) (sc_cap_token req)"
    and "store_close (sv_now (ve_start env)) (en_sessions (st_engine st)) (sc_session_id req) = (sessions, Inr ())"
    and "st' = st\<lparr>st_engine := (st_engine st)\<lparr>en_sessions := sessions\<rparr>\<rparr>"
  using assms
  by (auto simp: session_close_def parse_params_def require_authorized_session_def result_simps
      split: prod.splits if_splits sum.splits)

lemma session_close_retires:
  assumes "server_reachable s" and "session_close wi env (server_state s) params = (st', Inr v)"
    and "wi_close wi params = Inr req"
  shows "retired (sc_session_id req) st'"
proof (rule session_close_Inr [OF assms(2,3)])
  let ?st = "server_state s"
  fix sessions
  assume auth: "authorized ?st (sc_session_id req) (sc_cap_token req)"
    and c: "store_close (sv_now (ve_start env)) (en_sessions (st_engine ?st)) (sc_session_id req) = (sessions, Inr ())"
    and st': "st' = ?st\<lparr>st_engine := (st_engine ?st)\<lparr>en_sessions := sessions\<rparr>\<rparr>"
  note inv = server_sessions_inv [OF assms(1)]
  have "am_lookup (en_sessions (st_engine ?st)) (sc_session_id req) \<noteq> None"
    using auth by (auto simp: store_authorize_iff)
  then have "\<exists>n < st_session_counter ?st. sc_session_id req = session_id_of n"
    using inv(3) unfolding issued_def by blast
  then show ?thesis
    using store_close_lookup(1) [OF inv(1) c] by (auto simp: st' retired_def)
qed

text \<open>A closed session stays closed: whatever runs after it, no token is authorized for its id
  again, and every request that names it is answered \<open>UNAUTHORIZED\<close> without effect. The handler
  touches neither the session's jobs nor their cancel entries and signals: running jobs run on, and
  no request can cancel them any more.\<close>

theorem session_close_is_final:
  assumes "server_reachable s" and "session_close wi env (server_state s) params = (st', Inr v)"
    and "wi_close wi params = Inr req"
    and "server_reachable s'" and "server_state s' = st'" and "server_step\<^sup>*\<^sup>* s' t"
  shows "(\<forall>tok. \<not> authorized (server_state t) (sc_session_id req) tok) \<and>
    (\<forall>wi env m p tok. request_credentials wi m p = Some (sc_session_id req, tok) \<longrightarrow>
      call_method wi env (server_state t) m p = Some (server_state t, Inl Unauthorized)) \<and>
    en_jobs (st_engine st') = en_jobs (st_engine (server_state s)) \<and>
    en_cancels (st_engine st') = en_cancels (st_engine (server_state s)) \<and>
    en_signals (st_engine st') = en_signals (st_engine (server_state s))"
proof -
  have "retired (sc_session_id req) (server_state t)"
    using retired_run [OF assms(6,4)] session_close_retires [OF assms(1-3)] assms(5) by simp
  then have un: "\<not> authorized (server_state t) (sc_session_id req) tok" for tok
    by (simp add: retired_def store_authorize_iff)
  obtain sessions where "st' = (server_state s)\<lparr>st_engine := (st_engine (server_state s))\<lparr>en_sessions := sessions\<rparr>\<rparr>"
    by (rule session_close_Inr [OF assms(2,3)])
  then show ?thesis using un by (auto intro: unauthorized_call)
qed

lemma session_close_is_final_witness:
  "\<exists>st'. session_close wit_wire wit_server_env wit_opened () = (st', Inr ()) \<and>
     authorized wit_opened (session_id_of 1) ''ct_'' \<and> \<not> authorized st' (session_id_of 1) ''ct_''"
proof -
  obtain s where s: "server_reachable s" "server_state s = wit_opened" using wit_server_opened by blast
  let ?req = "\<lparr>sc_session_id = session_id_of 1, sc_cap_token = ''ct_''\<rparr>"
  have dec: "wi_close wit_wire () = Inr ?req" by (simp add: wit_wire_def)
  have "snd (session_close wit_wire wit_server_env wit_opened ()) = Inr ()"
    using authorized_close [OF wit_opened_engine(4), of "sv_now (ve_start wit_server_env)"] wit_opened_engine(4) dec
    by (cases "store_close (sv_now (ve_start wit_server_env)) (en_sessions (st_engine wit_opened)) (session_id_of 1)")
      (simp add: session_close_def parse_params_def require_authorized_session_def to_value_def, simp add: wit_wire_def)
  then obtain st' where c: "session_close wit_wire wit_server_env (server_state s) () = (st', Inr ())"
    using s(2) by (metis prod.collapse)
  then have "\<exists>resp. dispatch wit_wire wit_server_env (server_state s) (wit_rpc ''session.close'') = (st', resp)"
    by (simp add: dispatch_def wit_rpc_def call_method_def)
  then obtain resp where d: "dispatch wit_wire wit_server_env (server_state s) (wit_rpc ''session.close'') = (st', resp)"
    by blast
  obtain s' where s': "server_reachable s'" "server_state s' = st'"
    using serve [OF s(1) d] s(2) wit_opened_engine by auto
  show ?thesis
    using session_close_is_final [OF s(1) c dec s' rtranclp.rtrancl_refl] wit_opened_engine(4) c s(2) s'(2) by auto
qed

section \<open>Attaching\<close>

lemma job_events_numbered:
  assumes "world_inv w" and "job_lookup (en_jobs (wd_engine w)) jid = Some job" and "k < length (ml_events (jb_replay_log job))"
  shows "ev_seq (ml_events (jb_replay_log job) ! k) = of_nat k"
proof -
  have "wd_point w jid \<noteq> None" using assms(1,2) by (auto simp del: not_None_eq simp: world_inv_def)
  then obtain p sid h where "wd_point w jid = Some (p, sid, h)" by auto
  then show ?thesis using assms unfolding world_inv_def point_ok_def log_ok_def by fastforce
qed

text \<open>C30: The event-stream endpoint: without the token of a live session it answers 401, for a job that
  is not the session's it answers 404, and otherwise the stream starts at the resume offset. A
  client that presents the id of the last event it received is sent that event again.\<close>

theorem attach_sse_outcome:
  assumes "server_reachable s"
  shows "let st = server_state s; sid = SessionId (ap_session_id params); jid = JobId (ap_job_id params) in
    (case attach_sse st params last_event_id of
       Inl e \<Rightarrow>
         (if authorized st sid (ap_cap_token params) then
            e = Runtime (JobNotFound jid) \<and> attach_error_status e = 404 \<and>
            (\<forall>job. job_lookup (en_jobs (st_engine st)) jid = Some job \<longrightarrow> jb_session_id job \<noteq> sid)
          else e = Unauthorized \<and> attach_error_status e = 401)
     | Inr stream \<Rightarrow> authorized st sid (ap_cap_token params) \<and>
         (\<exists>job. job_lookup (en_jobs (st_engine st)) jid = Some job \<and> jb_session_id job = sid \<and>
            jl_cursor stream = resume_offset params last_event_id \<and>
            (\<forall>k < length (ml_events (jb_replay_log job)). k \<le> usize_max \<longrightarrow>
              last_event_id = Some (dec_digits (unat (ev_seq (ml_events (jb_replay_log job) ! k)))) \<longrightarrow>
              hd (drop (unat (jl_cursor stream)) (ml_events (jb_replay_log job))) = ml_events (jb_replay_log job) ! k)))"
proof -
  let ?st = "server_state s" and ?sid = "SessionId (ap_session_id params)" and ?jid = "JobId (ap_job_id params)"
  have inv: "world_inv (sr_world s)" using server_reachable_inv [OF assms] by (simp add: server_inv_def)
  have status: "attach_error_status Unauthorized = 401" "attach_error_status (Runtime (JobNotFound j)) = 404" for j
    by (simp_all add: attach_error_status_def error_code_def rpc_codes)
  show ?thesis
  proof (cases "authorized ?st ?sid (ap_cap_token params)")
    case False
    then show ?thesis by (simp add: attach_sse_def status)
  next
    case auth: True
    show ?thesis
    proof (cases "lookup_owned (st_engine ?st) ?sid ?jid")
      case (Inl e)
      have "jb_session_id job \<noteq> ?sid" if "job_lookup (en_jobs (st_engine ?st)) ?jid = Some job" for job
        using Inl that lookup_owned_Inr [of "st_engine ?st" ?sid ?jid]
        by (auto simp: job_lookup_def am_lookup_def job_store_get_def split: Option.bind_splits)
      then show ?thesis
        using auth Inl lookup_owned_Inl [OF Inl] by (simp add: attach_sse_def engine_attach_def status Let_def)
    next
      case (Inr h)
      then obtain job where job: "job_lookup (en_jobs (st_engine ?st)) ?jid = Some job" "jb_session_id job = ?sid"
        using lookup_owned_Inr by blast
      have "hd (drop (unat (ev_seq (ml_events (jb_replay_log job) ! k))) (ml_events (jb_replay_log job))) =
          ml_events (jb_replay_log job) ! k"
        if "k < length (ml_events (jb_replay_log job))" "k \<le> usize_max" for k
        using job_events_numbered [OF inv _ that(1), of ?jid] job(1) that
        by (simp add: server_state_def unat_of_nat_u64 hd_drop_conv_nth)
      then show ?thesis
        using auth Inr job by (auto simp: attach_sse_def engine_attach_def resume_offset_def Let_def)
    qed
  qed
qed

lemma attach_sse_outcome_witness:
  "attach_sse (server_state (server_new (registry_new :: unit provider_registry)))
     \<lparr>ap_session_id = ''s_1'', ap_cap_token = ''t'', ap_job_id = ''j_1'', ap_from_offset = 0\<rparr> None = Inl Unauthorized \<and>
   (\<exists>e. attach_sse wit_opened \<lparr>ap_session_id = ''s_1'', ap_cap_token = ''ct_'', ap_job_id = ''j_1'', ap_from_offset = 0\<rparr>
      None = Inl e \<and> attach_error_status e = 404)"
proof
  let ?st = "server_state (server_new (registry_new :: unit provider_registry))"
  let ?p = "\<lparr>ap_session_id = ''s_1'', ap_cap_token = ''t'', ap_job_id = ''j_1'', ap_from_offset = 0\<rparr>"
  have "\<not> authorized ?st (SessionId ''s_1'') ''t''"
    by (simp add: server_new_state with_registry_def engine_new_def store_authorize_iff)
  then show "attach_sse ?st ?p None = Inl Unauthorized"
    using attach_sse_outcome [OF server_new_reachable, of "registry_new :: unit provider_registry" ?p None]
    by (simp add: Let_def split: sum.splits)
next
  let ?p = "\<lparr>ap_session_id = ''s_1'', ap_cap_token = ''ct_'', ap_job_id = ''j_1'', ap_from_offset = 0\<rparr>"
  obtain s where s: "server_reachable s" "server_state s = wit_opened" using wit_server_opened by blast
  have "session_id_of 1 = SessionId ''s_1''" by code_simp
  then have auth: "authorized wit_opened (SessionId ''s_1'') ''ct_''" using wit_opened_engine(4) by simp
  have "job_lookup (en_jobs (st_engine wit_opened)) jid = None" for jid
    by (simp add: wit_opened_engine(3) job_lookup_def job_store_new_def)
  then show "\<exists>e. attach_sse wit_opened ?p None = Inl e \<and> attach_error_status e = 404"
    using attach_sse_outcome [OF s(1), of ?p None] auth s(2) by (auto simp: Let_def split: sum.splits)
qed

end
