(* ===== verification/Client.thy ===== *)
theory Client
  imports Server
begin

text \<open>
  \<open>crates/axp-client\<close>: the error type (\<open>error.rs\<close>), the checks of the base URL, the request
  and the error path of \<open>job.attach\<close> and \<open>AttachedJob\<close> (\<open>lib.rs\<close>), the response
  decoding and the incremental event-stream decoder (\<open>rpc.rs\<close>). \<open>reqwest\<close> is the record of
  what it answered: a status and a body, or the chunks of a body in the order they arrive, each of
  them bytes or an error. \<open>serde_json\<close> is a record of decoders.
\<close>

section \<open>Errors\<close>

record 'j rpc_error =
  re_code :: i64
  re_message :: string
  re_data :: "'j option"

datatype 'j client_error =
  InvalidBaseUrl string
| UrlError string
| HttpError string
| HttpStatus nat
| JsonError string
| Rpc i64 string "'j option"
| InvalidRpcResponse string

type_synonym ('j, 'a) client_result = "('j client_error, 'a) result"

definition from_rpc_error :: "'j rpc_error \<Rightarrow> 'j client_error" where
  "from_rpc_error e = Rpc (re_code e) (re_message e) (re_data e)"

section \<open>Responses\<close>

record 'j client_request =
  cq_jsonrpc :: string
  cq_id :: u64
  cq_method :: string
  cq_params :: 'j

record 'j raw_response =
  rw_jsonrpc :: string
  rw_id :: 'j
  rw_result :: "'j option"
  rw_error :: "'j rpc_error option"

record ('j, 'r) rpc_response =
  rr_jsonrpc :: string
  rr_id :: 'j
  rr_result :: "'r option"
  rr_error :: "'j rpc_error option"

record http_response =
  ht_status :: nat
  ht_body :: "byte list"

text \<open>
  \<open>cw_one\<close> is \<open>json!(1)\<close> and \<open>cw_show\<close> prints a value. In a \<open>raw_response\<close> an absent or
  null member is \<open>None\<close>.
\<close>

record 'j client_wire =
  cw_value :: "byte list \<Rightarrow> (string, 'j) result"
  cw_raw :: "'j \<Rightarrow> (string, 'j raw_response) result"
  cw_frame :: "byte list \<Rightarrow> (string, log_event_frame) result"
  cw_http_error :: "byte list \<Rightarrow> (string, 'j rpc_error) result"
  cw_one :: 'j
  cw_show :: "'j \<Rightarrow> string"

definition is_success :: "nat \<Rightarrow> bool" where
  "is_success status \<longleftrightarrow> 200 \<le> status \<and> status < 300"

definition decode_rpc_value ::
    "'j client_wire \<Rightarrow> ('j \<Rightarrow> (string, 'r) result) \<Rightarrow> 'j \<Rightarrow> ('j, ('j, 'r) rpc_response) client_result" where
  "decode_rpc_value cw decode v =
     rbind (map_err JsonError (cw_raw cw v)) (\<lambda>raw.
     rbind (case rw_result raw of
         Some r \<Rightarrow> rbind (map_err JsonError (decode r)) (\<lambda>x. Inr (Some x))
       | None \<Rightarrow> Inr None) (\<lambda>result.
     Inr \<lparr>rr_jsonrpc = rw_jsonrpc raw, rr_id = rw_id raw, rr_result = result, rr_error = rw_error raw\<rparr>))"

definition decode_rpc_response :: "'j client_wire \<Rightarrow> ('j, 'r) rpc_response \<Rightarrow> ('j, 'r) client_result" where
  "decode_rpc_response cw response =
     (if rr_jsonrpc response \<noteq> ''2.0'' then
        Inl (InvalidRpcResponse (''unexpected jsonrpc version '' @ rr_jsonrpc response))
      else if rr_id response \<noteq> cw_one cw then
        Inl (InvalidRpcResponse (''unexpected response id '' @ cw_show cw (rr_id response)))
      else
        (case (rr_result response, rr_error response) of
           (Some result, None) \<Rightarrow> Inr result
         | (None, Some e) \<Rightarrow> Inl (from_rpc_error e)
         | (Some _, Some _) \<Rightarrow> Inl (InvalidRpcResponse ''response contained both result and error'')
         | (None, None) \<Rightarrow> Inl (InvalidRpcResponse ''response contained neither result nor error'')))"

text \<open>\<open>send\<close> posts a request: a response, or the transport's error message.\<close>

definition rpc_call ::
    "'j client_wire \<Rightarrow> ('j client_request \<Rightarrow> (string, http_response) result) \<Rightarrow> ('j \<Rightarrow> (string, 'r) result)
      \<Rightarrow> string \<Rightarrow> 'j \<Rightarrow> ('j, 'r) client_result" where
  "rpc_call cw send decode m params =
     rbind (map_err HttpError (send \<lparr>cq_jsonrpc = ''2.0'', cq_id = 1, cq_method = m, cq_params = params\<rparr>)) (\<lambda>response.
     if \<not> is_success (ht_status response) then Inl (HttpStatus (ht_status response))
     else
       rbind (map_err HttpError (cw_value cw (ht_body response))) (\<lambda>v.
       rbind (decode_rpc_value cw decode v) (decode_rpc_response cw)))"

text \<open>
  The typed methods. \<open>client_codec\<close> holds the \<open>serde\<close> encoders of the requests and the decoders
  of the responses.
\<close>

record 'j client_codec =
  ke_open :: "session_open_request \<Rightarrow> 'j"
  ke_close :: "session_close_request \<Rightarrow> 'j"
  ke_audit :: "session_audit_request \<Rightarrow> 'j"
  ke_index :: "index_request \<Rightarrow> 'j"
  ke_describe :: "describe_request \<Rightarrow> 'j"
  ke_start :: "'j job_start_request \<Rightarrow> 'j"
  ke_status :: "job_status_request \<Rightarrow> 'j"
  ke_cancel :: "job_cancel_request \<Rightarrow> 'j"
  kd_open :: "'j \<Rightarrow> (string, session_open_response) result"
  kd_close :: "'j \<Rightarrow> (string, session_close_response) result"
  kd_audit :: "'j \<Rightarrow> (string, session_audit_response) result"
  kd_index :: "'j \<Rightarrow> (string, index_response) result"
  kd_describe :: "'j \<Rightarrow> (string, 'j capability_detail) result"
  kd_start :: "'j \<Rightarrow> (string, job_start_response) result"
  kd_status :: "'j \<Rightarrow> (string, job_status_response) result"
  kd_cancel :: "'j \<Rightarrow> (string, job_cancel_response) result"

record 'j rpc_client =
  kl_wire :: "'j client_wire"
  kl_codec :: "'j client_codec"
  kl_send :: "'j client_request \<Rightarrow> (string, http_response) result"

definition client_rpc ::
    "'j rpc_client \<Rightarrow> ('j client_codec \<Rightarrow> 'j \<Rightarrow> (string, 'r) result) \<Rightarrow> string \<Rightarrow> ('j client_codec \<Rightarrow> 'q \<Rightarrow> 'j)
      \<Rightarrow> 'q \<Rightarrow> ('j, 'r) client_result" where
  "client_rpc c decode m encode request =
     rpc_call (kl_wire c) (kl_send c) (decode (kl_codec c)) m (encode (kl_codec c) request)"

definition open_session :: "'j rpc_client \<Rightarrow> session_open_request \<Rightarrow> ('j, session_open_response) client_result" where
  "open_session c = client_rpc c kd_open ''session.open'' ke_open"

definition close_session :: "'j rpc_client \<Rightarrow> session_close_request \<Rightarrow> ('j, session_close_response) client_result" where
  "close_session c = client_rpc c kd_close ''session.close'' ke_close"

definition client_audit :: "'j rpc_client \<Rightarrow> session_audit_request \<Rightarrow> ('j, session_audit_response) client_result" where
  "client_audit c = client_rpc c kd_audit ''session.audit'' ke_audit"

definition client_index :: "'j rpc_client \<Rightarrow> index_request \<Rightarrow> ('j, index_response) client_result" where
  "client_index c = client_rpc c kd_index ''axp.index'' ke_index"

definition client_describe :: "'j rpc_client \<Rightarrow> describe_request \<Rightarrow> ('j, 'j capability_detail) client_result" where
  "client_describe c = client_rpc c kd_describe ''axp.describe'' ke_describe"

definition start_job :: "'j rpc_client \<Rightarrow> 'j job_start_request \<Rightarrow> ('j, job_start_response) client_result" where
  "start_job c = client_rpc c kd_start ''job.start'' ke_start"

definition client_status :: "'j rpc_client \<Rightarrow> job_status_request \<Rightarrow> ('j, job_status_response) client_result" where
  "client_status c = client_rpc c kd_status ''job.status'' ke_status"

definition cancel_job :: "'j rpc_client \<Rightarrow> job_cancel_request \<Rightarrow> ('j, job_cancel_response) client_result" where
  "cancel_job c = client_rpc c kd_cancel ''job.cancel'' ke_cancel"

definition decode_http_error :: "'j client_wire \<Rightarrow> byte list \<Rightarrow> 'j rpc_error option" where
  "decode_http_error cw body = (case cw_http_error cw body of Inr e \<Rightarrow> Some e | Inl _ \<Rightarrow> None)"

section \<open>The event-stream decoder\<close>

text \<open>Newline and carriage return; \<open>data:\<close>.\<close>

abbreviation LF :: byte where "LF \<equiv> 10"
abbreviation CR :: byte where "CR \<equiv> 13"

definition data_prefix :: "byte list" where
  "data_prefix = [100, 97, 116, 97, 58]"

definition strip_cr :: "byte list \<Rightarrow> byte list" where
  "strip_cr line = (if ends_with line [CR] then butlast line else line)"

text \<open>One line of an event: the data so far and whether any was seen.\<close>

definition event_line :: "byte list \<Rightarrow> byte list \<times> bool \<Rightarrow> byte list \<times> bool" where
  "event_line line acc =
     (case acc of (data, saw_data) \<Rightarrow>
        (case strip_prefix (strip_cr line) data_prefix of
           Some line_data \<Rightarrow> ((if saw_data then data @ [LF] else data) @ line_data, True)
         | None \<Rightarrow> (data, saw_data)))"

definition decode_sse_event ::
    "'j client_wire \<Rightarrow> byte list \<Rightarrow> log_event_frame list \<Rightarrow> ('j, log_event_frame list) client_result" where
  "decode_sse_event cw event frames =
     (case fold event_line (split_on LF event) ([], False) of
        (data, saw_data) \<Rightarrow>
          if saw_data then rbind (map_err JsonError (cw_frame cw data)) (\<lambda>frame. Inr (frames @ [frame]))
          else Inr frames)"

record sse_decoder =
  dc_pending :: "byte list"
  dc_current :: "byte list"

definition decoder_default :: sse_decoder where
  "decoder_default = \<lparr>dc_pending = [], dc_current = []\<rparr>"

text \<open>
  The loop of \<open>push\<close>: as long as there is a complete line, take it. A decoding error leaves the
  decoder as it is at that point: the event still in \<open>current\<close>, the frames found so far lost.
\<close>

function push_loop ::
    "'j client_wire \<Rightarrow> sse_decoder \<Rightarrow> log_event_frame list
      \<Rightarrow> sse_decoder \<times> ('j, log_event_frame list) client_result" where
  "push_loop cw d frames =
     (if LF \<notin> set (dc_pending d) then (d, Inr frames)
      else
        let line = takeWhile (\<lambda>byte. byte \<noteq> LF) (dc_pending d);
            d = d\<lparr>dc_pending := tl (dropWhile (\<lambda>byte. byte \<noteq> LF) (dc_pending d))\<rparr>;
            line = strip_cr line in
        if line = [] then
          if dc_current d \<noteq> [] then
            (case decode_sse_event cw (dc_current d) frames of
               Inl e \<Rightarrow> (d, Inl e)
             | Inr frames \<Rightarrow> push_loop cw (d\<lparr>dc_current := []\<rparr>) frames)
          else push_loop cw d frames
        else push_loop cw (d\<lparr>dc_current := dc_current d @ line @ [LF]\<rparr>) frames)"
  by pat_completeness auto

lemma after_newline_shorter:
  "x \<in> set xs \<Longrightarrow> length (tl (dropWhile (\<lambda>y. y \<noteq> x) xs)) < length xs"
  by (induction xs) (auto simp: less_Suc_eq)

termination push_loop
  by (relation "measure (\<lambda>(cw, d, frames). length (dc_pending d))") (auto simp: after_newline_shorter simp del: length_tl)

declare push_loop.simps [simp del]

definition sse_push ::
    "'j client_wire \<Rightarrow> sse_decoder \<Rightarrow> byte list \<Rightarrow> sse_decoder \<times> ('j, log_event_frame list) client_result" where
  "sse_push cw d bytes = push_loop cw (d\<lparr>dc_pending := dc_pending d @ bytes\<rparr>) []"

definition sse_finish :: "'j client_wire \<Rightarrow> sse_decoder \<Rightarrow> ('j, log_event_frame list) client_result" where
  "sse_finish cw d =
     (let current = (if dc_pending d \<noteq> [] then dc_current d @ dc_pending d else dc_current d) in
      if current \<noteq> [] then decode_sse_event cw current [] else Inr [])"

definition parse_sse_frames :: "'j client_wire \<Rightarrow> byte list \<Rightarrow> ('j, log_event_frame list) client_result" where
  "parse_sse_frames cw body =
     (case sse_push cw decoder_default body of (d, pushed) \<Rightarrow>
        rbind pushed (\<lambda>frames. rbind (sse_finish cw d) (\<lambda>more. Inr (frames @ more))))"

section \<open>AttachedJob\<close>

record attached_job =
  aj_chunks :: "(string, byte list) result list"
  aj_decoder :: sse_decoder
  aj_pending :: "log_event_frame list"

text \<open>The loop of \<open>next_frame\<close> over the chunks still to come, entered with nothing pending.\<close>

fun next_chunks ::
    "'j client_wire \<Rightarrow> sse_decoder \<Rightarrow> (string, byte list) result list
      \<Rightarrow> attached_job \<times> ('j, log_event_frame option) client_result" where
  "next_chunks cw d [] =
     (let job = \<lparr>aj_chunks = [], aj_decoder = decoder_default, aj_pending = []\<rparr> in
      case sse_finish cw d of
        Inl e \<Rightarrow> (job, Inl e)
      | Inr [] \<Rightarrow> (job, Inr None)
      | Inr (frame # rest) \<Rightarrow> (job\<lparr>aj_pending := rest\<rparr>, Inr (Some frame)))"
| "next_chunks cw d (Inl e # chunks) =
     (\<lparr>aj_chunks = chunks, aj_decoder = d, aj_pending = []\<rparr>, Inl (HttpError e))"
| "next_chunks cw d (Inr chunk # chunks) =
     (case sse_push cw d chunk of
        (d, Inl e) \<Rightarrow> (\<lparr>aj_chunks = chunks, aj_decoder = d, aj_pending = []\<rparr>, Inl e)
      | (d, Inr []) \<Rightarrow> next_chunks cw d chunks
      | (d, Inr (frame # rest)) \<Rightarrow> (\<lparr>aj_chunks = chunks, aj_decoder = d, aj_pending = rest\<rparr>, Inr (Some frame)))"

definition next_frame :: "'j client_wire \<Rightarrow> attached_job \<Rightarrow> attached_job \<times> ('j, log_event_frame option) client_result" where
  "next_frame cw job =
     (case aj_pending job of
        frame # rest \<Rightarrow> (job\<lparr>aj_pending := rest\<rparr>, Inr (Some frame))
      | [] \<Rightarrow> next_chunks cw (aj_decoder job) (aj_chunks job))"

section \<open>The client\<close>

record url =
  ur_scheme :: string
  ur_host :: "string option"
  ur_path :: string

text \<open>\<open>parse\<close> is the URL crate's parser.\<close>

definition client_new :: "(string \<Rightarrow> (string, url) result) \<Rightarrow> string \<Rightarrow> ('j, url) client_result" where
  "client_new parse base_url =
     rbind (map_err UrlError (parse base_url)) (\<lambda>u.
     if ur_scheme u \<noteq> ''http'' then Inl (InvalidBaseUrl (''unsupported scheme '' @ ur_scheme u))
     else if ur_host u = None then Inl (InvalidBaseUrl ''missing host'')
     else if \<not> ends_with (ur_path u) ''/'' then Inr (u\<lparr>ur_path := ur_path u @ ''/''\<rparr>)
     else Inr u)"

record attach_job_options =
  ao_last_event_id :: "u64 option"

definition attach_options_default :: attach_job_options where
  "attach_options_default = \<lparr>ao_last_event_id = None\<rparr>"

definition with_last_event_id :: "attach_job_options \<Rightarrow> u64 \<Rightarrow> attach_job_options" where
  "with_last_event_id options last_event_id = options\<lparr>ao_last_event_id := Some last_event_id\<rparr>"

record attach_http_request =
  ah_query :: "(string \<times> string) list"
  ah_last_event_id :: "string option"

definition attach_request :: "job_attach_request \<Rightarrow> attach_job_options \<Rightarrow> attach_http_request" where
  "attach_request request options =
     \<lparr>ah_query = [(''session_id'', session_id_as_str (ja_session_id request)),
         (''cap_token'', ja_cap_token request), (''job_id'', job_id_as_str (ja_job_id request)),
         (''from_offset'', dec_digits (unat (ja_from_offset request)))],
      ah_last_event_id = map_option (\<lambda>n. dec_digits (unat n)) (ao_last_event_id options)\<rparr>"

text \<open>The status line and then the body of the response: a whole body for an error.\<close>

record attach_http_response =
  ar_status :: nat
  ar_body :: "(string, byte list) result"
  ar_chunks :: "(string, byte list) result list"

definition send_attach_request ::
    "'j client_wire \<Rightarrow> (attach_http_request \<Rightarrow> (string, attach_http_response) result)
      \<Rightarrow> job_attach_request \<Rightarrow> attach_job_options \<Rightarrow> ('j, attach_http_response) client_result" where
  "send_attach_request cw send request options =
     rbind (map_err HttpError (send (attach_request request options))) (\<lambda>response.
     if \<not> is_success (ar_status response) then
       rbind (map_err HttpError (ar_body response)) (\<lambda>body.
       case decode_http_error cw body of
         Some e \<Rightarrow> Inl (from_rpc_error e)
       | None \<Rightarrow> Inl (HttpStatus (ar_status response)))
     else Inr response)"

definition attach_job ::
    "'j client_wire \<Rightarrow> (attach_http_request \<Rightarrow> (string, attach_http_response) result)
      \<Rightarrow> job_attach_request \<Rightarrow> ('j, log_event_frame list) client_result" where
  "attach_job cw send request =
     rbind (send_attach_request cw send request attach_options_default) (\<lambda>response.
     rbind (map_err HttpError (ar_body response)) (\<lambda>body. parse_sse_frames cw body))"

definition attach_job_stream_with_options ::
    "'j client_wire \<Rightarrow> (attach_http_request \<Rightarrow> (string, attach_http_response) result)
      \<Rightarrow> job_attach_request \<Rightarrow> attach_job_options \<Rightarrow> ('j, attached_job) client_result" where
  "attach_job_stream_with_options cw send request options =
     rbind (send_attach_request cw send request options) (\<lambda>response.
     Inr \<lparr>aj_chunks = ar_chunks response, aj_decoder = decoder_default, aj_pending = []\<rparr>)"

definition attach_job_stream ::
    "'j client_wire \<Rightarrow> (attach_http_request \<Rightarrow> (string, attach_http_response) result)
      \<Rightarrow> job_attach_request \<Rightarrow> ('j, attached_job) client_result" where
  "attach_job_stream cw send request = attach_job_stream_with_options cw send request attach_options_default"

text \<open>The server resumes where the options say, else where the request says, whatever the query holds.\<close>

lemma attach_request_resumes:
  assumes "ap_from_offset params = ja_from_offset request"
  shows "resume_offset params (ah_last_event_id (attach_request request options)) =
      (case ao_last_event_id options of Some n \<Rightarrow> n | None \<Rightarrow> ja_from_offset request)"
    and "Option.bind (map_of (ah_query (attach_request request options)) ''from_offset'') parse_u64 =
      Some (ja_from_offset request)"
  using assms by (auto simp: resume_offset_def attach_request_def split: option.split)

section \<open>Pushing in pieces\<close>

lemma decode_sse_event_frames:
  "decode_sse_event cw event frames = rbind (decode_sse_event cw event []) (\<lambda>fs. Inr (frames @ fs))"
  by (cases "fold event_line (split_on LF event) ([], False)")
    (auto simp: decode_sse_event_def rbind_def map_err_def split: sum.split)

text \<open>One line of the loop, complete in front of what follows.\<close>

definition push_line ::
    "'j client_wire \<Rightarrow> byte list \<Rightarrow> byte list \<Rightarrow> ('j, byte list \<times> log_event_frame list) client_result" where
  "push_line cw line current =
     (if strip_cr line \<noteq> [] then Inr (current @ strip_cr line @ [LF], [])
      else if current = [] then Inr ([], [])
      else rbind (decode_sse_event cw current []) (\<lambda>fs. Inr ([], fs)))"

lemma push_loop_none: "LF \<notin> set (dc_pending d) \<Longrightarrow> push_loop cw d frames = (d, Inr frames)"
  by (subst push_loop.simps) simp

lemma push_loop_line:
  assumes "LF \<notin> set line"
  shows "push_loop cw \<lparr>dc_pending = line @ LF # rest, dc_current = cur\<rparr> frames =
    (case push_line cw line cur of
       Inl e \<Rightarrow> (\<lparr>dc_pending = rest, dc_current = cur\<rparr>, Inl e)
     | Inr (cur', fs) \<Rightarrow> push_loop cw \<lparr>dc_pending = rest, dc_current = cur'\<rparr> (frames @ fs))"
proof -
  have "takeWhile (\<lambda>byte. byte \<noteq> LF) (line @ LF # rest) = line"
      "dropWhile (\<lambda>byte. byte \<noteq> LF) (line @ LF # rest) = LF # rest"
    using assms by (auto simp: takeWhile_append dropWhile_append)
  then show ?thesis
    by (subst push_loop.simps)
      (auto simp: push_line_def Let_def decode_sse_event_frames [of cw cur frames] rbind_def split: sum.split)
qed

lemma complete_line:
  assumes "LF \<in> set p"
  obtains line rest where "p = line @ LF # rest" and "LF \<notin> set line"
  using split_list_first [OF assms] by blast

text \<open>The frames already found are kept in front, and more input can come later.\<close>

lemma push_loop_frames:
  "push_loop cw \<lparr>dc_pending = p, dc_current = cur\<rparr> frames =
     (case push_loop cw \<lparr>dc_pending = p, dc_current = cur\<rparr> [] of
        (d, r) \<Rightarrow> (d, rbind r (\<lambda>fs. Inr (frames @ fs))))"
proof (induction "length p" arbitrary: p cur frames rule: less_induct)
  case less
  show ?case
  proof (cases "LF \<in> set p")
    case True
    then obtain line rest where p: "p = line @ LF # rest" "LF \<notin> set line" by (rule complete_line)
    have IH: "push_loop cw \<lparr>dc_pending = rest, dc_current = c\<rparr> fs =
        (case push_loop cw \<lparr>dc_pending = rest, dc_current = c\<rparr> [] of (d, r) \<Rightarrow> (d, rbind r (\<lambda>gs. Inr (fs @ gs))))" for c fs
      using less [of rest c fs] p(1) by simp
    have *: "push_loop cw \<lparr>dc_pending = p, dc_current = cur\<rparr> frames =
        (case push_line cw line cur of
           Inl e \<Rightarrow> (\<lparr>dc_pending = rest, dc_current = cur\<rparr>, Inl e)
         | Inr (cur', fs) \<Rightarrow> (case push_loop cw \<lparr>dc_pending = rest, dc_current = cur'\<rparr> [] of
             (d, r) \<Rightarrow> (d, rbind r (\<lambda>gs. Inr ((frames @ fs) @ gs)))))" for frames
      unfolding p(1) push_loop_line [OF p(2)] by (subst IH) (rule refl)
    show ?thesis
      unfolding * [of frames] * [of "[]"] by (auto simp: rbind_def split: sum.split prod.split)
  qed (simp add: push_loop_none)
qed

lemma push_loop_append:
  "push_loop cw \<lparr>dc_pending = p @ b, dc_current = cur\<rparr> frames =
     (case push_loop cw \<lparr>dc_pending = p, dc_current = cur\<rparr> frames of
        (d, Inl e) \<Rightarrow> (d\<lparr>dc_pending := dc_pending d @ b\<rparr>, Inl e)
      | (d, Inr fs) \<Rightarrow> push_loop cw (d\<lparr>dc_pending := dc_pending d @ b\<rparr>) fs)"
proof (induction "length p" arbitrary: p cur frames rule: less_induct)
  case less
  show ?case
  proof (cases "LF \<in> set p")
    case True
    then obtain line rest where p: "p = line @ LF # rest" "LF \<notin> set line" by (rule complete_line)
    have IH: "push_loop cw \<lparr>dc_pending = rest @ b, dc_current = c\<rparr> fs =
        (case push_loop cw \<lparr>dc_pending = rest, dc_current = c\<rparr> fs of
           (d, Inl e) \<Rightarrow> (d\<lparr>dc_pending := dc_pending d @ b\<rparr>, Inl e)
         | (d, Inr gs) \<Rightarrow> push_loop cw (d\<lparr>dc_pending := dc_pending d @ b\<rparr>) gs)" for c fs
      using less [of rest c fs] p(1) by simp
    have "p @ b = line @ LF # (rest @ b)" using p(1) by simp
    then show ?thesis
      unfolding p(1) push_loop_line [OF p(2)]
      by (simp only: append.assoc append.simps push_loop_line [OF p(2)] IH) (simp split: sum.split prod.split)
  qed (simp add: push_loop_none)
qed

lemma sse_push_append:
  "sse_push cw d (a @ b) =
     (case sse_push cw d a of
        (d', Inl e) \<Rightarrow> (d'\<lparr>dc_pending := dc_pending d' @ b\<rparr>, Inl e)
      | (d', Inr fs) \<Rightarrow> (case sse_push cw d' b of (d'', r) \<Rightarrow> (d'', rbind r (\<lambda>gs. Inr (fs @ gs)))))"
proof -
  obtain p cur where d: "d = \<lparr>dc_pending = p, dc_current = cur\<rparr>" by (cases d) auto
  show ?thesis
  proof (cases "push_loop cw \<lparr>dc_pending = p @ a, dc_current = cur\<rparr> []")
    case (Pair d' r)
    obtain p' cur' where d': "d' = \<lparr>dc_pending = p', dc_current = cur'\<rparr>" by (cases d') auto
    show ?thesis
      using push_loop_append [of cw "p @ a" b cur "[]"] Pair
        push_loop_frames [of cw "p' @ b" cur' "case r of Inr fs \<Rightarrow> fs | Inl _ \<Rightarrow> []"]
      by (cases r) (simp_all add: sse_push_def d d' split: prod.split)
  qed
qed

section \<open>Reading a stream to its end\<close>

text \<open>
  A caller that asks for frames until \<open>Ok(None)\<close> or an error, with the error it got, if any;
  \<open>None\<close> when its calls ran out.
\<close>

fun collect_frames ::
    "nat \<Rightarrow> 'j client_wire \<Rightarrow> attached_job \<Rightarrow> (log_event_frame list \<times> 'j client_error option) option" where
  "collect_frames 0 cw job = None"
| "collect_frames (Suc n) cw job =
     (case next_frame cw job of
        (job, Inr None) \<Rightarrow> Some ([], None)
      | (job, Inr (Some frame)) \<Rightarrow> map_option (apfst (Cons frame)) (collect_frames n cw job)
      | (job, Inl e) \<Rightarrow> Some ([], Some e))"

text \<open>What it receives: the frames of every chunk up to the first error.\<close>

fun chunk_run ::
    "'j client_wire \<Rightarrow> sse_decoder \<Rightarrow> (string, byte list) result list \<Rightarrow> log_event_frame list \<times> 'j client_error option" where
  "chunk_run cw d [] = (case sse_finish cw d of Inl e \<Rightarrow> ([], Some e) | Inr fs \<Rightarrow> (fs, None))"
| "chunk_run cw d (Inl e # chunks) = ([], Some (HttpError e))"
| "chunk_run cw d (Inr chunk # chunks) =
     (case sse_push cw d chunk of
        (d, Inl e) \<Rightarrow> ([], Some e)
      | (d, Inr fs) \<Rightarrow> apfst ((@) fs) (chunk_run cw d chunks))"

lemma next_chunks_run:
  assumes "next_chunks cw d chunks = (job, r)"
  shows "(case r of
      Inl e \<Rightarrow> chunk_run cw d chunks = ([], Some e)
    | Inr None \<Rightarrow> chunk_run cw d chunks = ([], None)
    | Inr (Some f) \<Rightarrow> (\<exists>fs e. chunk_run cw (aj_decoder job) (aj_chunks job) = (fs, e) \<and>
        chunk_run cw d chunks = (f # aj_pending job @ fs, e)))"
  using assms
proof (induction cw d chunks rule: next_chunks.induct)
  case (1 cw d)
  have e: "sse_finish cw decoder_default = Inr []" by (simp add: sse_finish_def decoder_default_def)
  show ?case using 1 by (auto simp: Let_def e split: sum.splits list.splits)
next
  case (3 cw d chunk chunks)
  then show ?case
    by (auto simp: apfst_def map_prod_def split: sum.splits list.splits prod.splits option.splits)
qed auto

lemma collect_frames_run:
  assumes "chunk_run cw (aj_decoder job) (aj_chunks job) = (fs, e)" and "length (aj_pending job @ fs) < n"
  shows "collect_frames n cw job = Some (aj_pending job @ fs, e)"
  using assms
proof (induction n arbitrary: job fs)
  case (Suc n)
  show ?case
  proof (cases "aj_pending job")
    case (Cons f rest)
    then show ?thesis
      using Suc.IH [of "job\<lparr>aj_pending := rest\<rparr>" fs] Suc.prems by (simp add: next_frame_def)
  next
    case Nil
    obtain job' r where nc: "next_chunks cw (aj_decoder job) (aj_chunks job) = (job', r)" by fastforce
    from next_chunks_run [OF nc] show ?thesis
      using Nil nc Suc.prems Suc.IH [of job']
      by (auto simp: next_frame_def split: sum.splits option.splits)
  qed
qed simp

lemma push_loop_rest:
  "push_loop cw \<lparr>dc_pending = p, dc_current = cur\<rparr> frames = (d, Inr fs) \<Longrightarrow> LF \<notin> set (dc_pending d)"
proof (induction "length p" arbitrary: p cur frames rule: less_induct)
  case less
  show ?case
  proof (cases "LF \<in> set p")
    case True
    then obtain line rest where p: "p = line @ LF # rest" "LF \<notin> set line" by (rule complete_line)
    then show ?thesis
      using less(1) [of rest] less(2) by (auto simp: push_loop_line split: sum.splits prod.splits)
  qed (use less(2) in \<open>auto simp: push_loop_none\<close>)
qed

lemma chunk_run_concat:
  assumes "LF \<notin> set (dc_pending d)"
  shows "(case sse_push cw d (concat chunks) of
     (d', Inr fs) \<Rightarrow> chunk_run cw d (map Inr chunks) = apfst ((@) fs) (chunk_run cw d' [])
   | (d', Inl e) \<Rightarrow> snd (chunk_run cw d (map Inr chunks)) = Some e)"
  using assms
proof (induction chunks arbitrary: d)
  case Nil
  then show ?case by (auto simp: sse_push_def push_loop_none split: sum.splits)
next
  case (Cons c chunks)
  obtain d1 r where push: "sse_push cw d c = (d1, r)" by fastforce
  show ?case
  proof (cases r)
    case (Inl e)
    then show ?thesis using push by (simp add: sse_push_append)
  next
    case (Inr fs)
    have "LF \<notin> set (dc_pending d1)"
      using push Inr by (cases d) (auto simp: sse_push_def dest: push_loop_rest)
    note IH = Cons.IH [OF this]
    obtain d2 r2 where rest: "sse_push cw d1 (concat chunks) = (d2, r2)" by fastforce
    have all: "sse_push cw d (concat (c # chunks)) = (d2, rbind r2 (\<lambda>gs. Inr (fs @ gs)))"
      using push Inr rest by (simp add: sse_push_append)
    have run: "chunk_run cw d (map Inr (c # chunks)) = apfst ((@) fs) (chunk_run cw d1 (map Inr chunks))"
      using push Inr by simp
    show ?thesis
      using IH unfolding all run rest
      by (cases r2; cases "chunk_run cw d2 []") (simp_all del: chunk_run.simps)
  qed
qed

lemma chunk_run_parse:
  "(case parse_sse_frames cw (concat chunks) of
      Inr fs \<Rightarrow> chunk_run cw decoder_default (map Inr chunks) = (fs, None)
    | Inl e \<Rightarrow> snd (chunk_run cw decoder_default (map Inr chunks)) = Some e)"
proof -
  obtain d r where push: "sse_push cw decoder_default (concat chunks) = (d, r)" by fastforce
  have "LF \<notin> set (dc_pending decoder_default)" by (simp add: decoder_default_def)
  from chunk_run_concat [OF this, of cw chunks] show ?thesis
    using push by (cases r; cases "sse_finish cw d") (simp_all add: parse_sse_frames_def)
qed

text \<open>C27: The chunks a response arrives in do not matter: whatever they are, a caller that reads the
  stream to its end receives the frames \<open>attach_job\<close> finds in the whole body and then \<open>None\<close>;
  and when the whole body does not decode, the caller's reads end with the same error.\<close>

theorem sse_chunks_irrelevant:
  "\<exists>frames. (\<forall>n > length frames. collect_frames n cw
      \<lparr>aj_chunks = map Inr chunks, aj_decoder = decoder_default, aj_pending = []\<rparr> =
        Some (frames, case parse_sse_frames cw (concat chunks) of Inr _ \<Rightarrow> None | Inl e \<Rightarrow> Some e)) \<and>
    (\<forall>fs. parse_sse_frames cw (concat chunks) = Inr fs \<longrightarrow> frames = fs)"
proof -
  let ?run = "chunk_run cw decoder_default (map Inr chunks)"
    and ?job = "\<lparr>aj_chunks = map Inr chunks, aj_decoder = decoder_default, aj_pending = []\<rparr>"
  have "collect_frames n cw ?job = Some ?run" if "length (fst ?run) < n" for n
    using collect_frames_run [of cw ?job "fst ?run" "snd ?run" n] that by simp
  moreover have "snd ?run = (case parse_sse_frames cw (concat chunks) of Inr _ \<Rightarrow> None | Inl e \<Rightarrow> Some e)"
      "parse_sse_frames cw (concat chunks) = Inr fs \<Longrightarrow> fst ?run = fs" for fs
    using chunk_run_parse [of cw chunks] by (auto split: sum.splits)
  ultimately show ?thesis by (intro exI [of _ "fst ?run"]) (auto simp: prod_eq_iff)
qed

text \<open>A wire that decodes every event to the same frame, for the witnesses.\<close>

definition wit_frame :: log_event_frame where
  "wit_frame = \<lparr>lf_job_id = JobId ''j_1'', lf_seq = 0, lf_stream = ProtoStdout, lf_data = [104, 105], lf_ts_millis = 5\<rparr>"

definition wit_client_wire :: "unit client_wire" where
  "wit_client_wire = \<lparr>cw_value = (\<lambda>_. Inr ()), cw_raw = (\<lambda>_. Inl ''e''),
     cw_frame = (\<lambda>data. if data = [123] then Inr wit_frame else Inl ''bad frame''), cw_http_error = (\<lambda>_. Inl ''e''),
     cw_one = (), cw_show = (\<lambda>_. ''1'')\<rparr>"

lemma wit_parse: "parse_sse_frames wit_client_wire (concat [[100, 97, 116], [97, 58, 123, 13], [10, 10]]) = Inr [wit_frame]"
  by code_simp

lemma sse_chunks_irrelevant_witness:
  "collect_frames 2 wit_client_wire \<lparr>aj_chunks = map Inr [[100, 97, 116], [97, 58, 123, 13], [10, 10]],
     aj_decoder = decoder_default, aj_pending = []\<rparr> = Some ([wit_frame], None)"
  using sse_chunks_irrelevant [of wit_client_wire "[[100, 97, 116], [97, 58, 123, 13], [10, 10]]"] wit_parse by auto

text \<open>
  Where the body does not decode, the chunks decide what is delivered before the error: a good
  event followed by a bad one in the same chunk is lost, in a chunk of its own it is delivered.
\<close>

lemma sse_error_drops_frames:
  "let good = [100, 97, 116, 97, 58, 123, 10, 10]; bad = [100, 97, 116, 97, 58, 10, 10];
       read = \<lambda>chunks. collect_frames 3 wit_client_wire
         \<lparr>aj_chunks = map Inr chunks, aj_decoder = decoder_default, aj_pending = []\<rparr> in
   read [good @ bad] = Some ([], Some (JsonError ''bad frame'')) \<and>
   read [good, bad] = Some ([wit_frame], Some (JsonError ''bad frame''))"
  by code_simp

section \<open>Server and client\<close>

text \<open>
  The text of an event as the server's HTTP library writes it, with or without a space after the
  colon (\<open>sep\<close>); \<open>None\<close> is a keep-alive comment.
\<close>

definition utf8 :: "string \<Rightarrow> byte list" where
  "utf8 s = map char_byte s"

definition sse_block :: "byte list \<Rightarrow> sse_event option \<Rightarrow> byte list" where
  "sse_block sep b =
     (case b of
        None \<Rightarrow> [58, LF, LF]
      | Some ev \<Rightarrow> [105, 100, 58] @ sep @ utf8 (sv_id ev) @ LF # data_prefix @ sep @ utf8 (sv_data ev) @ [LF, LF])"

definition plain :: "byte list \<Rightarrow> bool" where
  "plain bs \<longleftrightarrow> LF \<notin> set bs \<and> CR \<notin> set bs"

lemma plain_simps [simp]:
  "plain []" "plain (xs @ ys) \<longleftrightarrow> plain xs \<and> plain ys" "plain (x # xs) \<longleftrightarrow> x \<noteq> LF \<and> x \<noteq> CR \<and> plain xs"
  by (auto simp: plain_def)

lemma plain_data_prefix [simp]: "plain data_prefix"
  by (simp add: data_prefix_def)

lemma plain_strip_cr: "plain line \<Longrightarrow> strip_cr line = line"
  by (auto simp: plain_def strip_cr_def ends_with_iff)

lemma plain_digits: "plain (utf8 (dec_digits n))"
proof -
  have "char_byte c \<noteq> LF \<and> char_byte c \<noteq> CR" if "is_digit c" for c
  proof -
    have "LF = char_byte (CHR 10)" "CR = char_byte (CHR 13)" by (simp_all add: char_byte_def)
    moreover have "c \<noteq> CHR 10" "c \<noteq> CHR 13" using that by (auto simp: is_digit_def)
    ultimately show ?thesis by (metis char_byte_inj)
  qed
  then have "\<forall>c \<in> set (dec_digits n). char_byte c \<noteq> LF \<and> char_byte c \<noteq> CR"
    using dec_digits_digits [of n] by (auto simp: list_all_iff)
  then show ?thesis by (auto simp: plain_def utf8_def)
qed

lemma push_loop_plain:
  assumes "plain line" and "line \<noteq> []"
  shows "push_loop cw \<lparr>dc_pending = line @ LF # rest, dc_current = cur\<rparr> frames =
    push_loop cw \<lparr>dc_pending = rest, dc_current = cur @ line @ [LF]\<rparr> frames"
  using assms by (simp add: push_loop_line push_line_def plain_strip_cr plain_def)

lemma push_loop_blank:
  "cur \<noteq> [] \<Longrightarrow> decode_sse_event cw cur [] = Inr fs \<Longrightarrow>
     push_loop cw \<lparr>dc_pending = LF # rest, dc_current = cur\<rparr> frames =
       push_loop cw \<lparr>dc_pending = rest, dc_current = []\<rparr> (frames @ fs)"
  using push_loop_line [of "[]" cw rest cur frames]
  by (simp add: push_line_def strip_cr_def ends_with_def)

lemma event_line_data: "plain bs \<Longrightarrow> event_line (data_prefix @ bs) ([], False) = (bs, True)"
  by (simp add: event_line_def plain_strip_cr)

lemma event_line_other:
  "plain line \<Longrightarrow> \<not> starts_with line data_prefix \<Longrightarrow> event_line line acc = acc"
  by (cases acc) (simp add: event_line_def plain_strip_cr starts_with_iff_strip)

lemma decode_two_lines:
  assumes "plain line" and "\<not> starts_with line data_prefix" and "plain bs"
  shows "decode_sse_event cw (line @ LF # (data_prefix @ bs) @ [LF]) [] =
    rbind (map_err JsonError (cw_frame cw bs)) (\<lambda>frame. Inr [frame])"
proof -
  have "\<not> starts_with [] data_prefix" by (simp add: data_prefix_def)
  then have blank: "event_line [] acc = acc" for acc by (simp add: event_line_other)
  have "split_on LF (line @ LF # (data_prefix @ bs) @ [LF]) = [line, data_prefix @ bs, []]"
    using assms(1,3) plain_data_prefix by (simp only: split_on_join) (simp add: split_on_no_sep plain_def)
  then show ?thesis
    using assms blank by (simp add: decode_sse_event_def event_line_other event_line_data del: append.simps) (simp add: rbind_def)
qed

lemma push_loop_block:
  assumes "plain sep" and "\<And>ev. b = Some ev \<Longrightarrow> plain (utf8 (sv_id ev)) \<and> plain (utf8 (sv_data ev)) \<and>
      cw_frame cw (sep @ utf8 (sv_data ev)) = Inr f"
  shows "push_loop cw \<lparr>dc_pending = sse_block sep b @ rest, dc_current = []\<rparr> frames =
    push_loop cw \<lparr>dc_pending = rest, dc_current = []\<rparr> (frames @ (case b of None \<Rightarrow> [] | Some _ \<Rightarrow> [f]))"
proof (cases b)
  case None
  have "decode_sse_event cw [58, LF] [] = Inr []"
    by (simp add: decode_sse_event_def event_line_other starts_with_def data_prefix_def)
  then show ?thesis
    using push_loop_plain [of "[58]" cw "LF # rest" "[]" frames] None
    by (simp add: sse_block_def push_loop_blank)
next
  case (Some ev)
  let ?id = "[105, 100, 58] @ sep @ utf8 (sv_id ev)" and ?data = "data_prefix @ sep @ utf8 (sv_data ev)"
  have p: "plain (utf8 (sv_id ev))" "plain (utf8 (sv_data ev))" "cw_frame cw (sep @ utf8 (sv_data ev)) = Inr f"
    using assms(2) [OF Some] by simp_all
  then have ids: "plain ?id" "plain ?data" "\<not> starts_with ?id data_prefix"
    using assms(1) by (simp_all add: starts_with_def data_prefix_def)
  have "plain (sep @ utf8 (sv_data ev))" using assms(1) p by simp
  from decode_two_lines [OF ids(1,3) this, of cw] have "decode_sse_event cw (?id @ LF # ?data @ [LF]) [] = Inr [f]"
    using p by (simp del: append.simps)
  then have blank: "push_loop cw \<lparr>dc_pending = LF # rest, dc_current = ?id @ LF # ?data @ [LF]\<rparr> frames =
      push_loop cw \<lparr>dc_pending = rest, dc_current = []\<rparr> (frames @ [f])"
    by (intro push_loop_blank) simp_all
  have "sse_block sep b @ rest = ?id @ LF # ?data @ LF # LF # rest" by (simp add: Some sse_block_def)
  then have "push_loop cw \<lparr>dc_pending = sse_block sep b @ rest, dc_current = []\<rparr> frames =
      push_loop cw \<lparr>dc_pending = LF # rest, dc_current = ?id @ LF # ?data @ [LF]\<rparr> frames"
    using push_loop_plain [OF ids(1), of cw "?data @ LF # LF # rest" "[]" frames]
      push_loop_plain [OF ids(2), of cw "LF # rest" "?id @ [LF]" frames] by (simp add: data_prefix_def)
  then show ?thesis using blank Some by simp
qed

text \<open>The events a body carries: each frame's event, and comments anywhere in between.\<close>

definition body_of :: "byte list \<Rightarrow> sse_event option list \<Rightarrow> byte list" where
  "body_of sep blocks = concat (map (sse_block sep) blocks)"

lemma push_loop_body:
  assumes "plain sep" and "[ev. Some ev \<leftarrow> blocks] = sse_events to_json frames"
    and "\<forall>frame \<in> set frames. \<exists>data. to_json frame = Inr data \<and> plain (utf8 data) \<and>
      cw_frame cw (sep @ utf8 data) = Inr frame"
  shows "push_loop cw \<lparr>dc_pending = body_of sep blocks, dc_current = []\<rparr> fs = (decoder_default, Inr (fs @ frames))"
  using assms(2,3)
proof (induction blocks arbitrary: frames fs)
  case Nil
  then have "frames = []" by (cases frames) (auto split: sum.splits)
  then show ?case by (simp add: body_of_def push_loop_none decoder_default_def)
next
  case (Cons b blocks)
  show ?case
  proof (cases b)
    case None
    have "push_loop cw \<lparr>dc_pending = sse_block sep b @ body_of sep blocks, dc_current = []\<rparr> fs =
        push_loop cw \<lparr>dc_pending = body_of sep blocks, dc_current = []\<rparr> (fs @ (case b of None \<Rightarrow> [] | Some _ \<Rightarrow> [undefined]))"
      by (rule push_loop_block [OF assms(1)]) (simp add: None)
    then show ?thesis using Cons None by (simp add: body_of_def)
  next
    case (Some ev)
    then obtain frame rest where fr: "frames = frame # rest"
      using Cons.prems(1) by (cases frames) auto
    obtain data where data: "to_json frame = Inr data" "plain (utf8 data)" "cw_frame cw (sep @ utf8 data) = Inr frame"
      using Cons.prems(2) fr by auto
    have ev: "ev = \<lparr>sv_id = dec_digits (unat (lf_seq frame)), sv_data = data\<rparr>"
        and "[ev. Some ev \<leftarrow> blocks] = sse_events to_json rest"
      using Cons.prems(1) Some fr data(1) by simp_all
    then have IH: "push_loop cw \<lparr>dc_pending = body_of sep blocks, dc_current = []\<rparr> (fs @ [frame]) =
        (decoder_default, Inr ((fs @ [frame]) @ rest))"
      using Cons.IH [of rest "fs @ [frame]"] Cons.prems(2) fr by simp
    have "push_loop cw \<lparr>dc_pending = sse_block sep b @ body_of sep blocks, dc_current = []\<rparr> fs =
        push_loop cw \<lparr>dc_pending = body_of sep blocks, dc_current = []\<rparr> (fs @ (case b of None \<Rightarrow> [] | Some _ \<Rightarrow> [frame]))"
      using assms(1) by (rule push_loop_block) (use Some data ev in \<open>simp add: plain_digits\<close>)
    then show ?thesis using IH Some fr by (simp add: body_of_def)
  qed
qed

text \<open>A body whose events are the server's, read by the client.\<close>

lemma sse_frames_received:
  assumes "sep = [] \<or> sep = [32]" and "[ev. Some ev \<leftarrow> blocks] = sse_events to_json frames"
    and "\<forall>frame \<in> set frames. \<exists>data. to_json frame = Inr data \<and> plain (utf8 data) \<and>
      cw_frame cw (sep @ utf8 data) = Inr frame"
    and "concat chunks = body_of sep blocks" and "length frames < n"
  shows "collect_frames n cw \<lparr>aj_chunks = map Inr chunks, aj_decoder = decoder_default, aj_pending = []\<rparr> =
    Some (frames, None)"
proof -
  have "plain sep" using assms(1) by auto
  from push_loop_body [OF this assms(2,3), of "[]"] have "parse_sse_frames cw (concat chunks) = Inr frames"
    unfolding parse_sse_frames_def sse_push_def assms(4) by (simp add: decoder_default_def sse_finish_def)
  then have "chunk_run cw decoder_default (map Inr chunks) = (frames, None)"
    using chunk_run_parse [of cw chunks] by simp
  then show ?thesis using collect_frames_run [of cw _ frames None n] assms(5) by simp
qed

text \<open>C26: From the server's frames to the client's: the client that reads the body of an event stream
  receives exactly the frames whose events the server wrote, in order, and then the end of the
  stream, however the body was cut into chunks and wherever keep-alive comments stand in it. (The JSON text of a frame has no raw line breaks and decodes to the frame, after the
  optional space too.)\<close>

theorem sse_roundtrip:
  assumes "sep = [] \<or> sep = [32]" and "[ev. Some ev \<leftarrow> blocks] = sse_events to_json frames"
    and "\<forall>frame \<in> set frames. \<exists>data. to_json frame = Inr data \<and> plain (utf8 data) \<and>
      cw_frame cw (sep @ utf8 data) = Inr frame"
    and "concat chunks = body_of sep blocks" and "length frames < n"
  shows "collect_frames n cw \<lparr>aj_chunks = map Inr chunks, aj_decoder = decoder_default, aj_pending = []\<rparr> =
    Some (frames, None)"
  using assms by (rule sse_frames_received)

lemma sse_roundtrip_witness:
  "collect_frames 3 wit_client_wire \<lparr>aj_chunks = map Inr [body_of [] [Some \<lparr>sv_id = ''0'', sv_data = [CHR 123]\<rparr>], body_of [] [None]],
     aj_decoder = decoder_default, aj_pending = []\<rparr> = Some ([wit_frame], None)"
proof (rule sse_roundtrip [where sep = "[]" and blocks = "[Some \<lparr>sv_id = ''0'', sv_data = [CHR 123]\<rparr>, None]"
      and to_json = "\<lambda>_. Inr [CHR 123]"])
  show "[ev. Some ev \<leftarrow> [Some \<lparr>sv_id = ''0'', sv_data = [CHR 123]\<rparr>, None]] = sse_events (\<lambda>_. Inr [CHR 123]) [wit_frame]"
    by code_simp
  show "\<forall>frame \<in> set [wit_frame]. \<exists>data. Inr [CHR 123] = (Inr data :: (string, string) result) \<and> plain (utf8 data) \<and>
      cw_frame wit_client_wire ([] @ utf8 data) = Inr frame"
    by (simp add: utf8_def char_byte_def wit_client_wire_def)
qed (simp_all add: body_of_def)

section \<open>Calls\<close>

text \<open>What \<open>serde\<close> makes of a response: the envelope the client decodes again.\<close>

definition envelope :: "'j jsonrpc_response \<Rightarrow> 'j raw_response" where
  "envelope resp = \<lparr>rw_jsonrpc = rs_jsonrpc resp, rw_id = rs_id resp,
     rw_result = (case rs_body resp of RpcSuccess v \<Rightarrow> Some v | RpcFailure _ \<Rightarrow> None),
     rw_error = (case rs_body resp of RpcSuccess _ \<Rightarrow> None
       | RpcFailure e \<Rightarrow> Some \<lparr>re_code = er_code e, re_message = er_message e, re_data = er_data e\<rparr>)\<rparr>"

text \<open>C28: A call over the wire: when the server answers a request of the client and the reply's JSON
  decodes to its envelope (results are objects, never null), the client's \<open>call\<close> returns the
  decoded result of a successful method and the code, message and data of a failed one, for every
  method and every state; the envelope checks of the client never reject a reply of the server.\<close>

theorem client_server_call:
  assumes "reply = snd (dispatch wi env st
      \<lparr>rq_jsonrpc = ''2.0'', rq_id = Some (cw_one cw), rq_method = m, rq_params = params\<rparr>)"
    and "send \<lparr>cq_jsonrpc = ''2.0'', cq_id = 1, cq_method = m, cq_params = params\<rparr> = Inr \<lparr>ht_status = 200, ht_body = body\<rparr>"
    and "cw_value cw body = Inr v" and "cw_raw cw v = Inr (envelope reply)"
  shows "rpc_call cw send decode m params =
    (case call_method wi env st m params of
       Some (_, Inr x) \<Rightarrow> map_err JsonError (decode x)
     | Some (_, Inl te) \<Rightarrow> Inl (Rpc (error_code te) (transport_error_display (wi_debug wi) te) None)
     | None \<Rightarrow> (if m = ''job.attach'' then Inl (Rpc INVALID_REQUEST attach_hint None)
         else Inl (Rpc METHOD_NOT_FOUND (''method not found: '' @ m) None)))"
proof -
  have id: "rs_jsonrpc reply = ''2.0''" "rs_id reply = cw_one cw"
    by (auto simp: assms(1) dispatch_def response_success_def response_error_def Let_def
        split: option.split prod.split sum.split)
  have "rpc_call cw send decode m params = rbind (decode_rpc_value cw decode v) (decode_rpc_response cw)"
    using assms(2,3) by (simp add: rpc_call_def is_success_def)
  also have "\<dots> = (case rs_body reply of RpcSuccess x \<Rightarrow> map_err JsonError (decode x)
      | RpcFailure e \<Rightarrow> Inl (Rpc (er_code e) (er_message e) (er_data e)))"
    using assms(4) id
    by (cases "rs_body reply")
      (auto simp: decode_rpc_value_def decode_rpc_response_def envelope_def from_rpc_error_def rbind_def map_err_def split: sum.split)
  also have "\<dots> = (case call_method wi env st m params of
       Some (_, Inr x) \<Rightarrow> map_err JsonError (decode x)
     | Some (_, Inl te) \<Rightarrow> Inl (Rpc (error_code te) (transport_error_display (wi_debug wi) te) None)
     | None \<Rightarrow> (if m = ''job.attach'' then Inl (Rpc INVALID_REQUEST attach_hint None)
         else Inl (Rpc METHOD_NOT_FOUND (''method not found: '' @ m) None)))"
    by (auto simp: assms(1) dispatch_def response_success_def response_error_def to_jsonrpc_error_def Let_def
        split: option.split prod.split sum.split)
  finally show ?thesis .
qed

lemma client_server_call_witness:
  "rpc_call (wit_client_wire\<lparr>cw_raw := \<lambda>_. Inr (envelope (snd (dispatch wit_wire wit_server_env (with_registry registry_new)
       \<lparr>rq_jsonrpc = ''2.0'', rq_id = Some (), rq_method = ''job.attach'', rq_params = ()\<rparr>)))\<rparr>)
     (\<lambda>_. Inr \<lparr>ht_status = 200, ht_body = []\<rparr>) Inr ''job.attach'' () = Inl (Rpc INVALID_REQUEST attach_hint None)"
proof -
  let ?reply = "snd (dispatch wit_wire wit_server_env (with_registry registry_new)
       \<lparr>rq_jsonrpc = ''2.0'', rq_id = Some (), rq_method = ''job.attach'', rq_params = ()\<rparr>)"
  let ?cw = "wit_client_wire\<lparr>cw_raw := \<lambda>_. Inr (envelope ?reply)\<rparr>"
  have "rpc_call ?cw (\<lambda>_. Inr \<lparr>ht_status = 200, ht_body = []\<rparr>) Inr ''job.attach'' () =
    (case call_method wit_wire wit_server_env (with_registry registry_new) ''job.attach'' () of
       Some (_, Inr x) \<Rightarrow> map_err JsonError (Inr x)
     | Some (_, Inl te) \<Rightarrow> Inl (Rpc (error_code te) (transport_error_display (wi_debug wit_wire) te) None)
     | None \<Rightarrow> (if ''job.attach'' = ''job.attach'' then Inl (Rpc INVALID_REQUEST attach_hint None)
         else Inl (Rpc METHOD_NOT_FOUND (''method not found: '' @ ''job.attach'') None)))"
    by (rule client_server_call [where body = "[]" and v = "()" and reply = ?reply]) (simp_all add: wit_client_wire_def)
  then show ?thesis by (simp add: call_method_def)
qed

end
