(* ===== verification/Cli.thy ===== *)
theory Cli
  imports Client
begin

text \<open>
  \<open>crates/axp-cli\<close>: the \<open>serve\<close> command with its MCP mount (\<open>lib.rs\<close>, \<open>mcp_config.rs\<close>).
  An \<open>io::Error\<close> is its kind and message; the file and its JSON are arguments.
\<close>

section \<open>The mount\<close>

datatype io_error = InvalidInput string | InvalidData string | OtherError string

record bridge_config =
  bg_program :: string
  bg_args :: "string list"

record 'j tool_config =
  tc_name :: string
  tc_desc :: string
  tc_schema :: 'j

record 'j mcp_config_file =
  mf_provider :: string
  mf_bridge :: bridge_config
  mf_tools :: "'j tool_config list"

record 'j mcp_config_mount =
  mm_provider_id :: string
  mm_bridge_program :: string
  mm_bridge_args :: "string list"
  mm_tools :: "(string \<times> string \<times> 'j) list"

definition reject_empty :: "string \<Rightarrow> string \<Rightarrow> (io_error, unit) result" where
  "reject_empty field v =
     (if trim v = [] then Inl (InvalidInput (''MCP config '' @ field @ '' must not be empty'')) else Inr ())"

text \<open>The loop over the tools: their index and the first index of every name so far.\<close>

fun mount_tools ::
    "nat \<Rightarrow> (string \<rightharpoonup> nat) \<Rightarrow> (string \<times> string \<times> 'j) list \<Rightarrow> 'j tool_config list
      \<Rightarrow> (io_error, (string \<times> string \<times> 'j) list) result" where
  "mount_tools index tool_names tools [] = Inr tools"
| "mount_tools index tool_names tools (tool # rest) =
     (if trim (tc_name tool) = [] then
        Inl (InvalidInput (''MCP config tool['' @ dec_digits index @ ''].name must not be empty''))
      else if trim (tc_desc tool) = [] then
        Inl (InvalidInput (''MCP config tool['' @ dec_digits index @ ''].desc must not be empty''))
      else
        (case tool_names (tc_name tool) of
           Some first_index \<Rightarrow> Inl (InvalidInput (''MCP config tool['' @ dec_digits index @
             ''].name duplicates tool['' @ dec_digits first_index @ ''].name `'' @ tc_name tool @ ''`''))
         | None \<Rightarrow> mount_tools (Suc index) (tool_names(tc_name tool \<mapsto> index))
             (tools @ [(tc_name tool, tc_desc tool, tc_schema tool)]) rest))"

definition into_mount :: "'j mcp_config_file \<Rightarrow> (io_error, 'j mcp_config_mount) result" where
  "into_mount config =
     rbind (reject_empty ''provider'' (mf_provider config)) (\<lambda>_.
     rbind (reject_empty ''bridge.program'' (bg_program (mf_bridge config))) (\<lambda>_.
     if mf_tools config = [] then Inl (InvalidInput ''MCP config must define at least one tool'')
     else
       rbind (mount_tools 0 (\<lambda>_. None) [] (mf_tools config)) (\<lambda>tools.
       Inr \<lparr>mm_provider_id = mf_provider config, mm_bridge_program = bg_program (mf_bridge config),
         mm_bridge_args = bg_args (mf_bridge config), mm_tools = tools\<rparr>)))"

text \<open>\<open>open_file\<close> is \<open>File::open\<close>, \<open>from_reader\<close> is \<open>serde_json\<close>'s decoder of the file.\<close>

definition mcp_load ::
    "(string \<Rightarrow> (io_error, 'f) result) \<Rightarrow> ('f \<Rightarrow> (string, 'j mcp_config_file) result) \<Rightarrow> string
      \<Rightarrow> (io_error, 'j mcp_config_mount) result" where
  "mcp_load open_file from_reader path =
     rbind (open_file path) (\<lambda>file.
     rbind (map_err (\<lambda>err. InvalidData (''invalid MCP config JSON: '' @ err)) (from_reader file)) into_mount)"

record serve_args =
  sg_addr :: string
  sg_mcp_provider :: "string option"
  sg_mcp_tool :: "string option"
  sg_mcp_desc :: "string option"
  sg_mcp_bridge :: "string option"
  sg_mcp_config :: "string option"

record serve_mcp_tool =
  st_provider_id :: string
  st_tool_name :: string
  st_desc :: string
  st_bridge_program :: string

datatype 'j serve_mcp_mount = MountTool serve_mcp_tool | MountConfig "'j mcp_config_mount"

definition mcp_mount ::
    "(string \<Rightarrow> (io_error, 'j mcp_config_mount) result) \<Rightarrow> serve_args
      \<Rightarrow> (io_error, 'j serve_mcp_mount option) result" where
  "mcp_mount load args =
     (let has_static_flag = sg_mcp_provider args \<noteq> None \<or> sg_mcp_tool args \<noteq> None \<or>
            sg_mcp_desc args \<noteq> None \<or> sg_mcp_bridge args \<noteq> None in
      if sg_mcp_config args \<noteq> None \<and> has_static_flag then
        Inl (InvalidInput
          ''--mcp-config cannot be combined with --mcp-provider, --mcp-tool, --mcp-desc, or --mcp-bridge'')
      else
        (case sg_mcp_config args of
           Some path \<Rightarrow> rbind (load path) (\<lambda>mount. Inr (Some (MountConfig mount)))
         | None \<Rightarrow>
             (case (sg_mcp_provider args, sg_mcp_tool args, sg_mcp_desc args, sg_mcp_bridge args) of
                (None, None, None, None) \<Rightarrow> Inr None
              | (Some pid, Some tool, Some desc, Some bridge) \<Rightarrow>
                  Inr (Some (MountTool \<lparr>st_provider_id = pid, st_tool_name = tool, st_desc = desc,
                    st_bridge_program = bridge\<rparr>))
              | _ \<Rightarrow> Inl (InvalidInput
                  ''--mcp-provider, --mcp-tool, --mcp-desc, and --mcp-bridge must be supplied together''))))"

text \<open>The state \<open>serve\<close> starts with; \<open>dbg\<close> prints a core error.\<close>

definition serve_state ::
    "(core_error \<Rightarrow> string) \<Rightarrow> (string \<Rightarrow> string) \<Rightarrow> ('j \<Rightarrow> (string, string) result) \<Rightarrow> 'j provider_registry
      \<Rightarrow> 'j \<Rightarrow> (string \<Rightarrow> (io_error, 'j mcp_config_mount) result) \<Rightarrow> serve_args
      \<Rightarrow> (io_error, 'j app_state) result" where
  "serve_state show_error lower to_json builtins static_schema load args =
     rbind (mcp_mount load args) (\<lambda>mount.
     map_err (\<lambda>e. OtherError (show_error e))
       (case mount of
          Some (MountTool t) \<Rightarrow> with_mcp_tool lower to_json builtins static_schema (st_provider_id t)
            (st_tool_name t) (st_desc t) (st_bridge_program t)
        | Some (MountConfig m) \<Rightarrow> with_mcp_tools lower to_json builtins (mm_provider_id m)
            (mm_bridge_program m) (mm_bridge_args m) (mm_tools m)
        | None \<Rightarrow> Inr (with_registry builtins)))"

text \<open>
  \<open>serve\<close>: \<open>bind\<close> opens the listener and \<open>transport_serve\<close> runs the server until it ends. It prints
  one line once the listener is there. The address is parsed, and printed, as given.
\<close>

definition serve ::
    "(core_error \<Rightarrow> string) \<Rightarrow> (string \<Rightarrow> string) \<Rightarrow> ('j \<Rightarrow> (string, string) result) \<Rightarrow> 'j provider_registry
      \<Rightarrow> 'j \<Rightarrow> (string \<Rightarrow> (io_error, 'j mcp_config_mount) result) \<Rightarrow> (string \<Rightarrow> (io_error, 'l) result)
      \<Rightarrow> ('l \<Rightarrow> 'j app_state \<Rightarrow> (io_error, unit) result) \<Rightarrow> serve_args
      \<Rightarrow> string list \<times> (io_error, unit) result" where
  "serve show_error lower to_json builtins static_schema load bind transport_serve args =
     (case serve_state show_error lower to_json builtins static_schema load args of
        Inl e \<Rightarrow> ([], Inl e)
      | Inr state \<Rightarrow>
          (case bind (sg_addr args) of
             Inl e \<Rightarrow> ([], Inl e)
           | Inr listener \<Rightarrow>
               ([''AXP runtime listening on http://'' @ sg_addr args], transport_serve listener state)))"

section \<open>Accepted configurations\<close>

lemma mount_tools_Inr:
  assumes "mount_tools index names tools ts = Inr out" and "dom names = fst ` set tools" and "distinct (map fst tools)"
  shows "out = tools @ map (\<lambda>t. (tc_name t, tc_desc t, tc_schema t)) ts \<and> distinct (map fst out) \<and>
    (\<forall>t \<in> set ts. trim (tc_name t) \<noteq> [] \<and> trim (tc_desc t) \<noteq> [])"
  using assms
proof (induction ts arbitrary: index names tools)
  case (Cons t ts)
  have t: "names (tc_name t) = None" "trim (tc_name t) \<noteq> []" "trim (tc_desc t) \<noteq> []"
      "mount_tools (Suc index) (names(tc_name t \<mapsto> index)) (tools @ [(tc_name t, tc_desc t, tc_schema t)]) ts = Inr out"
    using Cons.prems(1) by (auto split: if_splits option.splits)
  then have "tc_name t \<notin> fst ` set tools" using Cons.prems(2) by (metis domIff)
  then have dist: "distinct (map fst (tools @ [(tc_name t, tc_desc t, tc_schema t)]))" using Cons.prems(3) by simp
  have "dom (names(tc_name t \<mapsto> index)) = fst ` set (tools @ [(tc_name t, tc_desc t, tc_schema t)])"
    using Cons.prems(2) by (simp only: dom_fun_upd) simp
  note ih = Cons.IH [OF t(4) this dist, unfolded append.assoc append.simps]
  show ?case
  proof (intro conjI)
    show "out = tools @ map (\<lambda>t. (tc_name t, tc_desc t, tc_schema t)) (t # ts)" using conjunct1 [OF ih] by simp
    show "distinct (map fst out)" using ih by blast
    show "\<forall>t \<in> set (t # ts). trim (tc_name t) \<noteq> [] \<and> trim (tc_desc t) \<noteq> []" using ih t(2,3) by simp
  qed
qed simp

lemma check_each_Inl: "check_each f xs = Inl e \<Longrightarrow> \<exists>x \<in> set xs. f x = Inl e"
  by (induction xs) (auto simp: rbind_Inl_iff split: sum.splits)

lemma mcp_listings:
  "mcp_new pid ts = Inr p \<Longrightarrow>
     dp_index (mcp_dyn to_json p) = Inr (map (\<lambda>t. \<lparr>cl_name = mt_name t, cl_desc = mt_desc t\<rparr>) ts) \<and> dp_id (mcp_dyn to_json p) = pid"
  by (auto simp: mcp_new_Inr mcp_dyn_def mcp_index_def)

lemma register_error:
  assumes "register lower reg p = (reg', Inl e)" and "dp_index p = Inr ls" and "distinct (map cl_name ls)"
  shows "e = DuplicateProvider (dp_id p) \<or>
    (\<exists>l \<in> set ls. check_description_quality lower (dp_id p) (cl_name l) (cl_desc l) = Inl e)"
proof -
  have "check_duplicates (dp_id p) [] ls = Inr ()" using assms(3) by (simp add: check_duplicates_Inr_iff)
  then show ?thesis
    using assms(1,2) check_each_Inl [of "\<lambda>l. check_description_quality lower (dp_id p) (cl_name l) (cl_desc l)" ls e]
    by (auto simp: register_def Let_def result_simps split: if_splits sum.splits)
qed

text \<open>C38: A mount configuration that is accepted names its provider and bridge program, at least one tool,
  every tool once and none with a name or description that is empty or blank, and keeps the file's tools
  in order; starting the server with it can then only fail because the provider's id is taken or a
  description is rejected. Otherwise the server starts with the providers there were, each as it was, and
  one more under the new id, which lists exactly those tools.\<close>

theorem mcp_config_mounts:
  assumes "into_mount config = Inr m"
  shows "mm_tools m = map (\<lambda>t. (tc_name t, tc_desc t, tc_schema t)) (mf_tools config) \<and> mm_tools m \<noteq> [] \<and>
    distinct (map fst (mm_tools m)) \<and>
    (\<forall>(name, desc, schema) \<in> set (mm_tools m). trim name \<noteq> [] \<and> trim desc \<noteq> []) \<and>
    trim (mm_provider_id m) \<noteq> [] \<and> trim (mm_bridge_program m) \<noteq> [] \<and>
    (case with_mcp_tools lower to_json builtins (mm_provider_id m) (mm_bridge_program m) (mm_bridge_args m) (mm_tools m) of
       Inl e \<Rightarrow> e = DuplicateProvider (mm_provider_id m) \<or>
         (\<exists>(name, desc, schema) \<in> set (mm_tools m). check_description_quality lower (mm_provider_id m) name desc = Inl e)
     | Inr st \<Rightarrow> rg_providers builtins (mm_provider_id m) = None \<and>
         (\<exists>p. rg_providers (en_registry (st_engine st)) = (rg_providers builtins)(mm_provider_id m \<mapsto> p) \<and>
            dp_id p = mm_provider_id m \<and>
            dp_index p = Inr (map (\<lambda>(name, desc, schema). \<lparr>cl_name = name, cl_desc = desc\<rparr>) (mm_tools m))))"
proof -
  obtain tools where tools: "mount_tools 0 (\<lambda>_. None) [] (mf_tools config) = Inr tools" "mm_tools m = tools"
      "mf_tools config \<noteq> []" "trim (mm_provider_id m) \<noteq> []" "trim (mm_bridge_program m) \<noteq> []"
    using assms by (auto simp: into_mount_def reject_empty_def result_simps split: if_splits)
  have m: "mm_tools m = map (\<lambda>t. (tc_name t, tc_desc t, tc_schema t)) (mf_tools config)" "distinct (map fst (mm_tools m))"
      "mm_tools m \<noteq> []" "\<forall>t \<in> set (mf_tools config). trim (tc_name t) \<noteq> [] \<and> trim (tc_desc t) \<noteq> []"
    using mount_tools_Inr [OF tools(1)] tools(2,3) by auto
  have blank: "\<forall>(name, desc, schema) \<in> set (mm_tools m). trim name \<noteq> [] \<and> trim desc \<noteq> []"
    using m(1,4) by auto
  let ?ds = "map (\<lambda>(name, desc, schema). \<lparr>mt_provider_id = mm_provider_id m, mt_name = name, mt_desc = desc,
      mt_schema = schema, mt_bridge = \<lparr>br_program = mm_bridge_program m, br_args = mm_bridge_args m\<rparr>\<rparr>) (mm_tools m)"
  have names: "map mt_name ?ds = map fst (mm_tools m)" by auto
  obtain p where p: "mcp_new (mm_provider_id m) ?ds = Inr p"
    using m(2) unfolding mcp_new_Inr names by (auto simp: split_beta)
  let ?ls = "map (\<lambda>(name, desc, schema). \<lparr>cl_name = name, cl_desc = desc\<rparr>) (mm_tools m)"
  have ls: "dp_index (mcp_dyn to_json p) = Inr ?ls" "dp_id (mcp_dyn to_json p) = mm_provider_id m"
    using mcp_listings [OF p, of to_json] by (auto simp: split_beta comp_def)
  have cls: "distinct (map cl_name ?ls)" using m(2) by (simp add: split_beta comp_def)
  obtain reg r where reg: "register lower builtins (mcp_dyn to_json p) = (reg, r)" by fastforce
  have start: "with_mcp_tools lower to_json builtins (mm_provider_id m) (mm_bridge_program m) (mm_bridge_args m) (mm_tools m) =
      (case r of Inl e \<Rightarrow> Inl e | Inr _ \<Rightarrow> Inr (with_registry reg))"
    by (simp add: with_mcp_tools_def p reg Let_def)
  show ?thesis
  proof (cases r)
    case (Inl e)
    from register_error [OF reg [unfolded this] ls(1) cls] show ?thesis
      using m(2,3) blank tools(4,5) Inl start unfolding m(1) [symmetric] ls(2) by force
  next
    case (Inr u)
    then have acc: "register_accepts lower builtins (mcp_dyn to_json p)" "reg = register_commit builtins (mcp_dyn to_json p)"
      using register_cases [OF reg] by auto
    have "rg_providers (en_registry (st_engine (with_registry reg))) =
        (rg_providers builtins)(mm_provider_id m \<mapsto> mcp_dyn to_json p)"
      using acc(2) ls(2) by (simp add: register_commit_def with_registry_def engine_new_def Let_def)
    moreover have "rg_providers builtins (mm_provider_id m) = None"
      using acc(1) ls(2) by (simp add: register_accepts_def)
    ultimately show ?thesis
      unfolding start Inr using m(1-3) blank tools(4,5) ls by auto
  qed
qed

lemma mcp_config_mounts_witness:
  "\<exists>m. into_mount \<lparr>mf_provider = ''docs'', mf_bridge = \<lparr>bg_program = ''b'', bg_args = [''call'']\<rparr>,
      mf_tools = [\<lparr>tc_name = ''t'', tc_desc = ''d'', tc_schema = ()\<rparr>]\<rparr> = Inr m \<and> mm_tools m = [(''t'', ''d'', ())]"
proof -
  let ?c = "\<lparr>mf_provider = ''docs'', mf_bridge = \<lparr>bg_program = ''b'', bg_args = [''call'']\<rparr>,
      mf_tools = [\<lparr>tc_name = ''t'', tc_desc = ''d'', tc_schema = ()\<rparr>]\<rparr>"
  have "\<exists>m. into_mount ?c = Inr m"
    by (rule exI [of _ "\<lparr>mm_provider_id = ''docs'', mm_bridge_program = ''b'', mm_bridge_args = [''call''],
      mm_tools = [(''t'', ''d'', ())]\<rparr>"]) code_simp
  then obtain m where "into_mount ?c = Inr m" ..
  then show ?thesis using mcp_config_mounts [of ?c m] by auto
qed

end
