(* ===== verification/Drain.thy ===== *)
theory Drain
  imports Job_Lifecycle
begin

text \<open>
  The asynchronous part of \<open>axp-core/src/job/engine.rs\<close> that drives a job to its end:
  \<open>run_to_completion\<close> (a child process) and \<open>run_code_to_completion\<close> (a component).
  A \<open>select!\<close> loop is a recursion over rounds. A round says which futures are ready when the
  loop polls; what a read returns then comes from the pipe's script, so bytes that are not polled
  stay in the pipe. A list of rounds that ends before the loop does gives \<open>None\<close>: the task is
  still waiting.
\<close>

section \<open>Pipes\<close>

text \<open>\<open>Read []\<close> is \<open>Ok(0)\<close>, the end of the pipe. After the script the pipe is at its end.\<close>

datatype read_result = Read "byte list" | ReadErr string

type_synonym pipe = "read_result list option"

definition DRAIN_BUF_SIZE :: nat where
  "DRAIN_BUF_SIZE = 8192"

definition read_into :: "pipe \<Rightarrow> read_result \<times> pipe" where
  "read_into s =
     (case s of
        Some (r # rs) \<Rightarrow> (r, Some rs)
      | Some [] \<Rightarrow> (Read [], Some [])
      | None \<Rightarrow> (Read [], None))"

text \<open>The output a pipe delivers: its chunks before the end or an error.\<close>

fun pipe_output :: "read_result list \<Rightarrow> byte list list" where
  "pipe_output [] = []"
| "pipe_output (Read d # rs) = (if d = [] then [] else d # pipe_output rs)"
| "pipe_output (ReadErr e # rs) = []"

section \<open>Draining a child process\<close>

record 'j drain_state =
  ds_jobs :: "'j job_store"
  ds_stdout :: pipe
  ds_stderr :: pipe
  ds_out_done :: bool
  ds_err_done :: bool
  ds_cancelled :: bool
  ds_overflowed :: bool
  ds_kills :: nat

record drain_round =
  rd_cancel :: bool
  rd_out :: bool
  rd_err :: bool
  rd_now :: int

definition drain_init :: "'j job_store \<Rightarrow> pipe \<Rightarrow> pipe \<Rightarrow> 'j drain_state" where
  "drain_init jobs out err =
     \<lparr>ds_jobs = jobs, ds_stdout = out, ds_stderr = err, ds_out_done = (out = None),
      ds_err_done = (err = None), ds_cancelled = False, ds_overflowed = False, ds_kills = 0\<rparr>"

definition drain_overflow :: "'j drain_state \<Rightarrow> 'j drain_state" where
  "drain_overflow s = s\<lparr>ds_overflowed := True, ds_kills := Suc (ds_kills s),
     ds_out_done := True, ds_err_done := True\<rparr>"

definition drain_stdout :: "int \<Rightarrow> nat \<Rightarrow> 'j drain_state \<Rightarrow> 'j drain_state" where
  "drain_stdout now handle s =
     (case read_into (ds_stdout s) of (n, out) \<Rightarrow>
        let s = s\<lparr>ds_stdout := out\<rparr> in
        (case n of
           ReadErr e \<Rightarrow> s\<lparr>ds_out_done := True\<rparr>
         | Read data \<Rightarrow>
             if data = [] then s\<lparr>ds_out_done := True\<rparr>
             else (case push_log now (ds_jobs s) handle Stdout data of
                 (jobs, Inl e) \<Rightarrow> drain_overflow (s\<lparr>ds_jobs := jobs\<rparr>)
               | (jobs, Inr _) \<Rightarrow> s\<lparr>ds_jobs := jobs\<rparr>)))"

definition drain_stderr :: "int \<Rightarrow> nat \<Rightarrow> 'j drain_state \<Rightarrow> 'j drain_state" where
  "drain_stderr now handle s =
     (case read_into (ds_stderr s) of (n, err) \<Rightarrow>
        let s = s\<lparr>ds_stderr := err\<rparr> in
        (case n of
           ReadErr e \<Rightarrow> s\<lparr>ds_err_done := True\<rparr>
         | Read data \<Rightarrow>
             if data = [] then s\<lparr>ds_err_done := True\<rparr>
             else (case push_log now (ds_jobs s) handle Stderr data of
                 (jobs, Inl e) \<Rightarrow> drain_overflow (s\<lparr>ds_jobs := jobs\<rparr>)
               | (jobs, Inr _) \<Rightarrow> s\<lparr>ds_jobs := jobs\<rparr>)))"

text \<open>One \<open>select! { biased; ... }\<close>: the first enabled arm that is ready; none, and it waits.\<close>

definition drain_select :: "nat \<Rightarrow> drain_round \<Rightarrow> 'j drain_state \<Rightarrow> 'j drain_state option" where
  "drain_select handle r s =
     (if \<not> ds_cancelled s \<and> rd_cancel r then
        Some (s\<lparr>ds_cancelled := True, ds_kills := Suc (ds_kills s)\<rparr>)
      else if \<not> ds_out_done s \<and> rd_out r then Some (drain_stdout (rd_now r) handle s)
      else if \<not> ds_err_done s \<and> rd_err r then Some (drain_stderr (rd_now r) handle s)
      else None)"

fun drain_loop :: "nat \<Rightarrow> drain_round list \<Rightarrow> 'j drain_state \<Rightarrow> 'j drain_state option" where
  "drain_loop handle [] s = None"
| "drain_loop handle (r # rs) s =
     (case drain_select handle r s of
        None \<Rightarrow> drain_loop handle rs s
      | Some s' \<Rightarrow> if ds_out_done s' \<and> ds_err_done s' then Some s' else drain_loop handle rs s')"

text \<open>\<open>child.wait()\<close>: an error, or the exit code if there is one.\<close>

definition drain_status :: "'j drain_state \<Rightarrow> (string, i32 option) result \<Rightarrow> job_status" where
  "drain_status s status =
     (if ds_overflowed s then Failed ''log buffer overflow''
      else if ds_cancelled s then Killed
      else case status of
          Inr (Some c) \<Rightarrow> Exited c
        | Inr None \<Rightarrow> Killed
        | Inl e \<Rightarrow> Failed e)"

definition run_to_completion ::
    "int \<Rightarrow> 'j job_engine \<Rightarrow> job_task \<Rightarrow> pipe \<Rightarrow> pipe \<Rightarrow> drain_round list \<Rightarrow> (string, i32 option) result
      \<Rightarrow> 'j job_engine option" where
  "run_to_completion now eng task out err rounds status =
     map_option (\<lambda>s. finish_job now (eng\<lparr>en_jobs := ds_jobs s\<rparr>) (tk_job_id task) (tk_session_id task)
         (tk_handle task) (drain_status s status))
       (drain_loop (tk_handle task) rounds (drain_init (en_jobs eng) out err))"

section \<open>Running a component\<close>

definition str_bytes :: "string \<Rightarrow> byte list" where
  "str_bytes s = map (\<lambda>c. of_nat (of_char c)) s"

text \<open>What \<open>spawn_blocking\<close> joins with: the component's result, its error, or the join error.\<close>

datatype run_joined = RunOk "string option" | RunErr string | JoinErr string

record code_round =
  cr_cancel :: bool
  cr_joined :: "run_joined option"

text \<open>Awaiting the run: its first answer.\<close>

fun code_join :: "code_round list \<Rightarrow> run_joined option" where
  "code_join [] = None"
| "code_join (r # rs) = (case cr_joined r of Some j \<Rightarrow> Some j | None \<Rightarrow> code_join rs)"

text \<open>The biased \<open>select!\<close>: \<open>Inl\<close> with the rounds that are left when the cancel arm wins.\<close>

fun code_select :: "code_round list \<Rightarrow> (code_round list + run_joined) option" where
  "code_select [] = None"
| "code_select (r # rs) =
     (if cr_cancel r then Some (Inl (r # rs))
      else case cr_joined r of Some j \<Rightarrow> Some (Inr j) | None \<Rightarrow> code_select rs)"

definition code_joined ::
    "int \<Rightarrow> 'j job_store \<Rightarrow> nat \<Rightarrow> (string \<Rightarrow> string) \<Rightarrow> run_joined \<Rightarrow> 'j job_store \<times> job_status" where
  "code_joined now jobs handle dbg joined =
     (case joined of
        RunOk (Some res) \<Rightarrow>
          (case push_text_result now jobs handle Stdout (str_bytes res) of
             (jobs, Inr _) \<Rightarrow> (jobs, Exited 0)
           | (jobs, Inl e) \<Rightarrow> (jobs, Failed (core_error_display dbg e)))
      | RunOk None \<Rightarrow> (jobs, Exited 0)
      | RunErr reason \<Rightarrow> (fst (push_text_result now jobs handle Stderr (str_bytes reason)), Failed reason)
      | JoinErr reason \<Rightarrow> (fst (push_text_result now jobs handle Stderr (str_bytes reason)), Failed reason))"

definition run_code_to_completion ::
    "int \<Rightarrow> (string \<Rightarrow> string) \<Rightarrow> 'j job_engine \<Rightarrow> job_task \<Rightarrow> nat \<Rightarrow> code_round list \<Rightarrow> 'j job_engine option" where
  "run_code_to_completion now dbg eng task interrupt rounds =
     (case code_select rounds of
        None \<Rightarrow> None
      | Some (Inl rest) \<Rightarrow>
          let eng = eng\<lparr>en_interrupts := set_cell (en_interrupts eng) (Some interrupt)\<rparr> in
          (case code_join rest of
             None \<Rightarrow> None
           | Some _ \<Rightarrow> Some (finish_job now eng (tk_job_id task) (tk_session_id task) (tk_handle task) Killed))
      | Some (Inr joined) \<Rightarrow>
          (case code_joined now (en_jobs eng) (tk_handle task) dbg joined of
             (jobs, terminal) \<Rightarrow>
               Some (finish_job now (eng\<lparr>en_jobs := jobs\<rparr>) (tk_job_id task) (tk_session_id task)
                 (tk_handle task) terminal)))"

section \<open>A job's log through its handle\<close>

definition job_log :: "'j job_store \<Rightarrow> nat \<Rightarrow> mem_log option" where
  "job_log jobs h = map_option jb_replay_log (job_read jobs h)"

definition stream_data :: "log_stream \<Rightarrow> mem_log \<Rightarrow> byte list list" where
  "stream_data st l = map ev_data (filter (\<lambda>e. ev_stream e = st) (ml_events l))"

text \<open>What a push does to the log, in terms of the log alone.\<close>

definition pushed :: "mem_log \<Rightarrow> log_stream \<Rightarrow> byte list \<Rightarrow> mem_log \<Rightarrow> bool" where
  "pushed l st d l' \<longleftrightarrow> ml_byte_cap l' = ml_byte_cap l \<and>
     ml_byte_total l + length d \<le> ml_byte_cap l \<and> ml_byte_total l' = ml_byte_total l + length d \<and>
     (\<exists>ev. ml_events l' = ml_events l @ [ev] \<and> ev_stream ev = st \<and> ev_data ev = d \<and>
        ev_seq ev = of_nat (length (ml_events l)))"

definition too_long :: "mem_log \<Rightarrow> byte list \<Rightarrow> bool" where
  "too_long l d \<longleftrightarrow> min (ml_byte_cap l) usize_max < ml_byte_total l + length d"

lemma push_log_cases:
  assumes "job_log jobs h = Some l" and "push_log now jobs h st d = (jobs', r)"
  shows "(\<exists>l'. job_log jobs' h = Some l' \<and> pushed l st d l' \<and> r = Inr ()) \<or>
    job_log jobs' h = Some l \<and> too_long l d \<and> r = Inl (LogBufferOverflow (ml_byte_cap l))"
proof -
  obtain job where job: "job_read jobs h = Some job" "jb_replay_log job = l"
    using assms(1) by (auto simp: job_log_def)
  then have wr: "job_log (job_write jobs h (job\<lparr>jb_replay_log := l'\<rparr>)) h = Some l'" for l'
    by (auto simp: job_log_def job_read_def job_write_def am_read_def am_write_def split: if_splits)
  let ?e = "\<lparr>ap_stream = st, ap_data = d, ap_timestamp = now\<rparr>"
  obtain l' s where ap: "mem_append l ?e = (l', s)" by fastforce
  show ?thesis
  proof (cases s)
    case (Inl e)
    then have "l' = l" "e = LogBufferOverflow (ml_byte_cap l)" "too_long l d"
      using ap by (auto simp: mem_append_def checked_add_usize_def too_long_def Let_def split: if_splits)
    then show ?thesis using assms(2) job ap wr Inl by (auto simp: push_log_def)
  next
    case (Inr n)
    then have "pushed l st d l'"
      using mem_append_cases [OF ap] by (auto simp: pushed_def mem_next_seq_def)
    then show ?thesis using assms(2) job ap wr Inr by (auto simp: push_log_def)
  qed
qed

lemma pushed_stream_data:
  "pushed l st d l' \<Longrightarrow> stream_data st' l' = stream_data st' l @ (if st' = st then [d] else [])"
  by (auto simp: pushed_def stream_data_def)

lemma pushed_log_ok: "pushed l st d l' \<Longrightarrow> log_ok cap l \<Longrightarrow> log_ok cap l'"
  by (auto simp: pushed_def log_ok_def nth_append less_Suc_eq)

lemma pushed_frame: "pushed l st d l' \<Longrightarrow> prefix (ml_events l) (ml_events l') \<and> ml_byte_cap l' = ml_byte_cap l"
  by (auto simp: pushed_def)

section \<open>The drain loop loses nothing\<close>

definition pipe_rest :: "pipe \<Rightarrow> bool \<Rightarrow> byte list list" where
  "pipe_rest p is_done = (if is_done then [] else case p of None \<Rightarrow> [] | Some rs \<Rightarrow> pipe_output rs)"

primrec ds_rest :: "log_stream \<Rightarrow> 'j drain_state \<Rightarrow> byte list list" where
  "ds_rest Stdout s = pipe_rest (ds_stdout s) (ds_out_done s)"
| "ds_rest Stderr s = pipe_rest (ds_stderr s) (ds_err_done s)"

text \<open>While nothing overflowed, log and pipes together hold what the pipes held at the start.\<close>

definition drain_ok :: "nat \<Rightarrow> mem_log \<Rightarrow> (log_stream \<Rightarrow> byte list list) \<Rightarrow> 'j drain_state \<Rightarrow> bool" where
  "drain_ok h l0 out s \<longleftrightarrow> \<not> ds_overflowed s \<and> (ds_kills s > 0 \<longleftrightarrow> ds_cancelled s) \<and>
     (\<exists>l. job_log (ds_jobs s) h = Some l \<and> prefix (ml_events l0) (ml_events l) \<and> ml_byte_cap l = ml_byte_cap l0 \<and>
        (\<forall>st. stream_data st l @ ds_rest st s = stream_data st l0 @ out st))"

definition drain_over :: "nat \<Rightarrow> mem_log \<Rightarrow> (log_stream \<Rightarrow> byte list list) \<Rightarrow> 'j drain_state \<Rightarrow> bool" where
  "drain_over h l0 out s \<longleftrightarrow> ds_overflowed s \<and> ds_kills s > 0 \<and> ds_out_done s \<and> ds_err_done s \<and>
     (\<exists>l d st rest. job_log (ds_jobs s) h = Some l \<and> prefix (ml_events l0) (ml_events l) \<and>
        ml_byte_cap l = ml_byte_cap l0 \<and> too_long l d \<and> stream_data st l @ d # rest = stream_data st l0 @ out st \<and>
        (\<forall>st'. prefix (stream_data st' l) (stream_data st' l0 @ out st')))"

text \<open>Both arms, for the stream they read.\<close>

primrec stream_done :: "log_stream \<Rightarrow> 'j drain_state \<Rightarrow> 'j drain_state" where
  "stream_done Stdout s = s\<lparr>ds_out_done := True\<rparr>"
| "stream_done Stderr s = s\<lparr>ds_err_done := True\<rparr>"

definition drain_arm :: "int \<Rightarrow> nat \<Rightarrow> log_stream \<Rightarrow> read_result \<Rightarrow> 'j drain_state \<Rightarrow> 'j drain_state" where
  "drain_arm now h st n s =
     (case n of
        ReadErr e \<Rightarrow> stream_done st s
      | Read data \<Rightarrow>
          if data = [] then stream_done st s
          else (case push_log now (ds_jobs s) h st data of
              (jobs, Inl e) \<Rightarrow> drain_overflow (s\<lparr>ds_jobs := jobs\<rparr>)
            | (jobs, Inr _) \<Rightarrow> s\<lparr>ds_jobs := jobs\<rparr>))"

lemma drain_arms:
  "drain_stdout now h s = drain_arm now h Stdout (fst (read_into (ds_stdout s))) (s\<lparr>ds_stdout := snd (read_into (ds_stdout s))\<rparr>)"
  "drain_stderr now h s = drain_arm now h Stderr (fst (read_into (ds_stderr s))) (s\<lparr>ds_stderr := snd (read_into (ds_stderr s))\<rparr>)"
  by (auto simp: drain_stdout_def drain_stderr_def drain_arm_def Let_def case_prod_beta split: read_result.split)

lemma read_into_rest:
  "pipe_rest p False = (case fst (read_into p) of Read d \<Rightarrow> if d = [] then [] else d # pipe_rest (snd (read_into p)) False
     | ReadErr e \<Rightarrow> [])"
  by (auto simp: read_into_def pipe_rest_def split: option.split list.split read_result.split)

lemma stream_done_sel [simp]:
  "ds_jobs (stream_done st s) = ds_jobs s" "ds_overflowed (stream_done st s) = ds_overflowed s"
  "ds_cancelled (stream_done st s) = ds_cancelled s" "ds_kills (stream_done st s) = ds_kills s"
  "ds_rest st' (stream_done st s) = (if st' = st then [] else ds_rest st' s)"
  by (cases st; cases st'; simp add: pipe_rest_def)+

lemma drain_arm_cases:
  assumes ok: "drain_ok h l0 out s"
    and same: "ds_jobs s1 = ds_jobs s" "ds_overflowed s1 = ds_overflowed s" "ds_cancelled s1 = ds_cancelled s"
      "ds_kills s1 = ds_kills s" "\<And>st'. st' \<noteq> st \<Longrightarrow> ds_rest st' s1 = ds_rest st' s"
    and rest: "ds_rest st s = (case n of Read d \<Rightarrow> if d = [] then [] else d # ds_rest st s1 | ReadErr e \<Rightarrow> [])"
  shows "drain_ok h l0 out (drain_arm now h st n s1) \<or> drain_over h l0 out (drain_arm now h st n s1)"
proof -
  obtain l where l: "job_log (ds_jobs s) h = Some l" "prefix (ml_events l0) (ml_events l)"
      "ml_byte_cap l = ml_byte_cap l0" "\<And>st. stream_data st l @ ds_rest st s = stream_data st l0 @ out st"
    using ok by (auto simp: drain_ok_def)
  have flags: "\<not> ds_overflowed s1" "ds_kills s1 > 0 \<longleftrightarrow> ds_cancelled s1"
    using ok same by (simp_all add: drain_ok_def)
  have "drain_ok h l0 out (stream_done st s1)" if "ds_rest st s = []"
    using flags l same(1,5) that l(4) [of st] by (auto simp: drain_ok_def)
  moreover have ?thesis if n: "n = Read d" "d \<noteq> []" for d
  proof -
    have d: "ds_rest st s = d # ds_rest st s1" using rest n by simp
    obtain jobs r where p: "push_log now (ds_jobs s1) h st d = (jobs, r)" by fastforce
    from push_log_cases [OF _ p] l(1) same(1)
    consider l' where "job_log jobs h = Some l'" "pushed l st d l'" "r = Inr ()"
      | e where "job_log jobs h = Some l" "too_long l d" "r = Inl e" by auto
    then show ?thesis
    proof cases
      case 1
      have "stream_data st' l' @ ds_rest st' s1 = stream_data st' l0 @ out st'" for st'
        using l(4) [of st'] d same(5) [of st'] pushed_stream_data [OF 1(2), of st'] by (cases "st' = st") auto
      moreover have "prefix (ml_events l0) (ml_events l')" "ml_byte_cap l' = ml_byte_cap l0"
        using l(2,3) pushed_frame [OF 1(2)] by auto
      moreover have "ds_rest st' (s1\<lparr>ds_jobs := jobs\<rparr>) = ds_rest st' s1" for st' by (cases st') simp_all
      ultimately have "drain_ok h l0 out (s1\<lparr>ds_jobs := jobs\<rparr>)"
        using flags 1(1) by (simp add: drain_ok_def)
      then show ?thesis using n p 1(3) by (simp add: drain_arm_def)
    next
      case 2
      have "stream_data st l @ d # ds_rest st s1 = stream_data st l0 @ out st" using l(4) [of st] d by simp
      moreover have "prefix (stream_data st' l) (stream_data st' l0 @ out st')" for st'
        using l(4) [of st'] by (metis prefixI)
      ultimately have "drain_over h l0 out (drain_overflow (s1\<lparr>ds_jobs := jobs\<rparr>))"
        using l(2,3) 2(1,2) unfolding drain_over_def drain_overflow_def by auto
      then show ?thesis using n p 2(3) by (simp add: drain_arm_def)
    qed
  qed
  ultimately show ?thesis
    using rest by (cases n) (auto simp: drain_arm_def)
qed

lemma drain_select_cases:
  assumes ok: "drain_ok h l0 out s" and sel: "drain_select h r s = Some s'"
  shows "drain_ok h l0 out s' \<or> drain_over h l0 out s'"
proof -
  consider "s' = s\<lparr>ds_cancelled := True, ds_kills := Suc (ds_kills s)\<rparr>"
    | "\<not> ds_out_done s" "s' = drain_stdout (rd_now r) h s"
    | "\<not> ds_err_done s" "s' = drain_stderr (rd_now r) h s"
    using sel by (auto simp: drain_select_def split: if_splits)
  then show ?thesis
  proof cases
    case 1
    have "ds_rest st s' = ds_rest st s" for st by (cases st) (simp_all add: 1)
    then show ?thesis using ok by (simp add: drain_ok_def 1)
  next
    case 2
    show ?thesis unfolding 2 drain_arms
    proof (rule drain_arm_cases [OF ok])
      show "ds_rest st' (s\<lparr>ds_stdout := p\<rparr>) = ds_rest st' s" if "st' \<noteq> Stdout" for st' p
        using that by (cases st') simp_all
      show "ds_rest Stdout s = (case fst (read_into (ds_stdout s)) of Read d \<Rightarrow> if d = [] then []
          else d # ds_rest Stdout (s\<lparr>ds_stdout := snd (read_into (ds_stdout s))\<rparr>) | ReadErr e \<Rightarrow> [])"
        using read_into_rest [of "ds_stdout s"] 2(1) by (simp split: read_result.splits)
    qed simp_all
  next
    case 3
    show ?thesis unfolding 3 drain_arms
    proof (rule drain_arm_cases [OF ok])
      show "ds_rest st' (s\<lparr>ds_stderr := p\<rparr>) = ds_rest st' s" if "st' \<noteq> Stderr" for st' p
        using that by (cases st') simp_all
      show "ds_rest Stderr s = (case fst (read_into (ds_stderr s)) of Read d \<Rightarrow> if d = [] then []
          else d # ds_rest Stderr (s\<lparr>ds_stderr := snd (read_into (ds_stderr s))\<rparr>) | ReadErr e \<Rightarrow> [])"
        using read_into_rest [of "ds_stderr s"] 3(1) by (simp split: read_result.splits)
    qed simp_all
  qed
qed

lemma drain_loop_cases:
  "drain_loop h rs s = Some s' \<Longrightarrow> drain_ok h l0 out s \<Longrightarrow>
     ds_out_done s' \<and> ds_err_done s' \<and> (drain_ok h l0 out s' \<or> drain_over h l0 out s')"
proof (induction rs arbitrary: s)
  case (Cons r rs)
  show ?case
  proof (cases "drain_select h r s")
    case None
    then show ?thesis using Cons by simp
  next
    case (Some s1)
    from drain_select_cases [OF Cons.prems(2) this] show ?thesis
      using Cons Some by (auto simp: drain_over_def split: if_splits)
  qed
qed simp

section \<open>The drain loop ends\<close>

text \<open>What is left to do: the cancel signal, and each pipe's reads up to its end.\<close>

definition drain_left :: "'j drain_state \<Rightarrow> nat" where
  "drain_left s = (if ds_cancelled s then 0 else 1) +
     (if ds_out_done s then 0 else case ds_stdout s of None \<Rightarrow> 1 | Some rs \<Rightarrow> Suc (length rs)) +
     (if ds_err_done s then 0 else case ds_stderr s of None \<Rightarrow> 1 | Some rs \<Rightarrow> Suc (length rs))"

lemma drain_arm_left:
  "drain_left (drain_stdout now h s) < drain_left s" if "\<not> ds_out_done s"
  using that by (auto simp: drain_left_def drain_stdout_def read_into_def drain_overflow_def Let_def
      split: option.splits list.splits read_result.splits prod.splits sum.splits)

lemma drain_arm_left':
  "drain_left (drain_stderr now h s) < drain_left s" if "\<not> ds_err_done s"
  using that by (auto simp: drain_left_def drain_stderr_def read_into_def drain_overflow_def Let_def
      split: option.splits list.splits read_result.splits prod.splits sum.splits)

lemma drain_select_left:
  "drain_select h r s = Some s' \<Longrightarrow> drain_left s' < drain_left s"
  by (auto simp: drain_select_def drain_arm_left drain_arm_left' split: if_splits) (simp add: drain_left_def)

lemma drain_select_ready:
  "rd_out r \<Longrightarrow> rd_err r \<Longrightarrow> \<not> (ds_out_done s \<and> ds_err_done s) \<Longrightarrow> drain_select h r s \<noteq> None"
  by (auto simp: drain_select_def)

lemma drain_loop_returns:
  "\<not> (ds_out_done s \<and> ds_err_done s) \<Longrightarrow>
     drain_left s \<le> length (filter (\<lambda>r. rd_out r \<and> rd_err r) rs) \<Longrightarrow> drain_loop h rs s \<noteq> None"
proof (induction rs arbitrary: s)
  case Nil
  then have "drain_left s = 0" by simp
  then show ?case using Nil.prems(1) by (auto simp: drain_left_def split: if_splits option.splits)
next
  case (Cons r rs)
  show ?case
  proof (cases "drain_select h r s")
    case None
    then have "\<not> (rd_out r \<and> rd_err r)" using drain_select_ready Cons.prems(1) by blast
    then have "filter (\<lambda>r. rd_out r \<and> rd_err r) (r # rs) = filter (\<lambda>r. rd_out r \<and> rd_err r) rs" by simp
    then show ?thesis using Cons None by simp
  next
    case (Some s1)
    have "drain_left s1 < drain_left s" using Some by (rule drain_select_left)
    then have "drain_left s1 \<le> length (filter (\<lambda>r. rd_out r \<and> rd_err r) rs)"
      using Cons.prems(2) by (auto split: if_splits)
    then show ?thesis using Cons.IH [of s1] Some by auto
  qed
qed

section \<open>The rest of the store\<close>

lemma job_log_lookup:
  "job_store_get jobs jid = Some h \<Longrightarrow> job_log jobs h = map_option jb_replay_log (job_lookup jobs jid)"
  by (simp add: job_log_def job_lookup_def am_lookup_def job_store_get_def job_read_def)

definition log_kept :: "nat \<Rightarrow> 'j job_store \<Rightarrow> 'j job_store \<Rightarrow> bool" where
  "log_kept h jobs0 jobs \<longleftrightarrow>
     (\<forall>cap l0. job_log jobs0 h = Some l0 \<longrightarrow> log_ok cap l0 \<longrightarrow> (\<exists>l. job_log jobs h = Some l \<and> log_ok cap l))"

definition only_log :: "'j job_store \<Rightarrow> job_id \<Rightarrow> nat \<Rightarrow> 'j job_store \<Rightarrow> bool" where
  "only_log jobs0 jid h jobs \<longleftrightarrow> job_store_inv jobs \<and> job_store_get jobs jid = Some h \<and>
     (\<forall>k. k \<noteq> jid \<longrightarrow> job_lookup jobs k = job_lookup jobs0 k) \<and> log_kept h jobs0 jobs"

lemma push_log_kept: "log_kept h jobs0 jobs \<Longrightarrow> log_kept h jobs0 (fst (push_log now jobs h st d))"
  unfolding log_kept_def
proof (intro allI impI)
  fix cap l0
  assume kept: "\<forall>cap l0. job_log jobs0 h = Some l0 \<longrightarrow> log_ok cap l0 \<longrightarrow> (\<exists>l. job_log jobs h = Some l \<and> log_ok cap l)"
    and "job_log jobs0 h = Some l0" and "log_ok cap l0"
  then obtain l where l: "job_log jobs h = Some l" "log_ok cap l" by blast
  from push_log_cases [OF l(1) surjective_pairing, of now st d] l(2) pushed_log_ok
  show "\<exists>l. job_log (fst (push_log now jobs h st d)) h = Some l \<and> log_ok cap l" by auto
qed

lemma push_log_only:
  assumes "only_log jobs0 jid h jobs"
  shows "only_log jobs0 jid h (fst (push_log now jobs h st d))"
proof -
  have inv: "job_store_inv jobs" "job_store_get jobs jid = Some h" using assms by (simp_all add: only_log_def)
  note update_job_inv [OF inv] update_job_lookup [OF inv]
  then show ?thesis
    using assms push_log_kept [of h jobs0 jobs now st d]
    by (simp add: only_log_def push_log_update same_job_def)
qed

lemma drain_select_only:
  assumes "drain_select h r s = Some s'" and "only_log jobs0 jid h (ds_jobs s)"
  shows "only_log jobs0 jid h (ds_jobs s') \<and> (ds_cancelled s' \<longrightarrow> ds_cancelled s \<or> rd_cancel r)"
  using assms push_log_only [OF assms(2)]
  by (auto simp: drain_select_def drain_stdout_def drain_stderr_def drain_overflow_def Let_def
      split: if_splits prod.splits read_result.splits sum.splits) (metis fst_conv)+

lemma drain_loop_only:
  "drain_loop h rs s = Some s' \<Longrightarrow> only_log jobs0 jid h (ds_jobs s) \<Longrightarrow>
     only_log jobs0 jid h (ds_jobs s') \<and> (ds_cancelled s' \<longrightarrow> ds_cancelled s \<or> (\<exists>r \<in> set rs. rd_cancel r))"
proof (induction rs arbitrary: s)
  case (Cons r rs)
  show ?case
  proof (cases "drain_select h r s")
    case None
    then show ?thesis using Cons by auto
  next
    case (Some s1)
    from drain_select_only [OF this Cons.prems(2)] show ?thesis
      using Cons Some by (auto split: if_splits)
  qed
qed simp

lemma finish_job_effect:
  assumes "job_store_inv (en_jobs eng)" and "job_store_get (en_jobs eng) jid = Some h"
  shows "job_lookup (en_jobs (finish_job now eng jid sid h st)) k =
    (if k = jid then map_option (\<lambda>job. job\<lparr>jb_status := st, jb_finished_at := Some now, jb_replay_log :=
       (jb_replay_log job)\<lparr>ml_notify := Suc (ml_notify (jb_replay_log job))\<rparr>\<rparr>) (job_lookup (en_jobs eng) jid)
     else job_lookup (en_jobs eng) k)"
    and "en_cancels (finish_job now eng jid sid h st) jid = None"
    and "job_store_inv (en_jobs (finish_job now eng jid sid h st))"
proof -
  let ?f = "\<lambda>job. job\<lparr>jb_status := st, jb_finished_at := Some now\<rparr>"
  let ?jobs = "update_job ?f (en_jobs eng) h"
  have inv: "job_store_inv ?jobs" using update_job_inv [OF assms] by (simp add: same_job_def)
  have get: "job_store_get ?jobs jid = Some h" using assms(2) by simp
  show "job_lookup (en_jobs (finish_job now eng jid sid h st)) k =
    (if k = jid then map_option (\<lambda>job. job\<lparr>jb_status := st, jb_finished_at := Some now, jb_replay_log :=
       (jb_replay_log job)\<lparr>ml_notify := Suc (ml_notify (jb_replay_log job))\<rparr>\<rparr>) (job_lookup (en_jobs eng) jid)
     else job_lookup (en_jobs eng) k)"
    using update_job_lookup [OF assms] update_job_lookup [OF inv get]
    by (auto simp: finish_job_def Let_def finish_write_update finish_notify_update finish_remove_def
        option.map_comp o_def)
  show "job_store_inv (en_jobs (finish_job now eng jid sid h st))"
    using update_job_inv [OF inv get]
    by (simp add: finish_job_def Let_def finish_write_update finish_notify_update finish_remove_def same_job_def)
  show "en_cancels (finish_job now eng jid sid h st) jid = None"
    by (simp add: finish_job_def Let_def finish_remove_def)
qed

text \<open>The job after \<open>finish_job\<close>, when only its log changed since the task began.\<close>

lemma finish_job_log:
  assumes "only_log (en_jobs eng0) jid h (en_jobs eng)" and "job_log (en_jobs eng) h = Some l"
  shows "\<exists>job. job_lookup (en_jobs (finish_job now eng jid sid h st)) jid = Some job \<and> jb_status job = st \<and>
    ml_events (jb_replay_log job) = ml_events l \<and> ml_byte_cap (jb_replay_log job) = ml_byte_cap l \<and>
    ml_byte_total (jb_replay_log job) = ml_byte_total l \<and> en_cancels (finish_job now eng jid sid h st) jid = None \<and>
    (\<forall>k. k \<noteq> jid \<longrightarrow> job_lookup (en_jobs (finish_job now eng jid sid h st)) k = job_lookup (en_jobs eng0) k)"
proof -
  have get: "job_store_inv (en_jobs eng)" "job_store_get (en_jobs eng) jid = Some h"
    using assms(1) by (simp_all add: only_log_def)
  obtain job where job: "job_lookup (en_jobs eng) jid = Some job" "jb_replay_log job = l"
    using job_log_lookup [OF get(2)] assms(2) by (cases "job_lookup (en_jobs eng) jid") auto
  show ?thesis
    using finish_job_effect [OF get, of now sid st] job assms(1) by (simp add: only_log_def)
qed

text \<open>What a driver leaves when it finishes with the log \<open>l\<close>.\<close>

lemma finish_logged:
  assumes "only_log (en_jobs eng) jid h jobs" and "job_log jobs h = Some l"
    and "eng' = finish_job now eng1 jid sid h st" and "en_jobs eng1 = jobs"
  obtains job where "job_lookup (en_jobs eng') jid = Some job" "jb_status job = st"
    "ml_events (jb_replay_log job) = ml_events l" "ml_byte_cap (jb_replay_log job) = ml_byte_cap l"
    "ml_byte_total (jb_replay_log job) = ml_byte_total l" "en_cancels eng' jid = None"
    "\<forall>k. k \<noteq> jid \<longrightarrow> job_lookup (en_jobs eng') k = job_lookup (en_jobs eng) k"
  using finish_job_log [of eng jid h eng1 l now sid st] assms by auto

lemma only_log_refl:
  "job_store_inv jobs \<Longrightarrow> job_store_get jobs jid = Some h \<Longrightarrow> only_log jobs jid h jobs"
  by (simp add: only_log_def log_kept_def)

lemma log_ok_cong:
  "ml_events l = ml_events l' \<Longrightarrow> ml_byte_cap l = ml_byte_cap l' \<Longrightarrow> ml_byte_total l = ml_byte_total l' \<Longrightarrow>
     log_ok cap l = log_ok cap l'"
  by (simp add: log_ok_def)

lemma stream_data_cong: "ml_events l = ml_events l' \<Longrightarrow> stream_data st l = stream_data st l'"
  by (simp add: stream_data_def)

lemma too_long_cong:
  "ml_byte_cap l = ml_byte_cap l' \<Longrightarrow> ml_byte_total l = ml_byte_total l' \<Longrightarrow> too_long l d = too_long l' d"
  by (simp add: too_long_def)

section \<open>Properties of run_to_completion\<close>

primrec wait_status :: "(string, i32 option) result \<Rightarrow> job_status" where
  "wait_status (Inl e) = Failed e"
| "wait_status (Inr c) = (case c of Some code \<Rightarrow> Exited code | None \<Rightarrow> Killed)"

primrec pipe_of :: "pipe \<Rightarrow> pipe \<Rightarrow> log_stream \<Rightarrow> byte list list" where
  "pipe_of out err Stdout = (case out of None \<Rightarrow> [] | Some rs \<Rightarrow> pipe_output rs)"
| "pipe_of out err Stderr = (case err of None \<Rightarrow> [] | Some rs \<Rightarrow> pipe_output rs)"

lemma drain_init_ok:
  "job_log jobs h = Some l0 \<Longrightarrow> drain_ok h l0 (pipe_of out err) (drain_init jobs out err)"
  unfolding drain_ok_def
proof (intro conjI exI [of _ l0] allI)
  show "stream_data st l0 @ ds_rest st (drain_init jobs out err) = stream_data st l0 @ pipe_of out err st" for st
    by (cases st) (auto simp: drain_init_def pipe_rest_def split: option.split)
qed (simp_all add: drain_init_def)

text \<open>The drain loop from its start: what it leaves in the job, and when it was cancelled.\<close>

lemma drain_loop_end:
  assumes "only_log jobs jid h jobs" and "job_log jobs h = Some l0"
    and "drain_loop h rounds (drain_init jobs out err) = Some s"
  obtains l where "job_log (ds_jobs s) h = Some l" "only_log jobs jid h (ds_jobs s)"
    "ds_cancelled s \<Longrightarrow> \<exists>r \<in> set rounds. rd_cancel r" "\<And>st. ds_rest st s = []"
    "drain_ok h l0 (pipe_of out err) s \<or> drain_over h l0 (pipe_of out err) s"
proof -
  have "only_log jobs jid h (ds_jobs (drain_init jobs out err))" using assms(1) by (simp add: drain_init_def)
  from drain_loop_only [OF assms(3) this]
  have only: "only_log jobs jid h (ds_jobs s)" "ds_cancelled s \<Longrightarrow> \<exists>r \<in> set rounds. rd_cancel r"
    by (auto simp: drain_init_def)
  from drain_loop_cases [OF assms(3) drain_init_ok [OF assms(2)]]
  have cases: "ds_out_done s" "ds_err_done s"
      "drain_ok h l0 (pipe_of out err) s \<or> drain_over h l0 (pipe_of out err) s"
    by auto
  moreover have "ds_rest st s = []" for st using cases(1,2) by (cases st) (simp_all add: pipe_rest_def)
  moreover obtain l where "job_log (ds_jobs s) h = Some l" using cases(3) by (auto simp: drain_ok_def drain_over_def)
  ultimately show ?thesis using only that by blast
qed

text \<open>What \<open>run_to_completion\<close> leaves, in terms of the drain loop's last state.\<close>

lemma drain_status_terminal: "status_is_terminal (drain_status s w)"
  by (cases w) (simp_all add: drain_status_def split: option.split)

lemma run_to_completion_end:
  fixes eng :: "'j job_engine"
  assumes "job_store_inv (en_jobs eng)" and "job_store_get (en_jobs eng) (tk_job_id task) = Some (tk_handle task)"
    and "job_lookup (en_jobs eng) (tk_job_id task) = Some job0"
    and "run_to_completion now eng task out err rounds w = Some eng'"
  obtains s :: "'j drain_state" and l job where "job_log (ds_jobs s) (tk_handle task) = Some l"
    and "ds_cancelled s \<Longrightarrow> \<exists>r \<in> set rounds. rd_cancel r" and "\<And>st. ds_rest st s = []"
    and "drain_ok (tk_handle task) (jb_replay_log job0) (pipe_of out err) s \<or>
      drain_over (tk_handle task) (jb_replay_log job0) (pipe_of out err) s"
    and "job_lookup (en_jobs eng') (tk_job_id task) = Some job" and "jb_status job = drain_status s w"
    and "ml_events (jb_replay_log job) = ml_events l" and "ml_byte_cap (jb_replay_log job) = ml_byte_cap l"
    and "ml_byte_total (jb_replay_log job) = ml_byte_total l"
    and "\<And>cap. log_ok cap (jb_replay_log job0) \<Longrightarrow> log_ok cap (jb_replay_log job)"
    and "en_cancels eng' (tk_job_id task) = None"
    and "\<forall>k. k \<noteq> tk_job_id task \<longrightarrow> job_lookup (en_jobs eng') k = job_lookup (en_jobs eng) k"
proof -
  let ?jid = "tk_job_id task" and ?h = "tk_handle task" and ?l0 = "jb_replay_log job0"
  obtain s where s: "drain_loop ?h rounds (drain_init (en_jobs eng) out err) = Some s"
      and eng': "eng' = finish_job now (eng\<lparr>en_jobs := ds_jobs s\<rparr>) ?jid (tk_session_id task) ?h (drain_status s w)"
    using assms(4) by (auto simp: run_to_completion_def)
  have l0: "job_log (en_jobs eng) ?h = Some ?l0" using job_log_lookup [OF assms(2)] assms(3) by simp
  from drain_loop_end [OF only_log_refl [OF assms(1,2)] l0 s]
  obtain l where l: "job_log (ds_jobs s) ?h = Some l" and only: "only_log (en_jobs eng) ?jid ?h (ds_jobs s)"
      and rest: "ds_cancelled s \<Longrightarrow> \<exists>r \<in> set rounds. rd_cancel r" "\<And>st. ds_rest st s = []"
        "drain_ok ?h ?l0 (pipe_of out err) s \<or> drain_over ?h ?l0 (pipe_of out err) s"
    by blast
  from finish_logged [OF only l eng'] obtain job where job: "job_lookup (en_jobs eng') ?jid = Some job"
      "jb_status job = drain_status s w" "ml_events (jb_replay_log job) = ml_events l"
      "ml_byte_cap (jb_replay_log job) = ml_byte_cap l" "ml_byte_total (jb_replay_log job) = ml_byte_total l"
      "en_cancels eng' ?jid = None" "\<forall>k. k \<noteq> ?jid \<longrightarrow> job_lookup (en_jobs eng') k = job_lookup (en_jobs eng) k"
    by auto
  have kept: "log_ok cap (jb_replay_log job)" if "log_ok cap ?l0" for cap
    using only l l0 that log_ok_cong [OF job(3-5)] by (auto simp: only_log_def log_kept_def)
  show ?thesis by (rule that [of s l job]) (fact l rest job kept)+
qed

text \<open>Output that fits the cap never overflows the log.\<close>

definition output_bytes :: "pipe \<Rightarrow> pipe \<Rightarrow> nat" where
  "output_bytes out err =
     sum_list (map length (pipe_of out err Stdout)) + sum_list (map length (pipe_of out err Stderr))"

lemma streams_total:
  "data_total (ml_events l) =
     sum_list (map length (stream_data Stdout l)) + sum_list (map length (stream_data Stderr l))"
  "length (ml_events l) = length (stream_data Stdout l) + length (stream_data Stderr l)"
proof -
  have "data_total evs = sum_list (map length (map ev_data (filter (\<lambda>e. ev_stream e = Stdout) evs))) +
      sum_list (map length (map ev_data (filter (\<lambda>e. ev_stream e = Stderr) evs))) \<and>
    length evs = length (filter (\<lambda>e. ev_stream e = Stdout) evs) + length (filter (\<lambda>e. ev_stream e = Stderr) evs)" for evs
  proof (induction evs)
    case (Cons e evs)
    then show ?case by (cases "ev_stream e") simp_all
  qed simp
  from this [of "ml_events l"] show "data_total (ml_events l) =
      sum_list (map length (stream_data Stdout l)) + sum_list (map length (stream_data Stderr l))"
    and "length (ml_events l) = length (stream_data Stdout l) + length (stream_data Stderr l)"
    by (simp_all add: stream_data_def)
qed

lemma fits_not_over:
  assumes "stream_data st l @ d # rest = pipe_of out err st" and "\<And>st. prefix (stream_data st l) (pipe_of out err st)"
    and "log_ok cap l" and "output_bytes out err \<le> min cap usize_max"
  shows "\<not> too_long l d"
proof -
  let ?n = "\<lambda>xs. sum_list (map length xs)"
  have part: "?n (stream_data s l) \<le> ?n (pipe_of out err s)" for s
    using assms(2) [of s] by (auto simp: prefix_def)
  have "?n (stream_data st l) + length d \<le> ?n (pipe_of out err st)"
    using arg_cong [OF assms(1), of ?n] by simp
  then have "data_total (ml_events l) + length d \<le> output_bytes out err"
    using part [of Stdout] part [of Stderr] by (cases st) (simp_all add: streams_total(1) output_bytes_def)
  then show ?thesis using assms(3,4) by (simp add: too_long_def log_ok_def min_def split: if_splits)
qed

lemma run_to_completion_fits:
  assumes "job_store_inv (en_jobs eng)" and "job_store_get (en_jobs eng) (tk_job_id task) = Some (tk_handle task)"
    and "job_lookup (en_jobs eng) (tk_job_id task) = Some job0"
    and "run_to_completion now eng task out err rounds w = Some eng'"
    and "ml_events (jb_replay_log job0) = []" and "log_ok cap (jb_replay_log job0)"
    and "output_bytes out err \<le> min cap usize_max"
  obtains job where "job_lookup (en_jobs eng') (tk_job_id task) = Some job"
    and "jb_status job = wait_status w \<or> jb_status job = Killed \<and> (\<exists>r \<in> set rounds. rd_cancel r)"
    and "status_is_terminal (jb_status job)" and "log_ok cap (jb_replay_log job)"
    and "\<And>st. stream_data st (jb_replay_log job) = pipe_of out err st"
proof (rule run_to_completion_end [OF assms(1-4)])
  let ?l0 = "jb_replay_log job0"
  fix s :: "'a drain_state" and l job
  assume l: "job_log (ds_jobs s) (tk_handle task) = Some l"
    and cancelled: "ds_cancelled s \<Longrightarrow> \<exists>r \<in> set rounds. rd_cancel r" and rest: "\<And>st. ds_rest st s = []"
    and cases: "drain_ok (tk_handle task) ?l0 (pipe_of out err) s \<or> drain_over (tk_handle task) ?l0 (pipe_of out err) s"
    and job: "job_lookup (en_jobs eng') (tk_job_id task) = Some job" "jb_status job = drain_status s w"
      "ml_events (jb_replay_log job) = ml_events l" "ml_byte_cap (jb_replay_log job) = ml_byte_cap l"
      "ml_byte_total (jb_replay_log job) = ml_byte_total l"
    and kept: "\<And>cap. log_ok cap ?l0 \<Longrightarrow> log_ok cap (jb_replay_log job)"
  have empty: "stream_data st ?l0 = []" for st using assms(5) by (simp add: stream_data_def)
  have ok: "log_ok cap l" using kept [OF assms(6)] log_ok_cong [OF job(3-5)] by simp
  have "\<not> drain_over (tk_handle task) ?l0 (pipe_of out err) s"
    using fits_not_over [OF _ _ ok assms(7)] l by (auto simp: drain_over_def empty)
  then have drained: "drain_ok (tk_handle task) ?l0 (pipe_of out err) s" using cases by blast
  have "stream_data st (jb_replay_log job) = pipe_of out err st" for st
    using drained l rest stream_data_cong [OF job(3)] by (auto simp: drain_ok_def empty)
  moreover have "jb_status job = wait_status w \<or> jb_status job = Killed \<and> (\<exists>r \<in> set rounds. rd_cancel r)"
    using job(2) drained cancelled by (cases w) (auto simp: drain_status_def drain_ok_def split: option.split)
  ultimately show ?thesis using that job(1,2) kept [OF assms(6)] drain_status_terminal by metis
qed

lemma run_to_completion_sessions:
  "run_to_completion now eng task out err rounds w = Some eng' \<Longrightarrow>
     \<exists>k. en_sessions eng' = audited_sessions now (en_sessions eng) (tk_session_id task) k"
  by (auto simp: run_to_completion_def finish_job_def Let_def finish_remove_def finish_write_update finish_notify_update)

text \<open>C9: Draining a child process records its output: when the task ends, the job is stored with a
  terminal status and no cancel entry, other jobs are untouched and earlier events kept, and either
  every chunk both pipes delivered is in the log, per stream, once and in order, and the status is
  the exit status (or \<open>Killed\<close>, only if a cancel arrived); or the status is \<open>Failed\<close> with
  "log buffer overflow", some chunk really exceeded the cap, and the log holds what came before it.\<close>

theorem run_to_completion_records:
  assumes "job_store_inv (en_jobs eng)" and "job_store_get (en_jobs eng) (tk_job_id task) = Some (tk_handle task)"
    and "job_lookup (en_jobs eng) (tk_job_id task) = Some job0"
    and "run_to_completion now eng task out err rounds w = Some eng'"
  shows "\<exists>job. job_lookup (en_jobs eng') (tk_job_id task) = Some job \<and> en_cancels eng' (tk_job_id task) = None \<and>
    (\<forall>k. k \<noteq> tk_job_id task \<longrightarrow> job_lookup (en_jobs eng') k = job_lookup (en_jobs eng) k) \<and>
    prefix (ml_events (jb_replay_log job0)) (ml_events (jb_replay_log job)) \<and>
    ((jb_status job = wait_status w \<or> jb_status job = Killed \<and> (\<exists>r \<in> set rounds. rd_cancel r)) \<and>
       (\<forall>st. stream_data st (jb_replay_log job) = stream_data st (jb_replay_log job0) @ pipe_of out err st) \<or>
     jb_status job = Failed ''log buffer overflow'' \<and>
       (\<forall>st. prefix (stream_data st (jb_replay_log job)) (stream_data st (jb_replay_log job0) @ pipe_of out err st)) \<and>
       (\<exists>d st rest. too_long (jb_replay_log job) d \<and>
          stream_data st (jb_replay_log job) @ d # rest = stream_data st (jb_replay_log job0) @ pipe_of out err st))"
proof (rule run_to_completion_end [OF assms])
  let ?jid = "tk_job_id task" and ?h = "tk_handle task" and ?l0 = "jb_replay_log job0"
  fix s :: "'a drain_state" and l job
  assume l: "job_log (ds_jobs s) ?h = Some l"
    and cancelled: "ds_cancelled s \<Longrightarrow> \<exists>r \<in> set rounds. rd_cancel r" and rest: "\<And>st. ds_rest st s = []"
    and cases: "drain_ok ?h ?l0 (pipe_of out err) s \<or> drain_over ?h ?l0 (pipe_of out err) s"
    and job: "job_lookup (en_jobs eng') ?jid = Some job" "jb_status job = drain_status s w"
      "ml_events (jb_replay_log job) = ml_events l" "ml_byte_cap (jb_replay_log job) = ml_byte_cap l"
      "ml_byte_total (jb_replay_log job) = ml_byte_total l" "en_cancels eng' ?jid = None"
      "\<forall>k. k \<noteq> ?jid \<longrightarrow> job_lookup (en_jobs eng') k = job_lookup (en_jobs eng) k"
  note sd = stream_data_cong [OF job(3)] and tl = too_long_cong [OF job(4,5)]
  from cases show ?thesis
  proof
    assume ok: "drain_ok ?h ?l0 (pipe_of out err) s"
    then have "stream_data st (jb_replay_log job) = stream_data st ?l0 @ pipe_of out err st" for st
      using rest l by (auto simp: drain_ok_def sd)
    moreover have "jb_status job = wait_status w \<or> jb_status job = Killed \<and> (\<exists>r \<in> set rounds. rd_cancel r)"
      using job(2) ok cancelled
      by (cases w) (auto simp: drain_status_def drain_ok_def split: option.split)
    moreover have "prefix (ml_events ?l0) (ml_events (jb_replay_log job))"
      using ok l job(3) by (auto simp: drain_ok_def)
    ultimately show ?thesis using job(1,6,7) by blast
  next
    assume over: "drain_over ?h ?l0 (pipe_of out err) s"
    then have "jb_status job = Failed ''log buffer overflow''"
      using job(2) by (simp add: drain_over_def drain_status_def)
    then show ?thesis
      using over l job(1,3,6,7) by (auto simp: drain_over_def sd tl)
  qed
qed

lemma run_to_completion_Some:
  assumes "out \<noteq> None \<or> err \<noteq> None"
    and "3 + length (case out of None \<Rightarrow> [] | Some rs \<Rightarrow> rs) + length (case err of None \<Rightarrow> [] | Some rs \<Rightarrow> rs)
      \<le> length (filter (\<lambda>r. rd_out r \<and> rd_err r) rounds)"
  shows "\<exists>eng'. run_to_completion now eng task out err rounds w = Some eng'"
proof -
  let ?s = "drain_init (en_jobs eng) out err"
  have "drain_left ?s \<le> length (filter (\<lambda>r. rd_out r \<and> rd_err r) rounds)"
    using assms(2) by (auto simp: drain_left_def drain_init_def split: option.splits)
  moreover have "\<not> (ds_out_done ?s \<and> ds_err_done ?s)" using assms(1) by (simp add: drain_init_def)
  ultimately have "drain_loop (tk_handle task) rounds ?s \<noteq> None" by (intro drain_loop_returns)
  then show ?thesis by (auto simp: run_to_completion_def)
qed

text \<open>A stored, running job with a log of 100 bytes, and its task, for the witnesses.\<close>

definition wit_run_engine :: "unit job_engine" where
  "wit_run_engine = (engine_new am_empty (fst (job_store_insert job_store_new wit_job)) registry_new)
     \<lparr>en_interrupts := [False]\<rparr>"

definition wit_run_task :: job_task where
  "wit_run_task = \<lparr>tk_job_id = JobId ''j_1'', tk_session_id = SessionId ''s'', tk_handle = 0, tk_signal = 0,
     tk_work = WProcess \<lparr>cc_program = ''sh'', cc_args = [''-c'', ''ls''], cc_cwd = ''/w'', cc_hooks = []\<rparr>\<rparr>"

lemma wit_run_task_sel [simp]:
  "tk_job_id wit_run_task = JobId ''j_1''" "tk_session_id wit_run_task = SessionId ''s''" "tk_handle wit_run_task = 0"
  by (simp_all add: wit_run_task_def)

lemma wit_run_jobs:
  "en_jobs wit_run_engine = fst (job_store_insert job_store_new wit_job)"
  "en_sessions wit_run_engine = am_empty" "en_interrupts wit_run_engine = [False]"
  by (simp_all add: wit_run_engine_def engine_new_def)

lemmas wit_run_eval = wit_run_jobs job_store_insert_def job_store_new_def am_insert_def am_empty_def am_read_def
  am_write_def am_get_def am_lookup_def job_lookup_def job_read_def job_write_def job_store_get_def wit_job_def job_new_def
  mem_with_cap_def Let_def

lemma wit_run:
  "job_store_inv (en_jobs wit_run_engine)"
  "job_store_get (en_jobs wit_run_engine) (tk_job_id wit_run_task) = Some (tk_handle wit_run_task)"
  "job_lookup (en_jobs wit_run_engine) (tk_job_id wit_run_task) = Some wit_job"
proof -
  have "job_lookup job_store_new (jb_id wit_job) = None"
    by (simp add: job_lookup_def job_store_new_def am_lookup_def am_empty_def am_get_def)
  from job_insert_inv [OF job_store_new_inv surjective_pairing this]
  show "job_store_inv (en_jobs wit_run_engine)" by (simp add: wit_run_jobs)
qed (simp_all add: wit_run_eval)

definition wit_rounds :: "drain_round list" where
  "wit_rounds = replicate 4 \<lparr>rd_cancel = False, rd_out = True, rd_err = True, rd_now = 0\<rparr>"

lemma wit_rounds_eq: "wit_rounds = (let r = \<lparr>rd_cancel = False, rd_out = True, rd_err = True, rd_now = 0\<rparr> in [r, r, r, r])"
  by (simp add: wit_rounds_def numeral_eq_Suc Let_def)

text \<open>How the run of a small output and of one over the cap ends.\<close>

definition run_status :: "'j job_engine option \<Rightarrow> job_id \<Rightarrow> job_status option" where
  "run_status r jid = Option.bind r (\<lambda>eng. map_option jb_status (job_lookup (en_jobs eng) jid))"

lemmas drain_eval = run_to_completion_def drain_init_def drain_select_def drain_stdout_def drain_stderr_def
  drain_overflow_def drain_status_def read_into_def push_log_def mem_append_def checked_add_usize_def usize_max_def
  finish_job_def finish_write_def finish_notify_def finish_remove_def record_session_audit_def store_get_def

lemma wit_run_status:
  "run_status (run_to_completion 0 wit_run_engine wit_run_task (Some [Read [104, 105]]) (Some []) wit_rounds
     (Inr (Some 3))) (JobId ''j_1'') = Some (Exited 3)"
  "run_status (run_to_completion 0 wit_run_engine wit_run_task (Some [Read (replicate 101 0)]) (Some []) wit_rounds
     (Inr (Some 3))) (JobId ''j_1'') = Some (Failed ''log buffer overflow'')"
  by (simp_all add: run_status_def wit_rounds_eq drain_eval wit_run_eval)

lemma run_status_Some:
  "run_status r jid = Some st \<Longrightarrow>
     \<exists>eng job. r = Some eng \<and> job_lookup (en_jobs eng) jid = Some job \<and> jb_status job = st"
  by (cases r) (auto simp: run_status_def)

lemma run_to_completion_records_witness:
  "(\<exists>eng job. run_to_completion 0 wit_run_engine wit_run_task (Some [Read [104, 105]]) (Some []) wit_rounds
        (Inr (Some 3)) = Some eng \<and> job_lookup (en_jobs eng) (JobId ''j_1'') = Some job \<and>
      jb_status job = Exited 3 \<and> stream_data Stdout (jb_replay_log job) = [[104, 105]] \<and>
      en_cancels eng (JobId ''j_1'') = None) \<and>
   (\<exists>eng job. run_to_completion 0 wit_run_engine wit_run_task (Some [Read (replicate 101 0)]) (Some []) wit_rounds
        (Inr (Some 3)) = Some eng \<and> job_lookup (en_jobs eng) (JobId ''j_1'') = Some job \<and>
      jb_status job = Failed ''log buffer overflow'' \<and> (\<exists>d. too_long (jb_replay_log job) d))"
proof
  from run_status_Some [OF wit_run_status(1)] obtain eng job where r:
      "run_to_completion 0 wit_run_engine wit_run_task (Some [Read [104, 105]]) (Some []) wit_rounds (Inr (Some 3)) = Some eng"
      "job_lookup (en_jobs eng) (JobId ''j_1'') = Some job" "jb_status job = Exited 3"
    by blast
  have "stream_data Stdout (jb_replay_log wit_job) = []"
    by (simp add: stream_data_def wit_job_def mem_with_cap_def)
  then show "\<exists>eng job. run_to_completion 0 wit_run_engine wit_run_task (Some [Read [104, 105]]) (Some []) wit_rounds
        (Inr (Some 3)) = Some eng \<and> job_lookup (en_jobs eng) (JobId ''j_1'') = Some job \<and>
      jb_status job = Exited 3 \<and> stream_data Stdout (jb_replay_log job) = [[104, 105]] \<and>
      en_cancels eng (JobId ''j_1'') = None"
    using run_to_completion_records [OF wit_run r(1)] r by auto
next
  from run_status_Some [OF wit_run_status(2)] obtain eng job where r:
      "run_to_completion 0 wit_run_engine wit_run_task (Some [Read (replicate 101 0)]) (Some []) wit_rounds
        (Inr (Some 3)) = Some eng"
      "job_lookup (en_jobs eng) (JobId ''j_1'') = Some job" "jb_status job = Failed ''log buffer overflow''"
    by blast
  then show "\<exists>eng job. run_to_completion 0 wit_run_engine wit_run_task (Some [Read (replicate 101 0)]) (Some []) wit_rounds
        (Inr (Some 3)) = Some eng \<and> job_lookup (en_jobs eng) (JobId ''j_1'') = Some job \<and>
      jb_status job = Failed ''log buffer overflow'' \<and> (\<exists>d. too_long (jb_replay_log job) d)"
    using run_to_completion_records [OF wit_run r(1)] by auto
qed

text \<open>Draining ends: once the child's pipes are ready often enough for their scripts to be read to the
  end (in any schedule, with any cancel), \<open>run_to_completion\<close> finishes the job.\<close>

theorem run_to_completion_returns:
  assumes "out \<noteq> None \<or> err \<noteq> None"
    and "3 + length (case out of None \<Rightarrow> [] | Some rs \<Rightarrow> rs) + length (case err of None \<Rightarrow> [] | Some rs \<Rightarrow> rs)
      \<le> length (filter (\<lambda>r. rd_out r \<and> rd_err r) rounds)"
  shows "\<exists>eng'. run_to_completion now eng task out err rounds w = Some eng'"
  using assms by (rule run_to_completion_Some)

lemma run_to_completion_returns_witness:
  "\<exists>eng'. run_to_completion 0 wit_run_engine wit_run_task (Some []) (Some []) wit_rounds (Inr (Some 3)) = Some eng'"
  by (rule run_to_completion_returns) (simp_all add: wit_rounds_def)

section \<open>Properties of run_code_to_completion\<close>

definition with_newline :: "byte list \<Rightarrow> byte list" where
  "with_newline t = (if ends_with t [10] then t else t @ [10])"

text \<open>One event was appended, or it did not fit and the log is unchanged.\<close>

definition one_event :: "mem_log \<Rightarrow> log_stream \<Rightarrow> byte list \<Rightarrow> mem_log \<Rightarrow> bool" where
  "one_event l0 st d l \<longleftrightarrow> (\<exists>ev. ml_events l = ml_events l0 @ [ev] \<and> ev_stream ev = st \<and> ev_data ev = d)"

definition code_outcome :: "(string \<Rightarrow> string) \<Rightarrow> mem_log \<Rightarrow> run_joined \<Rightarrow> mem_log \<Rightarrow> job_status \<Rightarrow> bool" where
  "code_outcome dbg l0 j l st \<longleftrightarrow>
     (case j of
        RunOk None \<Rightarrow> st = Exited 0 \<and> ml_events l = ml_events l0
      | RunOk (Some res) \<Rightarrow>
          one_event l0 Stdout (with_newline (str_bytes res)) l \<and> st = Exited 0 \<or>
          too_long l0 (with_newline (str_bytes res)) \<and> ml_events l = ml_events l0 \<and>
            st = Failed (core_error_display dbg (LogBufferOverflow (ml_byte_cap l0)))
      | RunErr reason \<Rightarrow> st = Failed reason \<and> (one_event l0 Stderr (with_newline (str_bytes reason)) l \<or>
            too_long l0 (with_newline (str_bytes reason)) \<and> ml_events l = ml_events l0)
      | JoinErr reason \<Rightarrow> st = Failed reason \<and> (one_event l0 Stderr (with_newline (str_bytes reason)) l \<or>
            too_long l0 (with_newline (str_bytes reason)) \<and> ml_events l = ml_events l0))"

lemma push_text_cases:
  assumes "job_log jobs h = Some l0" and "push_text_result now jobs h st t = (jobs', r)"
  shows "(\<exists>l. job_log jobs' h = Some l \<and> one_event l0 st (with_newline t) l \<and> r = Inr ()) \<or>
    job_log jobs' h = Some l0 \<and> too_long l0 (with_newline t) \<and> r = Inl (LogBufferOverflow (ml_byte_cap l0))"
  using push_log_cases [OF assms(1), of now st "with_newline t" jobs' r] assms(2)
  by (auto simp: push_text_result_def with_newline_def one_event_def pushed_def Let_def)

lemma push_text_only:
  "only_log jobs0 jid h jobs \<Longrightarrow> only_log jobs0 jid h (fst (push_text_result now jobs h st t))"
  by (simp add: push_text_result_def push_log_only Let_def)

lemma code_joined_cases:
  assumes "code_joined now jobs h dbg j = (jobs', st)" and "job_log jobs h = Some l0"
    and "only_log jobs0 jid h jobs"
  shows "only_log jobs0 jid h jobs' \<and> status_is_terminal st \<and>
    (\<exists>l. job_log jobs' h = Some l \<and> code_outcome dbg l0 j l st)"
proof -
  note only = push_text_only [OF assms(3)]
  have push: "\<exists>l. job_log (fst (push_text_result now jobs h s t)) h = Some l \<and>
      (one_event l0 s (with_newline t) l \<or> too_long l0 (with_newline t) \<and> ml_events l = ml_events l0)" for s t
    using push_text_cases [OF assms(2) surjective_pairing, of now s t] by auto
  show ?thesis
  proof (cases j)
    case (RunOk res)
    show ?thesis
    proof (cases res)
      case None
      then show ?thesis using assms RunOk by (auto simp: code_joined_def code_outcome_def)
    next
      case (Some t)
      obtain jobs1 r where p: "push_text_result now jobs h Stdout (str_bytes t) = (jobs1, r)" by fastforce
      have "only_log jobs0 jid h jobs1" using only [of now Stdout "str_bytes t"] p by simp
      then show ?thesis
        using push_text_cases [OF assms(2) p] assms(1) RunOk Some p
        by (auto simp: code_joined_def code_outcome_def)
    qed
  qed (use assms(1) only push in \<open>auto simp: code_joined_def code_outcome_def\<close>)
qed

text \<open>C35: A component's job ends as its run did: if the cancel signal was there first, the interrupt flag
  is set, nothing is logged, whatever the run still returned, and the status is \<open>Killed\<close>; otherwise a result is logged on stdout with
  a final newline and the exit code is 0, no result logs nothing, an error (of the component or of
  its thread) is logged on stderr and is the reason of \<open>Failed\<close>, and a result over the cap fails the
  job without being logged. The cancel entry is gone and other jobs are untouched.\<close>

theorem run_code_to_completion_outcome:
  assumes "job_store_inv (en_jobs eng)" and "job_store_get (en_jobs eng) (tk_job_id task) = Some (tk_handle task)"
    and "job_lookup (en_jobs eng) (tk_job_id task) = Some job0" and "interrupt < length (en_interrupts eng)"
    and "run_code_to_completion now dbg eng task interrupt rounds = Some eng'"
  shows "\<exists>job arm. code_select rounds = Some arm \<and>
    job_lookup (en_jobs eng') (tk_job_id task) = Some job \<and> en_cancels eng' (tk_job_id task) = None \<and>
    (\<forall>k. k \<noteq> tk_job_id task \<longrightarrow> job_lookup (en_jobs eng') k = job_lookup (en_jobs eng) k) \<and>
    (case arm of
       Inl _ \<Rightarrow> jb_status job = Killed \<and> en_interrupts eng' ! interrupt \<and>
         ml_events (jb_replay_log job) = ml_events (jb_replay_log job0)
     | Inr j \<Rightarrow> status_is_terminal (jb_status job) \<and>
         code_outcome dbg (jb_replay_log job0) j (jb_replay_log job) (jb_status job))"
proof -
  let ?jid = "tk_job_id task" and ?h = "tk_handle task" and ?l0 = "jb_replay_log job0"
  have log: "job_log (en_jobs eng) ?h = Some ?l0" using job_log_lookup [OF assms(2)] assms(3) by simp
  note only = only_log_refl [OF assms(1,2)]
  obtain arm where arm: "code_select rounds = Some arm"
    using assms(5) by (auto simp: run_code_to_completion_def split: option.splits)
  show ?thesis
  proof (cases arm)
    case (Inl u)
    let ?eng = "eng\<lparr>en_interrupts := set_cell (en_interrupts eng) (Some interrupt)\<rparr>"
    have eng': "eng' = finish_job now ?eng ?jid (tk_session_id task) ?h Killed"
      using assms(5) arm Inl by (simp add: run_code_to_completion_def Let_def split: option.splits)
    from finish_logged [OF only log eng'] obtain job where job: "job_lookup (en_jobs eng') ?jid = Some job" "jb_status job = Killed"
        "ml_events (jb_replay_log job) = ml_events ?l0" "en_cancels eng' ?jid = None"
        "\<forall>k. k \<noteq> ?jid \<longrightarrow> job_lookup (en_jobs eng') k = job_lookup (en_jobs eng) k"
      by auto
    have "en_interrupts eng' ! interrupt"
      using assms(4) by (simp add: eng' finish_job_def finish_write_update finish_notify_update
          finish_remove_def set_cell_def Let_def)
    then show ?thesis using arm Inl job by auto
  next
    case (Inr j)
    obtain jobs st where cj: "code_joined now (en_jobs eng) ?h dbg j = (jobs, st)" by fastforce
    have eng': "eng' = finish_job now (eng\<lparr>en_jobs := jobs\<rparr>) ?jid (tk_session_id task) ?h st"
      using assms(5) arm Inr cj by (simp add: run_code_to_completion_def)
    from code_joined_cases [OF cj log only] obtain l where l: "only_log (en_jobs eng) ?jid ?h jobs"
        "status_is_terminal st" "job_log jobs ?h = Some l" "code_outcome dbg ?l0 j l st"
      by blast
    from finish_logged [OF l(1,3) eng'] obtain job where job: "job_lookup (en_jobs eng') ?jid = Some job"
        "jb_status job = st" "ml_events (jb_replay_log job) = ml_events l" "en_cancels eng' ?jid = None"
        "\<forall>k. k \<noteq> ?jid \<longrightarrow> job_lookup (en_jobs eng') k = job_lookup (en_jobs eng) k"
      by auto
    then have "code_outcome dbg ?l0 j (jb_replay_log job) st"
      using l(4) by (simp add: code_outcome_def one_event_def split: run_joined.splits option.splits)
    then show ?thesis using arm Inr job l(2) by auto
  qed
qed

lemma run_code_to_completion_outcome_witness:
  "\<exists>eng job. run_code_to_completion 0 (\<lambda>s. s) wit_run_engine wit_run_task 0
        [\<lparr>cr_cancel = False, cr_joined = Some (RunErr ''trap'')\<rparr>] = Some eng \<and>
     job_lookup (en_jobs eng) (JobId ''j_1'') = Some job \<and> jb_status job = Failed ''trap''"
proof -
  let ?rounds = "[\<lparr>cr_cancel = False, cr_joined = Some (RunErr ''trap'')\<rparr>]"
  have cell: "0 < length (en_interrupts wit_run_engine)" by (simp add: wit_run_jobs)
  obtain eng where r: "run_code_to_completion 0 (\<lambda>s. s) wit_run_engine wit_run_task 0 ?rounds = Some eng"
    by (simp add: run_code_to_completion_def code_joined_def)
  from run_code_to_completion_outcome [OF wit_run cell r] r show ?thesis by (auto simp: code_outcome_def)
qed

end
