(* ===== verification/Code_Capability.thy ===== *)
theory Code_Capability
  imports Drain
begin

text \<open>
  The host call of a component in \<open>axp-core/src/job/engine.rs\<close>: \<open>invoke_code_capability\<close>,
  \<open>run_resolved_command_sync\<close> and \<open>run_resolved_command\<close>. The \<open>select!\<close> loop is a
  recursion over what happens next: the timer ticks (with the cancel flag and what \<open>try_wait\<close>
  answers at that moment) or a read of stdout returns. \<open>String::from_utf8\<close> is written out after
  the standard library's validation, with its error messages.
\<close>

section \<open>UTF-8\<close>

definition byte_in :: "nat \<Rightarrow> nat \<Rightarrow> byte \<Rightarrow> bool" where
  "byte_in lo hi b \<longleftrightarrow> lo \<le> unat b \<and> unat b \<le> hi"

text \<open>
  The bytes from position \<open>k\<close> on: the first in its range, the others continuation bytes.
  \<open>Inl None\<close> when the input ends, \<open>Inl (Some k)\<close> when a byte is out of range.
\<close>

fun utf8_tail :: "nat \<Rightarrow> (nat \<times> nat) list \<Rightarrow> byte list \<Rightarrow> (nat option, nat) result" where
  "utf8_tail k [] s = Inr k"
| "utf8_tail k (r # rs) [] = Inl None"
| "utf8_tail k ((lo, hi) # rs) (b # s) =
     (if byte_in lo hi b then utf8_tail (k + 1) rs s else Inl (Some k))"

definition utf8_char :: "byte \<Rightarrow> byte list \<Rightarrow> (nat option, nat) result" where
  "utf8_char a s =
     (if byte_in 0 0x7F a then Inr 1
      else if byte_in 0xC2 0xDF a then utf8_tail 1 [(0x80, 0xBF)] s
      else if byte_in 0xE0 0xE0 a then utf8_tail 1 [(0xA0, 0xBF), (0x80, 0xBF)] s
      else if byte_in 0xED 0xED a then utf8_tail 1 [(0x80, 0x9F), (0x80, 0xBF)] s
      else if byte_in 0xE1 0xEF a then utf8_tail 1 [(0x80, 0xBF), (0x80, 0xBF)] s
      else if byte_in 0xF0 0xF0 a then utf8_tail 1 [(0x90, 0xBF), (0x80, 0xBF), (0x80, 0xBF)] s
      else if byte_in 0xF4 0xF4 a then utf8_tail 1 [(0x80, 0x8F), (0x80, 0xBF), (0x80, 0xBF)] s
      else if byte_in 0xF1 0xF3 a then utf8_tail 1 [(0x80, 0xBF), (0x80, 0xBF), (0x80, 0xBF)] s
      else Inl (Some 1))"

fun utf8_error :: "nat \<Rightarrow> byte list \<Rightarrow> (nat \<times> nat option) option" where
  "utf8_error i [] = None"
| "utf8_error i (a # s) =
     (case utf8_char a s of
        Inr n \<Rightarrow> utf8_error (i + n) (drop (n - 1) s)
      | Inl e \<Rightarrow> Some (i, e))"

definition bytes_str :: "byte list \<Rightarrow> string" where
  "bytes_str bs = map (\<lambda>b. char_of (unat b)) bs"

definition from_utf8 :: "byte list \<Rightarrow> (string, string) result" where
  "from_utf8 bs =
     (case utf8_error 0 bs of
        None \<Rightarrow> Inr (bytes_str bs)
      | Some (i, Some k) \<Rightarrow>
          Inl (''invalid utf-8 sequence of '' @ dec_digits k @ '' bytes from index '' @ dec_digits i)
      | Some (i, None) \<Rightarrow> Inl (''incomplete utf-8 byte sequence from index '' @ dec_digits i))"

lemma str_bytes_inverse [simp]: "str_bytes (bytes_str bs) = bs"
proof -
  have "of_nat (unat b mod 256) = b" for b :: byte
    using unsigned_less [of b, where ?'a = nat] by simp
  then show ?thesis by (simp add: str_bytes_def bytes_str_def o_def map_idI)
qed

lemma from_utf8_Inr: "from_utf8 bs = Inr s \<longleftrightarrow> utf8_error 0 bs = None \<and> s = bytes_str bs"
  by (auto simp: from_utf8_def split: option.splits)

lemma from_utf8_ascii: "\<forall>b \<in> set bs. unat b \<le> 0x7F \<Longrightarrow> from_utf8 bs = Inr (bytes_str bs)"
proof -
  have "\<forall>b \<in> set bs. unat b \<le> 0x7F \<Longrightarrow> utf8_error i bs = None" for i
    by (induction bs arbitrary: i) (simp_all add: utf8_char_def byte_in_def)
  then show "\<forall>b \<in> set bs. unat b \<le> 0x7F \<Longrightarrow> from_utf8 bs = Inr (bytes_str bs)"
    by (simp add: from_utf8_Inr)
qed

section \<open>Running the resolved command\<close>

text \<open>\<open>ExitStatus\<close>: its code, and what its \<open>Display\<close> prints.\<close>

record exit_status =
  xs_code :: "i32 option"
  xs_text :: string

datatype capability_round =
  CTick bool "(string, exit_status option) result"
| CRead read_result

record capability_state =
  cp_bytes :: "byte list"
  cp_stdout_done :: bool
  cp_killed :: bool
  cp_status :: "exit_status option"
  cp_kills :: nat

record 'j capability_env =
  xe_from_json :: "string \<Rightarrow> (string, 'j) result"
  xe_runtime :: "string option"
  xe_lsm :: lsm_env
  xe_spawn :: "child_command \<Rightarrow> string option"
  xe_stdout :: bool

definition capability_init :: capability_state where
  "capability_init = \<lparr>cp_bytes = [], cp_stdout_done = False, cp_killed = False, cp_status = None, cp_kills = 0\<rparr>"

definition start_kill :: "capability_state \<Rightarrow> capability_state" where
  "start_kill s = s\<lparr>cp_kills := Suc (cp_kills s)\<rparr>"

definition capability_tick ::
    "bool \<Rightarrow> (string, exit_status option) result \<Rightarrow> capability_state \<Rightarrow> capability_state \<times> unit core_result" where
  "capability_tick cancelled try_wait s =
     (let s = (if \<not> cp_killed s \<and> cancelled then start_kill (s\<lparr>cp_killed := True\<rparr>) else s) in
      case try_wait of
        Inr (Some es) \<Rightarrow> (s\<lparr>cp_status := Some es\<rparr>, Inr ())
      | Inr None \<Rightarrow> (s, Inr ())
      | Inl e \<Rightarrow> (start_kill s, Inl (JobSpawn e)))"

definition capability_read :: "nat \<Rightarrow> read_result \<Rightarrow> capability_state \<Rightarrow> capability_state \<times> unit core_result" where
  "capability_read cap n s =
     (case n of
        ReadErr e \<Rightarrow> (start_kill s, Inl (JobSpawn e))
      | Read data \<Rightarrow>
          if data = [] then (s\<lparr>cp_stdout_done := True\<rparr>, Inr ())
          else if min usize_max (length (cp_bytes s) + length data) > cap then
            (start_kill s, Inl (LogBufferOverflow cap))
          else (s\<lparr>cp_bytes := cp_bytes s @ data\<rparr>, Inr ()))"

text \<open>A read is polled only while stdout is open.\<close>

definition capability_round :: "nat \<Rightarrow> capability_round \<Rightarrow> capability_state \<Rightarrow> capability_state \<times> unit core_result" where
  "capability_round cap r s =
     (case r of
        CTick cancelled try_wait \<Rightarrow> capability_tick cancelled try_wait s
      | CRead n \<Rightarrow> if cp_stdout_done s then (s, Inr ()) else capability_read cap n s)"

fun capability_loop ::
    "nat \<Rightarrow> capability_round list \<Rightarrow> capability_state \<Rightarrow> (capability_state \<times> unit core_result) option" where
  "capability_loop cap [] s = None"
| "capability_loop cap (r # rs) s =
     (case capability_round cap r s of
        (s, Inl e) \<Rightarrow> Some (s, Inl e)
      | (s, Inr _) \<Rightarrow>
          if cp_status s \<noteq> None \<and> cp_stdout_done s then Some (s, Inr ())
          else capability_loop cap rs s)"

text \<open>After the loop; the flag is read once more.\<close>

definition capability_result :: "capability_state \<Rightarrow> bool \<Rightarrow> string core_result" where
  "capability_result s cancelled =
     rbind (ok_or (cp_status s) (JobSpawn ''capability command status was not available'')) (\<lambda>status.
     if cp_killed s \<or> cancelled then Inl (JobSpawn ''capability command cancelled'')
     else if xs_code status \<noteq> Some 0 then
       Inl (JobSpawn (''capability command exited with '' @ xs_text status))
     else map_err (\<lambda>e. JobSpawn (''capability stdout was not valid UTF-8: '' @ e)) (from_utf8 (cp_bytes s)))"

definition run_resolved_command ::
    "'j capability_env \<Rightarrow> resolved_command \<Rightarrow> string \<Rightarrow> nat \<Rightarrow> sandbox_policy \<Rightarrow> bool \<Rightarrow> capability_round list
      \<Rightarrow> bool \<Rightarrow> string core_result option" where
  "run_resolved_command env resolved cwd cap policy cancelled rounds cancelled_after =
     (if cancelled then Some (Inl (JobSpawn ''capability command cancelled''))
      else
        let cmd = \<lparr>cc_program = rc_program resolved, cc_args = rc_args resolved, cc_cwd = cwd, cc_hooks = []\<rparr>;
            (hooks, applied) = policy_apply (xe_lsm env) policy (cc_hooks cmd);
            cmd = cmd\<lparr>cc_hooks := hooks\<rparr> in
        case map_err sandbox_core_error applied of
          Inl e \<Rightarrow> Some (Inl e)
        | Inr _ \<Rightarrow>
            (case xe_spawn env cmd of
               Some e \<Rightarrow> Some (Inl (JobSpawn e))
             | None \<Rightarrow>
                 if \<not> xe_stdout env then Some (Inl (JobSpawn ''capability stdout pipe was not available''))
                 else (case capability_loop cap rounds capability_init of
                     None \<Rightarrow> None
                   | Some (s, Inl e) \<Rightarrow> Some (Inl e)
                   | Some (s, Inr _) \<Rightarrow> Some (capability_result s cancelled_after))))"

definition run_resolved_command_sync ::
    "'j capability_env \<Rightarrow> resolved_command \<Rightarrow> string \<Rightarrow> nat \<Rightarrow> sandbox_policy \<Rightarrow> bool \<Rightarrow> capability_round list
      \<Rightarrow> bool \<Rightarrow> string core_result option" where
  "run_resolved_command_sync env resolved cwd cap policy cancelled rounds cancelled_after =
     (case xe_runtime env of
        Some e \<Rightarrow> Some (Inl (JobSpawn (''failed to build capability runtime: '' @ e)))
      | None \<Rightarrow> run_resolved_command env resolved cwd cap policy cancelled rounds cancelled_after)"

definition invoke_code_capability ::
    "'j capability_env \<Rightarrow> 'j provider_registry \<Rightarrow> code_capability_context \<Rightarrow> string \<Rightarrow> string \<Rightarrow> bool
      \<Rightarrow> capability_round list \<Rightarrow> bool \<Rightarrow> string core_result option" where
  "invoke_code_capability env reg context name params_json cancelled rounds cancelled_after =
     (if \<not> cs_permits (cx_capabilities context) (Tool name) \<and>
         \<not> cs_permits (cx_capabilities context) ProcSpawn then
        Some (Inl (CapabilityDenied (''tool:'' @ name)))
      else
        case rbind (map_err (\<lambda>e. CapabilityParse params_json (''invalid params JSON: '' @ e))
            (xe_from_json env params_json)) (\<lambda>params. registry_resolve reg name params) of
          Inl e \<Rightarrow> Some (Inl e)
        | Inr resolved \<Rightarrow>
            let policy = (build_sandbox_policy (cx_tier context) (cx_workspace context) (cx_capabilities context))
              \<lparr>sp_allow_proc_spawn := True\<rparr> in
            run_resolved_command_sync env resolved (cx_cwd context) (cx_stdout_byte_cap context) policy
              cancelled rounds cancelled_after)"

section \<open>What a capability call returns\<close>

text \<open>The bytes stdout delivered before its end.\<close>

fun stdout_bytes :: "capability_round list \<Rightarrow> byte list" where
  "stdout_bytes [] = []"
| "stdout_bytes (CTick c tw # rs) = stdout_bytes rs"
| "stdout_bytes (CRead (Read d) # rs) = (if d = [] then [] else d @ stdout_bytes rs)"
| "stdout_bytes (CRead (ReadErr e) # rs) = []"

text \<open>One round that did not fail, and its effect.\<close>

definition round_effect :: "nat \<Rightarrow> capability_round \<Rightarrow> capability_state \<Rightarrow> capability_state \<Rightarrow> bool" where
  "round_effect cap r s s' \<longleftrightarrow>
     cp_killed s' = (cp_killed s \<or> (\<exists>tw. r = CTick True tw)) \<and>
     (cp_status s' = cp_status s \<or> (\<exists>c es. r = CTick c (Inr (Some es)) \<and> cp_status s' = Some es)) \<and>
     (length (cp_bytes s) \<le> cap \<longrightarrow> length (cp_bytes s') \<le> cap) \<and>
     (\<forall>rs. cp_bytes s @ (if cp_stdout_done s then [] else stdout_bytes (r # rs)) =
        cp_bytes s' @ (if cp_stdout_done s' then [] else stdout_bytes rs))"

lemma capability_round_effect:
  "cap < usize_max \<Longrightarrow> capability_round cap r s = (s', Inr u) \<Longrightarrow> round_effect cap r s s'"
  by (auto simp: round_effect_def capability_round_def capability_tick_def capability_read_def start_kill_def Let_def
      split: capability_round.splits read_result.splits sum.splits option.splits if_splits)

definition run_effect :: "nat \<Rightarrow> capability_round list \<Rightarrow> capability_state \<Rightarrow> capability_state \<Rightarrow> bool" where
  "run_effect cap used s s' \<longleftrightarrow>
     cp_killed s' = (cp_killed s \<or> (\<exists>tw. CTick True tw \<in> set used)) \<and>
     (cp_status s' = cp_status s \<or> (\<exists>c es. CTick c (Inr (Some es)) \<in> set used \<and> cp_status s' = Some es)) \<and>
     (length (cp_bytes s) \<le> cap \<longrightarrow> length (cp_bytes s') \<le> cap) \<and>
     cp_bytes s @ (if cp_stdout_done s then [] else stdout_bytes used) = cp_bytes s'"

lemma run_effect_step:
  assumes "round_effect cap r s s1" and "run_effect cap used s1 s'"
  shows "run_effect cap (r # used) s s'"
proof -
  have "cp_bytes s @ (if cp_stdout_done s then [] else stdout_bytes (r # used)) =
      cp_bytes s1 @ (if cp_stdout_done s1 then [] else stdout_bytes used)"
    using assms(1) unfolding round_effect_def by blast
  then show ?thesis using assms unfolding round_effect_def run_effect_def by auto
qed

lemma capability_loop_effect:
  assumes "cap < usize_max"
  shows "capability_loop cap rs s = Some (s', Inr u) \<Longrightarrow>
    \<exists>used rest. rs = used @ rest \<and> run_effect cap used s s' \<and> cp_stdout_done s' \<and> cp_status s' \<noteq> None"
proof (induction rs arbitrary: s)
  case (Cons r rs)
  obtain s1 x where r: "capability_round cap r s = (s1, x)" by fastforce
  then obtain u' where "x = Inr u'" using Cons.prems by (cases x) auto
  then have eff: "round_effect cap r s s1" using r capability_round_effect [OF assms] by blast
  show ?case
  proof (cases "cp_status s1 \<noteq> None \<and> cp_stdout_done s1")
    case True
    then have "s' = s1" using Cons.prems r \<open>x = Inr u'\<close> by auto
    moreover have "run_effect cap [] s1 s1" by (simp add: run_effect_def)
    ultimately show ?thesis
      using True run_effect_step [OF eff] by (intro exI [of _ "[r]"] exI [of _ rs]) simp
  next
    case False
    then have "capability_loop cap rs s1 = Some (s', Inr u)" using Cons.prems r \<open>x = Inr u'\<close> by auto
    from Cons.IH [OF this] obtain used rest where
      "rs = used @ rest" "run_effect cap used s1 s'" "cp_stdout_done s' \<and> cp_status s' \<noteq> None" by blast
    then show ?thesis
      using run_effect_step [OF eff] by (intro exI [of _ "r # used"] exI [of _ rest]) simp
  qed
qed simp

lemma capability_result_Inr:
  "capability_result s c = Inr out \<longleftrightarrow> (\<exists>es. cp_status s = Some es \<and> xs_code es = Some 0 \<and> \<not> cp_killed s \<and> \<not> c \<and>
     utf8_error 0 (cp_bytes s) = None \<and> out = bytes_str (cp_bytes s))"
  by (auto simp: capability_result_def result_simps from_utf8_Inr split: if_splits)

text \<open>The sandbox of a call carries the rules of the session, whatever the tier allows.\<close>

definition context_hooks :: "lsm_env \<Rightarrow> code_capability_context \<Rightarrow> hook list" where
  "context_hooks env cx =
     (if cx_tier cx = DevNone then []
      else [LandlockHook (policy_rules env
              (build_sandbox_policy (cx_tier cx) (cx_workspace cx) (cx_capabilities cx))),
            SeccompHook denied_syscalls])"

lemma policy_rules_spawn [simp]: "policy_rules env (p\<lparr>sp_allow_proc_spawn := b\<rparr>) = policy_rules env p"
  by (simp add: policy_rules_def)

lemma context_policy_hooks:
  assumes "policy_apply env ((build_sandbox_policy (cx_tier cx) (cx_workspace cx) (cx_capabilities cx))
    \<lparr>sp_allow_proc_spawn := True\<rparr>) [] = (hooks, Inr u)"
  shows "cx_tier cx \<in> {DevNone, KernelLsm} \<and> hooks = context_hooks env cx"
proof -
  let ?p = "build_sandbox_policy (cx_tier cx) (cx_workspace cx) (cx_capabilities cx)"
  have tier: "sp_tier ?p = cx_tier cx" by (simp add: build_sandbox_policy_sel)
  show ?thesis
  proof (cases "cx_tier cx")
    case KernelLsm
    then have "sp_tier (?p\<lparr>sp_allow_proc_spawn := True\<rparr>) = KernelLsm" using tier by simp
    from policy_apply_kernel [OF this assms] show ?thesis by (simp add: context_hooks_def KernelLsm)
  qed (use assms tier in \<open>simp_all add: policy_apply_def context_hooks_def\<close>)
qed

text \<open>C31: A component's capability call returns text only when everything was in order: the session's
  grants permit the tool (or \<open>proc.spawn\<close>), the parameters are JSON and the registry resolved the
  name to the command that was spawned, in the session's sandbox; the command ended with exit code
  0, no cancel was seen before, during or after it, and the text is exactly the bytes stdout
  delivered before its end, valid UTF-8 and within the byte cap.\<close>

theorem capability_call_sound:
  assumes "invoke_code_capability env reg cx name params_json cancelled rounds cancelled_after = Some (Inr out)"
    and "cx_stdout_byte_cap cx < usize_max"
  shows "\<exists>params resolved used rest es.
    (cs_permits (cx_capabilities cx) (Tool name) \<or> cs_permits (cx_capabilities cx) ProcSpawn) \<and>
    xe_from_json env params_json = Inr params \<and> registry_resolve reg name params = Inr resolved \<and>
    cx_tier cx \<in> {DevNone, KernelLsm} \<and>
    xe_spawn env \<lparr>cc_program = rc_program resolved, cc_args = rc_args resolved, cc_cwd = cx_cwd cx,
      cc_hooks = context_hooks (xe_lsm env) cx\<rparr> = None \<and>
    rounds = used @ rest \<and> CTick False (Inr (Some es)) \<in> set used \<and> xs_code es = Some 0 \<and>
    \<not> cancelled \<and> (\<forall>tw. CTick True tw \<notin> set used) \<and> \<not> cancelled_after \<and>
    str_bytes out = stdout_bytes used \<and> length out \<le> cx_stdout_byte_cap cx \<and> utf8_error 0 (str_bytes out) = None"
proof -
  let ?policy = "(build_sandbox_policy (cx_tier cx) (cx_workspace cx) (cx_capabilities cx))\<lparr>sp_allow_proc_spawn := True\<rparr>"
  have permitted: "cs_permits (cx_capabilities cx) (Tool name) \<or> cs_permits (cx_capabilities cx) ProcSpawn"
    using assms(1) by (auto simp: invoke_code_capability_def split: if_splits)
  then obtain params resolved where res: "xe_from_json env params_json = Inr params"
      "registry_resolve reg name params = Inr resolved"
      and run: "run_resolved_command_sync env resolved (cx_cwd cx) (cx_stdout_byte_cap cx) ?policy
        cancelled rounds cancelled_after = Some (Inr out)"
    using assms(1) by (auto simp: invoke_code_capability_def Let_def result_simps split: if_splits sum.splits)
  obtain hooks u where hooks: "policy_apply (xe_lsm env) ?policy [] = (hooks, Inr u)"
      and spawn: "xe_spawn env \<lparr>cc_program = rc_program resolved, cc_args = rc_args resolved, cc_cwd = cx_cwd cx,
        cc_hooks = hooks\<rparr> = None" and "\<not> cancelled"
      and loop: "\<exists>s v. capability_loop (cx_stdout_byte_cap cx) rounds capability_init = Some (s, Inr v) \<and>
        capability_result s cancelled_after = Inr out"
    using run by (auto simp: run_resolved_command_sync_def run_resolved_command_def Let_def result_simps
        split: option.splits if_splits prod.splits sum.splits)
  then obtain s v where s: "capability_loop (cx_stdout_byte_cap cx) rounds capability_init = Some (s, Inr v)"
      "capability_result s cancelled_after = Inr out" by blast
  from capability_loop_effect [OF assms(2) s(1)] obtain used rest where used:
      "rounds = used @ rest" "run_effect (cx_stdout_byte_cap cx) used capability_init s" by blast
  from s(2) obtain es where es: "cp_status s = Some es" "xs_code es = Some 0" "\<not> cp_killed s" "\<not> cancelled_after"
      "utf8_error 0 (cp_bytes s) = None" "out = bytes_str (cp_bytes s)"
    by (auto simp: capability_result_Inr)
  have eff: "\<forall>tw. CTick True tw \<notin> set used" "\<exists>c. CTick c (Inr (Some es)) \<in> set used"
      "length (cp_bytes s) \<le> cx_stdout_byte_cap cx" "cp_bytes s = stdout_bytes used"
    using used(2) es(1,3) by (auto simp: run_effect_def capability_init_def)
  then have "CTick False (Inr (Some es)) \<in> set used" by (metis (full_types))
  then show ?thesis
    using permitted res context_policy_hooks [OF hooks] spawn used(1) es \<open>\<not> cancelled\<close> eff
    by - (rule exI [of _ params], rule exI [of _ resolved], rule exI [of _ used], rule exI [of _ rest],
      rule exI [of _ es], simp, simp add: bytes_str_def)
qed

definition wit_call_env :: "unit capability_env" where
  "wit_call_env = \<lparr>xe_from_json = (\<lambda>_. Inr ()), xe_runtime = None, xe_lsm = wit_env, xe_spawn = (\<lambda>_. None),
     xe_stdout = True\<rparr>"

definition wit_context :: code_capability_context where
  "wit_context = \<lparr>cx_capabilities = cs_new [Tool ''search''], cx_workspace = \<lparr>ws_root = ''/w''\<rparr>, cx_tier = DevNone,
     cx_cwd = ''/w'', cx_stdout_byte_cap = 8, cx_cancel = 0\<rparr>"

definition wit_call_rounds :: "capability_round list" where
  "wit_call_rounds = [CTick False (Inr None), CRead (Read [104, 105]), CRead (Read []),
     CTick False (Inr (Some \<lparr>xs_code = Some 0, xs_text = ''exit status: 0''\<rparr>))]"

lemma wit_call:
  "invoke_code_capability wit_call_env (register_commit registry_new (wit_provider ''a'' ''search'')) wit_context
     ''search'' ''{}'' False wit_call_rounds False = Some (Inr ''hi'')"
proof -
  have res: "registry_resolve (register_commit registry_new (wit_provider ''a'' ''search'')) ''search'' () =
      Inr \<lparr>rc_program = ''true'', rc_args = []\<rparr>"
    by (simp add: registry_resolve_def register_commit_def registry_new_def register_listing_def make_entry_def
        name_count_def Let_def) (simp add: wit_provider_def native_dyn_def native_resolve_def)
  have perm: "cs_permits (cx_capabilities wit_context) (Tool ''search'')"
    by (simp add: wit_context_def cs_permits_def cs_new_def)
  have pol: "policy_apply env ((build_sandbox_policy DevNone ws caps)\<lparr>sp_allow_proc_spawn := True\<rparr>) [] = ([], Inr ())"
    for env ws caps by (simp add: policy_apply_def build_sandbox_policy_sel)
  have loop: "capability_loop 8 wit_call_rounds capability_init = Some (\<lparr>cp_bytes = [104, 105], cp_stdout_done = True,
      cp_killed = False, cp_status = Some \<lparr>xs_code = Some 0, xs_text = ''exit status: 0''\<rparr>, cp_kills = 0\<rparr>, Inr ())"
    by (simp add: wit_call_rounds_def capability_init_def capability_round_def capability_tick_def
        capability_read_def Let_def usize_max_def)
  have "from_utf8 [104, 105] = Inr ''hi''" by code_simp
  then show ?thesis
    using perm res pol loop
    by (simp add: invoke_code_capability_def run_resolved_command_sync_def run_resolved_command_def
        capability_result_def wit_call_env_def wit_context_def Let_def)
qed

lemma capability_call_sound_witness:
  "invoke_code_capability wit_call_env (register_commit registry_new (wit_provider ''a'' ''search'')) wit_context
     ''search'' ''{}'' False wit_call_rounds False = Some (Inr ''hi'') \<and>
   (\<exists>used rest. wit_call_rounds = used @ rest \<and> str_bytes ''hi'' = stdout_bytes used)"
proof -
  have "cx_stdout_byte_cap wit_context < usize_max" by (simp add: wit_context_def usize_max_def)
  from capability_call_sound [OF wit_call this] wit_call show ?thesis by blast
qed

end
