(* ===== verification/Demo.thy ===== *)
theory Demo
  imports Cli Code_Capability "HOL-Library.List_Lexorder" "HOL-Library.Char_ord"
begin

text \<open>
  The \<open>demo runtime\<close> command (\<open>axp-cli/src/demo.rs\<close>) and the entry point of the program
  (\<open>lib.rs\<close>). The demo is a client: it runs in a world \<open>'w\<close> it only reaches through the
  record \<open>demo_client\<close>, the methods of \<open>axp_client::Client\<close>, the clock and the terminal, each of
  which may change the world. Times are nanoseconds. An action that may not return gives an
  option, and \<open>None\<close> when it does not; only the poll loop is of this kind. The last part connects
  the demo to the server of \<open>Transport\<close>.
\<close>

section \<open>Statuses and durations\<close>

definition is_terminal :: "job_status_proto \<Rightarrow> bool" where
  "is_terminal st \<longleftrightarrow>
     (case st of ProtoExited _ \<Rightarrow> True | ProtoKilled \<Rightarrow> True | ProtoFailed _ \<Rightarrow> True | _ \<Rightarrow> False)"

definition is_success_status :: "job_status_proto \<Rightarrow> bool" where
  "is_success_status st \<longleftrightarrow> (case st of ProtoExited code \<Rightarrow> code = 0 | _ \<Rightarrow> False)"

definition i32_display :: "i32 \<Rightarrow> string" where
  "i32_display n = (if sint n < 0 then CHR ''-'' # dec_digits (nat (- sint n)) else dec_digits (nat (sint n)))"

primrec status_label :: "job_status_proto \<Rightarrow> string" where
  "status_label ProtoPending = ''pending''"
| "status_label ProtoRunning = ''running''"
| "status_label (ProtoExited code) = ''exited:'' @ i32_display code"
| "status_label ProtoKilled = ''killed''"
| "status_label (ProtoFailed reason) = ''failed:'' @ reason"

definition duration_ms :: "nat \<Rightarrow> u64" where
  "duration_ms d = (let ms = d div 1000000 in if ms \<le> usize_max then of_nat ms else - 1)"

definition from_millis :: "u64 \<Rightarrow> nat" where
  "from_millis ms = unat ms * 1000000"

section \<open>Text\<close>

text \<open>\<open>String::from_utf8_lossy\<close>: each maximal invalid prefix becomes U+FFFD.\<close>

function utf8_lossy :: "byte list \<Rightarrow> byte list" where
  "utf8_lossy [] = []"
| "utf8_lossy (a # s) =
     (case utf8_char a s of
        Inr n \<Rightarrow> a # take (n - 1) s @ utf8_lossy (drop (n - 1) s)
      | Inl (Some k) \<Rightarrow> [0xEF, 0xBF, 0xBD] @ utf8_lossy (drop (k - 1) s)
      | Inl None \<Rightarrow> [0xEF, 0xBF, 0xBD])"
  by pat_completeness auto
termination by (relation "measure length") auto

definition trim_end :: "string \<Rightarrow> string" where
  "trim_end s = rev (trim_rev (rev s))"

definition str_contains :: "string \<Rightarrow> string \<Rightarrow> bool" where
  "str_contains s p \<longleftrightarrow> list_ex (\<lambda>t. starts_with t p) (suffixes s)"

text \<open>\<open>Iterator::min\<close>: strings compare by their bytes.\<close>

definition least_name :: "string list \<Rightarrow> string option" where
  "least_name names = (case names of [] \<Rightarrow> None | n # rest \<Rightarrow> Some (fold min rest n))"

section \<open>Actions\<close>

datatype 'j demo_error =
  DemoClient "'j client_error"
| DemoIo string
| DemoJson string
| DemoMessage string

type_synonym ('w, 'e, 'a) action = "'w \<Rightarrow> ('w \<times> ('e, 'a) result) option"

definition act_return :: "('e, 'a) result \<Rightarrow> ('w, 'e, 'a) action" where
  "act_return r w = Some (w, r)"

definition act_bind :: "('w, 'e, 'a) action \<Rightarrow> ('a \<Rightarrow> ('w, 'e, 'b) action) \<Rightarrow> ('w, 'e, 'b) action" where
  "act_bind m f w =
     Option.bind (m w) (\<lambda>(w, r). case r of Inl e \<Rightarrow> Some (w, Inl e) | Inr x \<Rightarrow> f x w)"

definition act_call :: "('w \<Rightarrow> 'w \<times> ('e, 'a) result) \<Rightarrow> ('e \<Rightarrow> 'f) \<Rightarrow> ('w, 'f, 'a) action" where
  "act_call call wrap w = (case call w of (w, r) \<Rightarrow> Some (w, map_err wrap r))"

record ('w, 'j) demo_client =
  dk_open :: "session_open_request \<Rightarrow> 'w \<Rightarrow> 'w \<times> ('j, session_open_response) client_result"
  dk_close :: "session_close_request \<Rightarrow> 'w \<Rightarrow> 'w \<times> ('j, session_close_response) client_result"
  dk_index :: "index_request \<Rightarrow> 'w \<Rightarrow> 'w \<times> ('j, index_response) client_result"
  dk_describe :: "describe_request \<Rightarrow> 'w \<Rightarrow> 'w \<times> ('j, 'j capability_detail) client_result"
  dk_start :: "'j job_start_request \<Rightarrow> 'w \<Rightarrow> 'w \<times> ('j, job_start_response) client_result"
  dk_status :: "job_status_request \<Rightarrow> 'w \<Rightarrow> 'w \<times> ('j, job_status_response) client_result"
  dk_cancel :: "job_cancel_request \<Rightarrow> 'w \<Rightarrow> 'w \<times> ('j, job_cancel_response) client_result"
  dk_attach :: "job_attach_request \<Rightarrow> 'w \<Rightarrow> 'w \<times> ('j, log_event_frame list) client_result"
  dk_now :: "'w \<Rightarrow> 'w \<times> nat"
  dk_sleep :: "nat \<Rightarrow> 'w \<Rightarrow> 'w"
  dk_print :: "string \<Rightarrow> 'w \<Rightarrow> 'w"

definition timed_async :: "('w, 'j) demo_client \<Rightarrow> ('w, 'e, 'a) action \<Rightarrow> ('w, 'e, 'a \<times> u64) action" where
  "timed_async dk future w =
     (case dk_now dk w of (w, started_at) \<Rightarrow>
        act_bind future (\<lambda>v w. case dk_now dk w of (w, t) \<Rightarrow>
          Some (w, Inr (v, duration_ms (t - started_at)))) w)"

section \<open>Polling a job\<close>

text \<open>The loop of \<open>wait_terminal\<close>; it may run forever when the clock stands still.\<close>

partial_function (option) poll_loop ::
    "('w, 'j) demo_client \<Rightarrow> session_open_response \<Rightarrow> job_id \<Rightarrow> nat \<Rightarrow> nat \<Rightarrow> nat \<Rightarrow> u64
      \<Rightarrow> ('w, 'j demo_error, job_status_response \<times> u64) action" where
  "poll_loop dk session jid timeout interval started_at poll_count w =
     (case dk_status dk \<lparr>jt_session_id = sor_session_id session, jt_cap_token = sor_cap_token session,
          jt_job_id = jid\<rparr> w of
        (w, Inl e) \<Rightarrow> Some (w, Inl (DemoClient e))
      | (w, Inr status) \<Rightarrow>
          let poll_count = poll_count + 1 in
          if is_terminal (jtr_status status) then Some (w, Inr (status, poll_count))
          else
            (case dk_now dk w of (w, t) \<Rightarrow>
               let elapsed = t - started_at in
               if timeout \<le> elapsed then
                 Some (w, Inl (DemoMessage ''job did not reach a terminal state within timeout''))
               else
                 let sleep_for = min interval (timeout - elapsed) in
                 poll_loop dk session jid timeout interval started_at poll_count
                   (if sleep_for = 0 then w else dk_sleep dk sleep_for w)))"

definition wait_terminal ::
    "('w, 'j) demo_client \<Rightarrow> session_open_response \<Rightarrow> job_id \<Rightarrow> nat \<Rightarrow> nat
      \<Rightarrow> ('w, 'j demo_error, job_status_response \<times> u64) action" where
  "wait_terminal dk session jid timeout interval w =
     (case dk_now dk w of (w, started_at) \<Rightarrow> poll_loop dk session jid timeout interval started_at 0 w)"

section \<open>The run\<close>

definition RUNTIME_MARKER :: string where "RUNTIME_MARKER = ''axp-runtime-smoke''"
definition DEFAULT_POLL_TIMEOUT_MS :: u64 where "DEFAULT_POLL_TIMEOUT_MS = 5000"
definition DEFAULT_POLL_INTERVAL_MS :: u64 where "DEFAULT_POLL_INTERVAL_MS = 50"

record runtime_args =
  ra_addr :: string
  ra_json :: bool
  ra_poll_timeout_ms :: u64
  ra_poll_interval_ms :: u64

definition runtime_args_default :: runtime_args where
  "runtime_args_default = \<lparr>ra_addr = ''http://127.0.0.1:7300'', ra_json = False,
     ra_poll_timeout_ms = DEFAULT_POLL_TIMEOUT_MS, ra_poll_interval_ms = DEFAULT_POLL_INTERVAL_MS\<rparr>"

record step_durations =
  rs_session_open_ms :: u64
  rs_index_ms :: u64
  rs_describe_ms :: u64
  rs_job_start_ms :: u64
  rs_job_status_poll_ms :: u64
  rs_job_attach_ms :: u64

record measurement =
  me_total_ms :: u64
  me_steps :: step_durations
  me_catalog_count :: nat
  me_described_capability :: string
  me_described_signature :: string
  me_terminal_job_status :: string
  me_status_poll_count :: u64
  me_log_replay_success :: bool
  me_attach_bytes :: nat
  me_log_marker :: string
  me_log_text :: string

definition u64_display :: "u64 \<Rightarrow> string" where
  "u64_display n = dec_digits (unat n)"

definition bool_display :: "bool \<Rightarrow> string" where
  "bool_display b = (if b then ''true'' else ''false'')"

definition format_human_measurement :: "measurement \<Rightarrow> string" where
  "format_human_measurement m =
     concat (map (\<lambda>line. line @ [CHR 10])
       [''runtime ok'',
        ''total_ms='' @ u64_display (me_total_ms m),
        ''session_open_ms='' @ u64_display (rs_session_open_ms (me_steps m)),
        ''index_ms='' @ u64_display (rs_index_ms (me_steps m)),
        ''describe_ms='' @ u64_display (rs_describe_ms (me_steps m)),
        ''job_start_ms='' @ u64_display (rs_job_start_ms (me_steps m)),
        ''job_status_poll_ms='' @ u64_display (rs_job_status_poll_ms (me_steps m)),
        ''job_attach_ms='' @ u64_display (rs_job_attach_ms (me_steps m)),
        ''catalog_count='' @ dec_digits (me_catalog_count m),
        ''described='' @ me_described_capability m,
        ''signature='' @ me_described_signature m,
        ''job_status='' @ me_terminal_job_status m,
        ''status_poll_count='' @ u64_display (me_status_poll_count m),
        ''log_replay_success='' @ bool_display (me_log_replay_success m),
        ''attach_bytes='' @ dec_digits (me_attach_bytes m),
        ''log_marker='' @ me_log_marker m,
        ''log='' @ me_log_text m])"

text \<open>\<open>to_json\<close> is \<open>serde_json::to_string\<close>; \<open>println!\<close> adds the line break.\<close>

definition print_measurement ::
    "('w, 'j) demo_client \<Rightarrow> (measurement \<Rightarrow> (string, string) result) \<Rightarrow> measurement \<Rightarrow> bool
      \<Rightarrow> 'w \<Rightarrow> 'w \<times> (string, unit) result" where
  "print_measurement dk to_json m json w =
     (if json then
        (case to_json m of
           Inl e \<Rightarrow> (w, Inl e)
         | Inr text \<Rightarrow> (dk_print dk (text @ [CHR 10]) w, Inr ()))
      else (dk_print dk (format_human_measurement m) w, Inr ()))"

definition demo_close ::
    "('w, 'j) demo_client \<Rightarrow> session_open_response \<Rightarrow> 'w \<Rightarrow> 'w \<times> ('j demo_error, unit) result" where
  "demo_close dk session w =
     (case dk_close dk \<lparr>sc_session_id = sor_session_id session, sc_cap_token = sor_cap_token session\<rparr> w of
        (w, r) \<Rightarrow> (w, rbind (map_err DemoClient r) (\<lambda>_. Inr ())))"

text \<open>The \<open>match\<close> on the timed poll: an error cancels the job, whatever the answer, and returns.\<close>

definition follow_job ::
    "('w, 'j) demo_client \<Rightarrow> runtime_args \<Rightarrow> session_open_response \<Rightarrow> job_id
      \<Rightarrow> ('w, 'j demo_error, (job_status_response \<times> u64) \<times> u64) action" where
  "follow_job dk args session jid w =
     Option.bind (timed_async dk (wait_terminal dk session jid
         (from_millis (ra_poll_timeout_ms args)) (from_millis (ra_poll_interval_ms args))) w)
       (\<lambda>(w, r). case r of
          Inr status \<Rightarrow> Some (w, Inr status)
        | Inl e \<Rightarrow>
            (case dk_cancel dk \<lparr>jc_session_id = sor_session_id session,
                jc_cap_token = sor_cap_token session, jc_job_id = jid\<rparr> w of
               (w, _) \<Rightarrow> Some (w, Inl e)))"

text \<open>The \<open>async\<close> block between opening the session and closing it.\<close>

definition runtime_steps ::
    "('w, 'j) demo_client \<Rightarrow> runtime_args \<Rightarrow> session_open_response \<Rightarrow> nat \<Rightarrow> u64
      \<Rightarrow> ('w, 'j demo_error, measurement) action" where
  "runtime_steps dk args session total_started_at session_open_ms =
     (let sid = sor_session_id session; tok = sor_cap_token session in
      act_bind (timed_async dk (act_call (dk_index dk \<lparr>ir_session_id = sid, ir_cap_token = tok\<rparr>) DemoClient))
        (\<lambda>(index, index_ms).
      act_bind (act_return (ok_or (least_name (map ie_name (ix_entries index)))
          (DemoMessage ''server returned an empty capability index''))) (\<lambda>described_name.
      act_bind (timed_async dk (act_call (dk_describe dk
          \<lparr>dr_session_id = sid, dr_cap_token = tok, dr_name = described_name\<rparr>) DemoClient))
        (\<lambda>(described, describe_ms).
      act_bind (timed_async dk (act_call (dk_start dk
          \<lparr>js_session_id = sid, js_cap_token = tok,
           js_payload = PCommand (''printf '' @ [CHR 39] @ RUNTIME_MARKER @ [CHR 92] @ ''n'' @ [CHR 39]),
           js_cwd = None, js_capabilities = []\<rparr>) DemoClient)) (\<lambda>(started, job_start_ms).
      act_bind (follow_job dk args session (jsr_job_id started)) (\<lambda>((status, status_poll_count), job_status_poll_ms).
      if \<not> is_success_status (jtr_status status) then
        act_return (Inl (DemoMessage (''job reached non-success terminal status: '' @ status_label (jtr_status status))))
      else
      act_bind (timed_async dk (act_call (dk_attach dk
          \<lparr>ja_session_id = sid, ja_cap_token = tok, ja_job_id = jsr_job_id started, ja_from_offset = 0\<rparr>) DemoClient))
        (\<lambda>(frames, job_attach_ms) w.
      let log_bytes = concat (map lf_data frames);
          log_text = trim_end (bytes_str (utf8_lossy log_bytes));
          log_replay_success = str_contains log_text RUNTIME_MARKER in
      if \<not> log_replay_success then
        act_return (Inl (DemoMessage ''attached log replay did not contain runtime marker'')) w
      else
        (case dk_now dk w of (w, t) \<Rightarrow>
           act_return (Inr \<lparr>me_total_ms = duration_ms (t - total_started_at),
             me_steps = \<lparr>rs_session_open_ms = session_open_ms, rs_index_ms = index_ms,
               rs_describe_ms = describe_ms, rs_job_start_ms = job_start_ms,
               rs_job_status_poll_ms = job_status_poll_ms, rs_job_attach_ms = job_attach_ms\<rparr>,
             me_catalog_count = length (ix_entries index), me_described_capability = described_name,
             me_described_signature = cd_signature described,
             me_terminal_job_status = status_label (jtr_status status),
             me_status_poll_count = status_poll_count, me_log_replay_success = log_replay_success,
             me_attach_bytes = length log_bytes, me_log_marker = RUNTIME_MARKER, me_log_text = log_text\<rparr>) w))))))))"

definition demo_open ::
    "('w, 'j) demo_client \<Rightarrow> string \<Rightarrow> ('w, 'j demo_error, session_open_response \<times> u64) action" where
  "demo_open dk workspace = timed_async dk (act_call (dk_open dk
     \<lparr>so_workspace = workspace, so_sandbox_tier = DevNone, so_capabilities = [Capability ''proc.spawn'']\<rparr>) DemoClient)"

text \<open>The rest of \<open>runtime\<close> once the session is open: measure, print, close.\<close>

definition runtime_session ::
    "('w, 'j) demo_client \<Rightarrow> (measurement \<Rightarrow> (string, string) result) \<Rightarrow> runtime_args \<Rightarrow> nat
      \<Rightarrow> session_open_response \<times> u64 \<Rightarrow> ('w, 'j demo_error, unit) action" where
  "runtime_session dk to_json args total_started_at opened w =
     (case opened of (session, session_open_ms) \<Rightarrow>
      Option.bind (runtime_steps dk args session total_started_at session_open_ms w) (\<lambda>(w, result).
      case result of
        Inr m \<Rightarrow>
          (case print_measurement dk to_json m (ra_json args) w of (w, print_result) \<Rightarrow>
           case demo_close dk session w of (w, close_result) \<Rightarrow>
             Some (w, rbind (map_err DemoJson print_result) (\<lambda>_. close_result)))
      | Inl err \<Rightarrow> (case demo_close dk session w of (w, _) \<Rightarrow> Some (w, Inl err))))"

text \<open>
  \<open>connect\<close> makes the methods of the client of a base URL, \<open>tempdir\<close> creates the workspace and
  \<open>remove_dir\<close> is its destructor.
\<close>

definition runtime ::
    "(string \<Rightarrow> (string, url) result) \<Rightarrow> (url \<Rightarrow> ('w, 'j) demo_client) \<Rightarrow> ('w \<Rightarrow> 'w \<times> (string, string) result)
      \<Rightarrow> (string \<Rightarrow> 'w \<Rightarrow> 'w) \<Rightarrow> (measurement \<Rightarrow> (string, string) result) \<Rightarrow> runtime_args
      \<Rightarrow> ('w, 'j demo_error, unit) action" where
  "runtime parse connect tempdir remove_dir to_json args =
     act_bind (act_return (map_err DemoClient (client_new parse (ra_addr args)))) (\<lambda>u.
     act_bind (act_call tempdir DemoIo) (\<lambda>workspace w.
     case dk_now (connect u) w of (w, total_started_at) \<Rightarrow>
       map_option (apfst (remove_dir workspace))
         (act_bind (demo_open (connect u) workspace)
           (runtime_session (connect u) to_json args total_started_at) w)))"

section \<open>Polling ends\<close>

text \<open>The number of whole intervals that cover \<open>r\<close>.\<close>

definition poll_rounds :: "nat \<Rightarrow> nat \<Rightarrow> nat" where
  "poll_rounds interval r = (r + interval - 1) div interval"

lemma poll_rounds_less:
  assumes "0 < i" and "0 < r" and "r' \<le> r - i"
  shows "Suc (poll_rounds i r') \<le> poll_rounds i r"
proof -
  have "poll_rounds i r' \<le> poll_rounds i (r - i)" using assms(3) by (simp add: poll_rounds_def div_le_mono)
  also have "Suc (poll_rounds i (r - i)) \<le> poll_rounds i r"
  proof (cases "i \<le> r")
    case True
    then have "r + i - 1 = r - 1 + i" "r - i + i - 1 = r - 1" using assms by linarith+
    moreover have "(r - 1 + i) div i = Suc ((r - 1) div i)" using assms(1) div_add_self2 [of i "r - 1"] by simp
    ultimately show ?thesis by (simp add: poll_rounds_def)
  next
    case False
    then have "r - i + i - 1 < i" "i \<le> r + i - 1" using assms by linarith+
    then have "(r - i + i - 1) div i = 0" "1 \<le> (r + i - 1) div i"
      using assms(1) div_le_mono [of i "r + i - 1" i] by simp_all
    then show ?thesis by (simp add: poll_rounds_def)
  qed
  finally show ?thesis by simp
qed

text \<open>
  How polling ends when \<open>m\<close> polls were made, counting from \<open>n\<close>: with a terminal status and the count, with
  a failed call, or with a timeout, not before \<open>deadline\<close>; and never after more than \<open>limit\<close> polls.
\<close>

definition poll_outcome ::
    "u64 \<Rightarrow> nat \<Rightarrow> nat \<Rightarrow> nat \<Rightarrow> nat \<Rightarrow> ('j demo_error, job_status_response \<times> u64) result \<Rightarrow> bool" where
  "poll_outcome n m limit deadline ended r \<longleftrightarrow> 0 < m \<and> m \<le> limit \<and>
     (case r of
        Inr (status, k) \<Rightarrow> is_terminal (jtr_status status) \<and> k = n + of_nat m
      | Inl e \<Rightarrow> (\<exists>c. e = DemoClient c) \<or>
          e = DemoMessage ''job did not reach a terminal state within timeout'' \<and> deadline \<le> ended)"

lemma poll_outcome_more:
  assumes "poll_outcome (n + 1) m limit deadline ended r" and "Suc limit \<le> limit'"
  shows "poll_outcome n (Suc m) limit' deadline ended r"
  using assms by (auto simp: poll_outcome_def add.assoc split: sum.splits)

text \<open>What is left of the timeout after a sleep that began at \<open>t\<close> and ended at \<open>u\<close>.\<close>

lemma slept_left:
  assumes "s \<le> a" and "a \<le> t" and "t + min i (limit - (t - s)) \<le> (u :: nat)"
  shows "limit - (u - s) \<le> limit - (a - s) - i"
  using assms by (cases "i \<le> limit - (t - s)") (simp_all add: min_def)

text \<open>What the poll loop needs of the clock: it never goes back, and a sleep lasts as long as asked.\<close>

locale poll_clock =
  fixes dk :: "('w, 'j) demo_client" and time :: "'w \<Rightarrow> nat"
  assumes now_time: "dk_now dk w = (w', t) \<Longrightarrow> t = time w' \<and> time w \<le> time w'"
    and sleep_time: "time w + d \<le> time (dk_sleep dk d w)"
    and status_time: "time w \<le> time (fst (dk_status dk req w))"
begin

text \<open>It ends as soon as each round takes some time: that of a sleep, or that of the call.\<close>

lemma poll_loop_returns:
  assumes "0 < interval \<or> (\<forall>w req. time w < time (fst (dk_status dk req w)))" and "started_at \<le> time w"
  shows "poll_loop dk session jid timeout interval started_at n w \<noteq> None"
  using assms(2)
proof (induction "timeout - (time w - started_at)" arbitrary: w n rule: less_induct)
  case less
  let ?req = "\<lparr>jt_session_id = sor_session_id session, jt_cap_token = sor_cap_token session, jt_job_id = jid\<rparr>"
  obtain w1 r1 where st: "dk_status dk ?req w = (w1, r1)" by fastforce
  obtain w2 t where now: "dk_now dk w1 = (w2, t)" by fastforce
  have t: "t = time w2" "time w1 \<le> t" "time w \<le> time w1"
    using now_time [OF now] status_time [of w ?req] st by simp_all
  define d where "d = min interval (timeout - (t - started_at))"
  define w3 where "w3 = (if d = 0 then w2 else dk_sleep dk d w2)"
  have t3: "t + d \<le> time w3" using sleep_time [of w2 d] t(1) by (simp add: w3_def)
  have go: "poll_loop dk session jid timeout interval started_at (n + 1) w3 \<noteq> None"
    if late: "\<not> timeout \<le> t - started_at"
  proof -
    have "time w < time w3"
    proof (cases "0 < interval")
      case True
      then have "0 < d" using late by (simp add: d_def)
      then show ?thesis using t t3 by linarith
    next
      case False
      then have "time w < time w1" using assms(1) st by (metis fst_conv)
      then show ?thesis using t t3 by linarith
    qed
    then have "timeout - (time w3 - started_at) < timeout - (time w - started_at)" "started_at \<le> time w3"
      using late t less.prems by linarith+
    then show ?thesis by (rule less.hyps)
  qed
  then show ?case
    by (subst poll_loop.simps)
      (simp add: st now Let_def flip: d_def w3_def split: sum.split)
qed

lemma wait_terminal_returns:
  assumes "0 < interval \<or> (\<forall>w req. time w < time (fst (dk_status dk req w)))"
  shows "wait_terminal dk session jid timeout interval w \<noteq> None"
  using poll_loop_returns [OF assms] now_time by (fastforce simp: wait_terminal_def split: prod.split)

end

text \<open>A client whose world also counts the polls made.\<close>

locale poll_counter = poll_clock +
  fixes polls :: "'w \<Rightarrow> nat"
  assumes status_polls: "polls (fst (dk_status dk req w)) = Suc (polls w)"
    and now_polls: "polls (fst (dk_now dk w)) = polls w"
    and sleep_polls: "polls (dk_sleep dk d w) = polls w"
begin

lemma poll_loop_bounded:
  assumes "0 < interval" and "started_at \<le> time w"
  shows "\<exists>w' r m. poll_loop dk session jid timeout interval started_at n w = Some (w', r) \<and>
    polls w' = polls w + m \<and>
    poll_outcome n m (Suc (poll_rounds interval (timeout - (time w - started_at)))) (started_at + timeout) (time w') r"
  using assms(2)
proof (induction "timeout - (time w - started_at)" arbitrary: w n rule: less_induct)
  case less
  let ?req = "\<lparr>jt_session_id = sor_session_id session, jt_cap_token = sor_cap_token session, jt_job_id = jid\<rparr>"
  obtain w1 r1 where st: "dk_status dk ?req w = (w1, r1)" by fastforce
  obtain w2 t where now: "dk_now dk w1 = (w2, t)" by fastforce
  have t: "t = time w2" "time w \<le> time w2"
    using now_time [OF now] status_time [of w ?req] st by simp_all
  have c: "polls w1 = polls w + 1" "polls w2 = polls w + 1"
    using status_polls [of ?req w] now_polls [of w1] st now by simp_all
  note step = poll_loop.simps [of dk session jid timeout interval started_at n w]
  consider e where "r1 = Inl e" | status where "r1 = Inr status" "is_terminal (jtr_status status)"
    | status where "r1 = Inr status" "\<not> is_terminal (jtr_status status)" "timeout \<le> t - started_at"
    | status where "r1 = Inr status" "\<not> is_terminal (jtr_status status)" "t - started_at < timeout"
    using le_less_linear [of timeout "t - started_at"] by (cases r1) blast+
  then show ?case
  proof cases
    case (1 e)
    then show ?thesis
      using c(1) by (intro exI [of _ w1] exI [of _ "Inl (DemoClient e)"] exI [of _ 1])
        (subst step, simp add: st poll_outcome_def)
  next
    case (2 status)
    then show ?thesis
      using c(1) by (intro exI [of _ w1] exI [of _ "Inr (status, n + 1)"] exI [of _ 1])
        (subst step, simp add: st poll_outcome_def)
  next
    case (3 status)
    have "started_at + timeout \<le> time w2" using 3(3) t less.prems by linarith
    with 3 show ?thesis
      using c(2) by (intro exI [of _ w2] exI [of _ "Inl (DemoMessage ''job did not reach a terminal state within timeout'')"]
          exI [of _ 1]) (subst step, simp add: st now poll_outcome_def)
  next
    case (4 status)
    define d where "d = min interval (timeout - (t - started_at))"
    let ?w3 = "dk_sleep dk d w2"
    have d: "0 < d" using 4(3) assms(1) by (simp add: d_def)
    have t3: "t + d \<le> time ?w3" using sleep_time [of w2 d] t(1) by simp
    have go: "poll_loop dk session jid timeout interval started_at n w =
        poll_loop dk session jid timeout interval started_at (n + 1) ?w3"
      using 4 d by (subst step) (simp add: st now Let_def flip: d_def)
    have "time w \<le> t" using t by simp
    note left = slept_left [OF less.prems this t3 [unfolded d_def], folded d_def]
    have "0 < timeout - (time w - started_at)" using 4(3) t less.prems by linarith
    note rounds = poll_rounds_less [OF assms(1) this left]
    have "timeout - (time ?w3 - started_at) < timeout - (time w - started_at)" "started_at \<le> time ?w3"
      using t t3 d less.prems 4(3) by linarith+
    from less.hyps [OF this, of "n + 1"] obtain w' r m where
        "poll_loop dk session jid timeout interval started_at (n + 1) ?w3 = Some (w', r)"
        "polls w' = polls ?w3 + m"
        "poll_outcome (n + 1) m (Suc (poll_rounds interval (timeout - (time ?w3 - started_at)))) (started_at + timeout) (time w') r"
      by blast
    moreover from poll_outcome_more [OF this(3)] have "poll_outcome n (Suc m)
        (Suc (poll_rounds interval (timeout - (time w - started_at)))) (started_at + timeout) (time w') r"
      using rounds by simp
    ultimately show ?thesis
      unfolding go using c(2) sleep_polls [of d w2]
      by (intro exI [of _ w'] exI [of _ r] exI [of _ "Suc m"]) simp
  qed
qed

lemma wait_terminal_bounded:
  assumes "0 < interval"
  shows "\<exists>w' r m. wait_terminal dk session jid timeout interval w = Some (w', r) \<and> polls w' = polls w + m \<and>
    poll_outcome 0 m (Suc (poll_rounds interval timeout)) (time w + timeout) (time w') r"
proof -
  obtain w1 t where now: "dk_now dk w = (w1, t)" by fastforce
  then have t: "t = time w1" "time w \<le> t" using now_time by auto
  then have "t \<le> time w1" by simp
  from poll_loop_bounded [OF assms this, of session jid timeout 0] obtain w' r m where
    r: "poll_loop dk session jid timeout interval t 0 w1 = Some (w', r)" "polls w' = polls w1 + m"
      "poll_outcome 0 m (Suc (poll_rounds interval (timeout - (time w1 - t)))) (t + timeout) (time w') r"
    by blast
  then have "poll_outcome 0 m (Suc (poll_rounds interval timeout)) (time w + timeout) (time w') r"
    using t by (auto simp: poll_outcome_def split: sum.splits)
  then show ?thesis using r(1,2) now_polls [of w] by (auto simp: wait_terminal_def now)
qed

end

text \<open>Any client can be made to count its polls; the loop does not notice.\<close>

definition counting :: "('w, 'j) demo_client \<Rightarrow> ('w \<times> nat, 'j) demo_client" where
  "counting dk =
     \<lparr>dk_open = (\<lambda>q (w, c). apfst (\<lambda>w. (w, c)) (dk_open dk q w)),
      dk_close = (\<lambda>q (w, c). apfst (\<lambda>w. (w, c)) (dk_close dk q w)),
      dk_index = (\<lambda>q (w, c). apfst (\<lambda>w. (w, c)) (dk_index dk q w)),
      dk_describe = (\<lambda>q (w, c). apfst (\<lambda>w. (w, c)) (dk_describe dk q w)),
      dk_start = (\<lambda>q (w, c). apfst (\<lambda>w. (w, c)) (dk_start dk q w)),
      dk_status = (\<lambda>q (w, c). apfst (\<lambda>w. (w, Suc c)) (dk_status dk q w)),
      dk_cancel = (\<lambda>q (w, c). apfst (\<lambda>w. (w, c)) (dk_cancel dk q w)),
      dk_attach = (\<lambda>q (w, c). apfst (\<lambda>w. (w, c)) (dk_attach dk q w)),
      dk_now = (\<lambda>(w, c). apfst (\<lambda>w. (w, c)) (dk_now dk w)),
      dk_sleep = (\<lambda>d (w, c). (dk_sleep dk d w, c)),
      dk_print = (\<lambda>text (w, c). (dk_print dk text w, c))\<rparr>"

lemma counting_sel [simp]:
  "dk_status (counting dk) q (w, c) = apfst (\<lambda>w. (w, Suc c)) (dk_status dk q w)"
  "dk_now (counting dk) (w, c) = apfst (\<lambda>w. (w, c)) (dk_now dk w)"
  "dk_sleep (counting dk) d (w, c) = (dk_sleep dk d w, c)"
  by (simp_all add: counting_def)

lemma poll_loop_counting:
  assumes "poll_loop (counting dk) session jid timeout interval started_at n wc = Some (wc', r)"
  shows "poll_loop dk session jid timeout interval started_at n (fst wc) = Some (fst wc', r)"
proof -
  have "counting dk = counting dk \<longrightarrow>
    poll_loop dk session jid timeout interval started_at n (fst wc) = Some (fst (fst (wc', r)), snd (wc', r))"
  proof (rule poll_loop.raw_induct [where P = "\<lambda>dk' session jid timeout interval started_at n wc y.
        dk' = counting dk \<longrightarrow>
        poll_loop dk session jid timeout interval started_at n (fst wc) = Some (fst (fst y), snd y)"], goal_cases)
    case (1 loop dk' session jid timeout interval started_at n wc y)
    obtain w c where wc: "wc = (w, c)" by fastforce
    obtain w' c' r' where y: "y = ((w', c'), r')" by (metis surj_pair)
    show ?case
      using 1(2) 1(1) [of "counting dk" session jid timeout interval started_at "n + 1"]
      by (subst poll_loop.simps)
        (auto simp: wc y Let_def split: prod.splits sum.splits if_splits)
  qed (rule assms)
  then show ?thesis by simp
qed

lemma wait_terminal_counting:
  assumes "wait_terminal (counting dk) session jid timeout interval (w, c) = Some ((w', c'), r)"
  shows "wait_terminal dk session jid timeout interval w = Some (w', r)"
  using assms poll_loop_counting [where wc' = "(w', c')"]
  by (fastforce simp: wait_terminal_def split: prod.splits)

section \<open>The run returns and says what happened\<close>

definition returns :: "('w, 'e, 'a) action \<Rightarrow> bool" where
  "returns m \<longleftrightarrow> (\<forall>w. m w \<noteq> None)"

lemma returns_return: "returns (act_return r)"
  by (simp add: returns_def act_return_def)

lemma returns_call: "returns (act_call call wrap)"
  by (simp add: returns_def act_call_def split: prod.split)

lemma returns_bind:
  assumes "returns m" and "\<And>x. returns (f x)"
  shows "returns (act_bind m f)"
  unfolding returns_def
proof
  fix w
  obtain w1 r where "m w = Some (w1, r)" using assms(1) unfolding returns_def by (metis option.exhaust surj_pair)
  then show "act_bind m f w \<noteq> None"
    using assms(2) by (cases r) (auto simp: returns_def act_bind_def)
qed

lemma returns_timed: "returns m \<Longrightarrow> returns (timed_async dk m)"
proof -
  assume m: "returns m"
  let ?f = "\<lambda>s v w. case dk_now dk w of (w, t) \<Rightarrow> Some (w, Inr (v, duration_ms (t - s)))"
  have "returns (act_bind m (?f s))" for s
    using m by (intro returns_bind) (simp_all add: returns_def split: prod.split)
  then show ?thesis by (simp add: returns_def timed_async_def split: prod.split)
qed

lemma returns_pair: "(\<And>a b. returns (f a b)) \<Longrightarrow> returns (case x of (a, b) \<Rightarrow> f a b)"
  by (cases x) simp

lemma returns_pair2: "(\<And>a b. returns (f a b c)) \<Longrightarrow> returns ((case x of (a, b) \<Rightarrow> f a b) c)"
  by (cases x) simp

lemma returns_if: "returns m \<Longrightarrow> returns m' \<Longrightarrow> returns (if b then m else m')"
  by simp

lemmas returns_intros = returns_bind returns_timed returns_call returns_return returns_pair returns_pair2 returns_if

lemma act_bind_Inr:
  "act_bind m f w = Some (w', Inr y) \<longleftrightarrow> (\<exists>w1 x. m w = Some (w1, Inr x) \<and> f x w1 = Some (w', Inr y))"
  by (cases "m w") (auto simp: act_bind_def split: sum.splits)

lemma act_return_Inr [simp]: "act_return r w = Some (w', r') \<longleftrightarrow> w' = w \<and> r' = r"
  by (auto simp: act_return_def)

lemma success_label: "is_success_status st \<Longrightarrow> status_label st = ''exited:0''"
proof -
  assume "is_success_status st"
  then have "st = ProtoExited 0" by (auto simp: is_success_status_def split: job_status_proto.splits)
  moreover have "i32_display 0 = ''0''" by code_simp
  ultimately show ?thesis by simp
qed

text \<open>A measurement is only made of a job that exited with 0 and whose replayed log has the marker.\<close>

lemma runtime_steps_success:
  assumes "runtime_steps dk args session t0 ms w = Some (w', Inr m)"
  shows "me_terminal_job_status m = ''exited:0'' \<and> str_contains (me_log_text m) RUNTIME_MARKER \<and>
    me_log_replay_success m"
  using assms unfolding runtime_steps_def Let_def act_bind_Inr
  by (auto simp: success_label act_bind_Inr split: if_splits prod.splits)

context poll_clock
begin

lemma returns_follow:
  assumes "0 < ra_poll_interval_ms args \<or> (\<forall>w req. time w < time (fst (dk_status dk req w)))"
  shows "returns (follow_job dk args session jid)"
proof -
  have "0 < from_millis (ra_poll_interval_ms args) \<or> (\<forall>w req. time w < time (fst (dk_status dk req w)))"
    using assms by (auto simp add: from_millis_def word_greater_zero_iff unat_gt_0)
  from wait_terminal_returns [OF this] have "returns (wait_terminal dk session jid
      (from_millis (ra_poll_timeout_ms args)) (from_millis (ra_poll_interval_ms args)))"
    unfolding returns_def by blast
  then have "returns (timed_async dk (wait_terminal dk session jid
      (from_millis (ra_poll_timeout_ms args)) (from_millis (ra_poll_interval_ms args))))"
    by (rule returns_timed)
  then show ?thesis
    by (simp add: returns_def follow_job_def bind_eq_None_conv split: sum.split prod.split)
qed

lemma returns_runtime_steps:
  assumes "0 < ra_poll_interval_ms args \<or> (\<forall>w req. time w < time (fst (dk_status dk req w)))"
  shows "returns (runtime_steps dk args session t0 ms)"
  unfolding runtime_steps_def Let_def
  by (intro returns_intros returns_follow [OF assms])
    (simp add: returns_def act_return_def split: prod.split)

end

section \<open>What the run leaves alone\<close>

definition keeps :: "('w \<Rightarrow> 'o) \<Rightarrow> ('w, 'e, 'a) action \<Rightarrow> bool" where
  "keeps f m \<longleftrightarrow> (\<forall>w w' r. m w = Some (w', r) \<longrightarrow> f w' = f w)"

lemma keeps_return: "keeps f (act_return r)"
  by (simp add: keeps_def)

lemma keeps_call: "(\<And>w. f (fst (call w)) = f w) \<Longrightarrow> keeps f (act_call call wrap)"
  by (auto simp: keeps_def act_call_def split: prod.splits) (metis fst_conv)

lemma keeps_bind:
  assumes "keeps f m" and "\<And>x. keeps f (g x)"
  shows "keeps f (act_bind m g)"
  unfolding keeps_def
proof (intro allI impI)
  fix w w' r
  assume "act_bind m g w = Some (w', r)"
  then obtain w1 r1 where m: "m w = Some (w1, r1)"
      "(case r1 of Inl e \<Rightarrow> Some (w1, Inl e) | Inr x \<Rightarrow> g x w1) = Some (w', r)"
    by (cases "m w") (auto simp: act_bind_def)
  then have "f w1 = f w" using assms(1) by (simp add: keeps_def)
  moreover have "f w' = f w1" using m(2) assms(2) by (cases r1) (auto simp: keeps_def)
  ultimately show "f w' = f w" by simp
qed

lemma keeps_pair: "(\<And>a b. keeps f (g a b)) \<Longrightarrow> keeps f (case x of (a, b) \<Rightarrow> g a b)"
  by (cases x) simp

lemma keeps_pair2: "(\<And>a b. keeps f (g a b c)) \<Longrightarrow> keeps f ((case x of (a, b) \<Rightarrow> g a b) c)"
  by (cases x) simp

lemma keeps_if: "keeps f m \<Longrightarrow> keeps f m' \<Longrightarrow> keeps f (if b then m else m')"
  by simp

text \<open>A part \<open>out\<close> of the world that neither the server's methods nor the clock touch.\<close>

locale untouched =
  fixes dk :: "('w, 'j) demo_client" and out :: "'w \<Rightarrow> 'o"
  assumes index_out: "out (fst (dk_index dk r1 w)) = out w"
    and describe_out: "out (fst (dk_describe dk r2 w)) = out w"
    and start_out: "out (fst (dk_start dk r3 w)) = out w"
    and status_out: "out (fst (dk_status dk r4 w)) = out w"
    and cancel_out: "out (fst (dk_cancel dk r5 w)) = out w"
    and attach_out: "out (fst (dk_attach dk r6 w)) = out w"
    and now_out: "out (fst (dk_now dk w)) = out w"
    and sleep_out: "out (dk_sleep dk d w) = out w"
begin

lemma now_keeps: "dk_now dk w = (w', t) \<Longrightarrow> out w' = out w"
  using now_out [of w] by simp

lemma keeps_timed:
  assumes "keeps out m"
  shows "keeps out (timed_async dk m)"
proof -
  let ?f = "\<lambda>s v w. case dk_now dk w of (w, t) \<Rightarrow> Some (w, Inr (v, duration_ms (t - s)))"
  have "keeps out (act_bind m (?f s))" for s
    using assms by (intro keeps_bind) (auto simp: keeps_def split: prod.splits dest: now_keeps)
  then show ?thesis by (auto simp: keeps_def timed_async_def split: prod.splits dest!: now_keeps)
qed

lemma poll_loop_out:
  assumes "poll_loop dk session jid timeout interval started_at n w = Some (w', r)"
  shows "out w' = out w"
proof -
  have st: "dk_status dk req w = (w1, r1) \<Longrightarrow> out w1 = out w" for req w w1 r1 using status_out [of req w] by simp
  have "dk = dk \<longrightarrow> out (fst (w', r)) = out w"
  proof (rule poll_loop.raw_induct [where P = "\<lambda>dk' session jid timeout interval started_at n w y.
        dk' = dk \<longrightarrow> out (fst y) = out w"], goal_cases)
    case (1 poll_loop dk' session jid timeout interval started_at n w y)
    show ?case
      using 1(2) by (auto simp: Let_def sleep_out dest!: st now_keeps 1(1) split: prod.splits sum.splits if_splits)
  qed (rule assms)
  then show ?thesis by simp
qed

lemma keeps_follow: "keeps out (follow_job dk args session jid)"
  unfolding keeps_def
proof (intro allI impI)
  fix w w' r
  let ?m = "timed_async dk (wait_terminal dk session jid
    (from_millis (ra_poll_timeout_ms args)) (from_millis (ra_poll_interval_ms args)))"
  assume run: "follow_job dk args session jid w = Some (w', r)"
  then obtain w1 r1 where m: "?m w = Some (w1, r1)" by (auto simp: follow_job_def bind_eq_Some_conv)
  have "keeps out (wait_terminal dk session jid timeout interval)" for timeout interval
    unfolding keeps_def wait_terminal_def by (auto split: prod.splits dest!: poll_loop_out now_keeps)
  from keeps_timed [OF this] have "out w1 = out w" using m unfolding keeps_def by blast
  moreover have "dk_cancel dk req w1 = (w2, x) \<Longrightarrow> out w2 = out w1" for req w2 x
    using cancel_out [of req w1] by simp
  then have "out w' = out w1" using run m by (cases r1) (auto simp: follow_job_def split: prod.splits)
  ultimately show "out w' = out w" by simp
qed

lemma keeps_runtime_steps: "keeps out (runtime_steps dk args session t0 ms)"
  unfolding runtime_steps_def Let_def
  by (intro keeps_bind keeps_timed keeps_call keeps_return keeps_pair keeps_pair2 keeps_if keeps_follow
      index_out describe_out start_out attach_out)
    (auto simp: keeps_def split: prod.splits dest: now_keeps)

end

section \<open>The demo against the server\<close>

text \<open>
  The world of the demo and the server of \<open>Transport\<close>: the server's state, the time, the number of
  calls so far and what the terminal shows. The record \<open>net\<close> holds what is outside: before each call
  others may change the server's state (\<open>ne_others\<close>) and time passes (\<open>ne_delay\<close>).
\<close>

record 'j net_world =
  nw_state :: "'j app_state"
  nw_time :: nat
  nw_turn :: nat
  nw_output :: string

record 'j net =
  ne_wire :: "'j wire"
  ne_env :: "nat \<Rightarrow> server_env"
  ne_others :: "nat \<Rightarrow> 'j app_state \<Rightarrow> 'j app_state"
  ne_delay :: "nat \<Rightarrow> nat"
  ne_request :: "'j client_request \<Rightarrow> byte list"
  ne_reply :: "'j jsonrpc_response \<Rightarrow> byte list"
  ne_attach :: "'j app_state \<Rightarrow> attach_http_request \<Rightarrow> (string, attach_http_response) result"

definition net_tick :: "'j net \<Rightarrow> 'j net_world \<Rightarrow> 'j net_world" where
  "net_tick ne w = w\<lparr>nw_state := ne_others ne (nw_turn w) (nw_state w),
     nw_time := nw_time w + ne_delay ne (nw_turn w), nw_turn := Suc (nw_turn w)\<rparr>"

definition net_send :: "'j net \<Rightarrow> 'j net_world \<Rightarrow> 'j client_request \<Rightarrow> 'j net_world \<times> (string, http_response) result" where
  "net_send ne w req =
     (let w = net_tick ne w in
      case rpc_handler (ne_wire ne) (ne_env ne (nw_turn w)) (nw_state w) (ne_request ne req) of
        (st, resp) \<Rightarrow> (w\<lparr>nw_state := st\<rparr>, Inr \<lparr>ht_status = 200, ht_body = ne_reply ne resp\<rparr>))"

text \<open>A typed method \<open>call\<close> of the client, which posts \<open>encode request\<close> for the method \<open>m\<close>.\<close>

definition net_call ::
    "'j net \<Rightarrow> 'j client_wire \<Rightarrow> 'j client_codec \<Rightarrow> ('j rpc_client \<Rightarrow> 'q \<Rightarrow> ('j, 'r) client_result) \<Rightarrow> string
      \<Rightarrow> ('j client_codec \<Rightarrow> 'q \<Rightarrow> 'j) \<Rightarrow> 'q \<Rightarrow> 'j net_world \<Rightarrow> 'j net_world \<times> ('j, 'r) client_result" where
  "net_call ne cw ke call m encode request w =
     (fst (net_send ne w \<lparr>cq_jsonrpc = ''2.0'', cq_id = 1, cq_method = m, cq_params = encode ke request\<rparr>),
      call \<lparr>kl_wire = cw, kl_codec = ke, kl_send = (\<lambda>q. snd (net_send ne w q))\<rparr> request)"

definition net_client :: "'j net \<Rightarrow> 'j client_wire \<Rightarrow> 'j client_codec \<Rightarrow> ('j net_world, 'j) demo_client" where
  "net_client ne cw ke =
     \<lparr>dk_open = net_call ne cw ke open_session ''session.open'' ke_open,
      dk_close = net_call ne cw ke close_session ''session.close'' ke_close,
      dk_index = net_call ne cw ke client_index ''axp.index'' ke_index,
      dk_describe = net_call ne cw ke client_describe ''axp.describe'' ke_describe,
      dk_start = net_call ne cw ke start_job ''job.start'' ke_start,
      dk_status = net_call ne cw ke client_status ''job.status'' ke_status,
      dk_cancel = net_call ne cw ke cancel_job ''job.cancel'' ke_cancel,
      dk_attach = (\<lambda>request w. let w = net_tick ne w in (w, attach_job cw (ne_attach ne (nw_state w)) request)),
      dk_now = (\<lambda>w. let w = net_tick ne w in (w, nw_time w)),
      dk_sleep = (\<lambda>d w. net_tick ne (w\<lparr>nw_time := nw_time w + d\<rparr>)),
      dk_print = (\<lambda>text w. w\<lparr>nw_output := nw_output w @ text\<rparr>)\<rparr>"

lemma net_tick_sel [simp]:
  "nw_time w \<le> nw_time (net_tick ne w)" "nw_output (net_tick ne w) = nw_output w"
  by (simp_all add: net_tick_def)

lemma net_call_sel [simp]:
  "nw_time (fst (net_call ne cw ke call m encode request w)) = nw_time (net_tick ne w)"
  "nw_output (fst (net_call ne cw ke call m encode request w)) = nw_output w"
  by (simp_all add: net_call_def net_send_def Let_def split: prod.split)

interpretation net: poll_clock "net_client ne cw ke" nw_time
proof unfold_locales
  fix w :: "'a net_world" and d
  have "nw_time w + d = nw_time (w\<lparr>nw_time := nw_time w + d\<rparr>)" by simp
  also have "\<dots> \<le> nw_time (net_tick ne (w\<lparr>nw_time := nw_time w + d\<rparr>))" by (rule net_tick_sel)
  finally show "nw_time w + d \<le> nw_time (dk_sleep (net_client ne cw ke) d w)" by (simp add: net_client_def)
qed (auto simp: net_client_def Let_def)

interpretation counted: poll_counter "counting (net_client ne cw ke)" "nw_time \<circ> fst" snd
proof unfold_locales
  fix w :: "'a net_world \<times> nat" and d
  show "(nw_time \<circ> fst) w + d \<le> (nw_time \<circ> fst) (dk_sleep (counting (net_client ne cw ke)) d w)"
    using net.sleep_time [of "fst w" d ne cw ke] by (cases w) simp
next
  fix w w' :: "'a net_world \<times> nat" and t
  assume "dk_now (counting (net_client ne cw ke)) w = (w', t)"
  then show "t = (nw_time \<circ> fst) w' \<and> (nw_time \<circ> fst) w \<le> (nw_time \<circ> fst) w'"
    using net.now_time [of ne cw ke "fst w" "fst w'" t]
    by (cases w; cases "dk_now (net_client ne cw ke) (fst w)") auto
next
  fix w :: "'a net_world \<times> nat" and req
  show "(nw_time \<circ> fst) w \<le> (nw_time \<circ> fst) (fst (dk_status (counting (net_client ne cw ke)) req w))"
    using net.status_time [of "fst w" ne cw ke req] by (cases w) simp
qed (auto simp: split: prod.splits)

interpretation net: untouched "net_client ne cw ke" nw_output
  by unfold_locales (simp_all add: net_client_def Let_def)

lemma store_close_final: "\<not> store_authorize (fst (store_close now store sid)) sid tok"
  by (auto simp: store_close_def store_authorize_def store_get_def am_remove_def am_get_def am_write_def
      audit_handle_def split: option.splits)

lemma session_close_revokes:
  assumes "session_close wi env st params = (st', r)" and "wi_close wi params = Inr req"
  shows "\<not> authorized st' (sc_session_id req) (sc_cap_token req)"
proof (cases "authorized st (sc_session_id req) (sc_cap_token req)")
  case True
  then show ?thesis
    using assms store_close_final [of "sv_now (ve_start env)" "en_sessions (st_engine st)" "sc_session_id req"]
    by (auto simp: session_close_def parse_params_def require_authorized_session_def split: prod.splits)
next
  case False
  then show ?thesis
    using assms by (auto simp: session_close_def parse_params_def require_authorized_session_def)
qed

text \<open>The codecs of the two sides agree on a request to close.\<close>

definition close_arrives :: "'j net \<Rightarrow> 'j client_codec \<Rightarrow> session_close_request \<Rightarrow> bool" where
  "close_arrives ne ke req \<longleftrightarrow> wi_close (ne_wire ne) (ke_close ke req) = Inr req \<and>
     (\<exists>rid. wi_request (ne_wire ne) (ne_request ne \<lparr>cq_jsonrpc = ''2.0'', cq_id = 1,
         cq_method = ''session.close'', cq_params = ke_close ke req\<rparr>) =
       Inr \<lparr>rq_jsonrpc = ''2.0'', rq_id = Some rid, rq_method = ''session.close'', rq_params = ke_close ke req\<rparr>)"

lemma demo_close_revokes:
  assumes "close_arrives ne ke \<lparr>sc_session_id = sor_session_id session, sc_cap_token = sor_cap_token session\<rparr>"
    and "demo_close (net_client ne cw ke) session w = (w', r)"
  shows "\<not> authorized (nw_state w') (sor_session_id session) (sor_cap_token session) \<and> nw_output w' = nw_output w"
proof -
  let ?req = "\<lparr>sc_session_id = sor_session_id session, sc_cap_token = sor_cap_token session\<rparr>"
  let ?w = "net_tick ne w"
  obtain rid where dec: "wi_close (ne_wire ne) (ke_close ke ?req) = Inr ?req"
      "wi_request (ne_wire ne) (ne_request ne \<lparr>cq_jsonrpc = ''2.0'', cq_id = 1,
         cq_method = ''session.close'', cq_params = ke_close ke ?req\<rparr>) =
       Inr \<lparr>rq_jsonrpc = ''2.0'', rq_id = Some rid, rq_method = ''session.close'', rq_params = ke_close ke ?req\<rparr>"
    using assms(1) unfolding close_arrives_def by blast
  obtain st' x where c: "session_close (ne_wire ne) (ne_env ne (nw_turn ?w)) (nw_state ?w) (ke_close ke ?req) = (st', x)"
    by fastforce
  have w': "w' = fst (net_call ne cw ke close_session ''session.close'' ke_close ?req w)"
    using assms(2) by (auto simp: demo_close_def net_client_def split: prod.splits)
  then have "nw_state w' = st'"
    using dec(2) c by (auto simp: net_call_def net_send_def Let_def rpc_handler_def dispatch_def call_method_def
        split: prod.splits sum.splits)
  then show ?thesis using session_close_revokes [OF c dec(1)] w' by simp
qed

section \<open>Properties\<close>

definition shows_success :: "(measurement \<Rightarrow> (string, string) result) \<Rightarrow> runtime_args \<Rightarrow> string \<Rightarrow> bool" where
  "shows_success to_json args text \<longleftrightarrow>
     (\<exists>m. me_terminal_job_status m = ''exited:0'' \<and> str_contains (me_log_text m) RUNTIME_MARKER \<and>
        (if ra_json args then \<exists>json. to_json m = Inr json \<and> text = json @ [CHR 10]
         else text = format_human_measurement m))"

lemma print_success:
  assumes "runtime_steps dk args session t0 ms w0 = Some (w, Inr m)"
    and "print_measurement (net_client ne cw ke) to_json m (ra_json args) w1 = (w', r)"
  shows "\<exists>text. nw_output w' = nw_output w1 @ text \<and> (r = Inr () \<and> shows_success to_json args text \<or>
    (\<exists>e. r = Inl e) \<and> text = [])"
  using assms(2) runtime_steps_success [OF assms(1)]
  by (auto simp: print_measurement_def shows_success_def net_client_def split: if_splits sum.splits)

lemma net_moving:
  "\<forall>n. 0 < ne_delay ne n \<Longrightarrow> \<forall>w req. nw_time w < nw_time (fst (dk_status (net_client ne cw ke) req w))"
  by (simp add: net_client_def) (simp add: net_tick_def)

text \<open>C29: The demo leaves no session behind: connected to the server, once its session is open and the rest
  of the run has returned, the session's token has no authority, whatever the server did, whoever else
  used it and wherever the run failed; it reports success, or prints anything, only for a job that exited
  with 0 and whose replayed log has the marker. And the run returns if the poll interval is not zero; with
  \<open>--poll-interval-ms 0\<close> it returns if each call takes some time on the clock.\<close>

theorem demo_leaves_no_session:
  assumes "close_arrives ne ke \<lparr>sc_session_id = sor_session_id session, sc_cap_token = sor_cap_token session\<rparr>"
  shows "(\<forall>w' r. runtime_session (net_client ne cw ke) to_json args t0 (session, ms) w = Some (w', r) \<longrightarrow>
      \<not> authorized (nw_state w') (sor_session_id session) (sor_cap_token session) \<and>
      (\<exists>text. nw_output w' = nw_output w @ text \<and> (r = Inr () \<or> text \<noteq> [] \<longrightarrow> shows_success to_json args text))) \<and>
    (0 < ra_poll_interval_ms args \<or> (\<forall>n. 0 < ne_delay ne n) \<longrightarrow>
      (\<exists>w' r. runtime_session (net_client ne cw ke) to_json args t0 (session, ms) w = Some (w', r)))"
proof (intro conjI allI impI)
  let ?dk = "net_client ne cw ke"
  fix w' r
  assume run: "runtime_session ?dk to_json args t0 (session, ms) w = Some (w', r)"
  then obtain w1 x where steps: "runtime_steps ?dk args session t0 ms w = Some (w1, x)"
    by (auto simp: runtime_session_def bind_eq_Some_conv)
  then have kept: "nw_output w1 = nw_output w" using net.keeps_runtime_steps unfolding keeps_def by blast
  have "\<not> authorized (nw_state w') (sor_session_id session) (sor_cap_token session) \<and>
      (\<exists>text. nw_output w' = nw_output w @ text \<and> (r = Inr () \<or> text \<noteq> [] \<longrightarrow> shows_success to_json args text))"
  proof (cases x)
    case (Inl e)
    obtain w2 c where "demo_close ?dk session w1 = (w2, c)" by fastforce
    then show ?thesis
      using demo_close_revokes [OF assms] run steps Inl kept by (auto simp: runtime_session_def)
  next
    case (Inr m)
    obtain w2 p where printed: "print_measurement ?dk to_json m (ra_json args) w1 = (w2, p)" by fastforce
    obtain out where shown: "nw_output w2 = nw_output w1 @ out"
        "p = Inr () \<and> shows_success to_json args out \<or> (\<exists>e. p = Inl e) \<and> out = []"
      using print_success [OF steps [unfolded Inr] printed] by blast
    obtain w3 c where closed: "demo_close ?dk session w2 = (w3, c)" by fastforce
    have "w' = w3" "r = rbind (map_err DemoJson p) (\<lambda>_. c)"
      using run steps Inr printed closed by (simp_all add: runtime_session_def)
    then show ?thesis
      using demo_close_revokes [OF assms closed] shown kept by (intro conjI exI [of _ out]) auto
  qed
  then show "\<not> authorized (nw_state w') (sor_session_id session) (sor_cap_token session)"
    "\<exists>text. nw_output w' = nw_output w @ text \<and> (r = Inr () \<or> text \<noteq> [] \<longrightarrow> shows_success to_json args text)"
    by blast+
next
  let ?dk = "net_client ne cw ke"
  assume "0 < ra_poll_interval_ms args \<or> (\<forall>n. 0 < ne_delay ne n)"
  then have "returns (runtime_steps ?dk args session t0 ms)"
    using net_moving by (intro net.returns_runtime_steps) blast
  then obtain w1 x where "runtime_steps ?dk args session t0 ms w = Some (w1, x)"
    unfolding returns_def by (metis option.exhaust surj_pair)
  then show "\<exists>w' r. runtime_session ?dk to_json args t0 (session, ms) w = Some (w', r)"
    by (cases x) (auto simp: runtime_session_def split: prod.split)
qed

definition wit_codec :: "unit client_codec" where
  "wit_codec = \<lparr>ke_open = (\<lambda>_. ()), ke_close = (\<lambda>_. ()), ke_audit = (\<lambda>_. ()), ke_index = (\<lambda>_. ()),
     ke_describe = (\<lambda>_. ()), ke_start = (\<lambda>_. ()), ke_status = (\<lambda>_. ()), ke_cancel = (\<lambda>_. ()),
     kd_open = (\<lambda>_. Inl ''e''), kd_close = (\<lambda>_. Inl ''e''), kd_audit = (\<lambda>_. Inl ''e''), kd_index = (\<lambda>_. Inl ''e''),
     kd_describe = (\<lambda>_. Inl ''e''), kd_start = (\<lambda>_. Inl ''e''), kd_status = (\<lambda>_. Inl ''e''), kd_cancel = (\<lambda>_. Inl ''e'')\<rparr>"

definition wit_net :: "unit net" where
  "wit_net = \<lparr>ne_wire = wit_wire\<lparr>wi_request := (\<lambda>bs. Inr \<lparr>rq_jsonrpc = ''2.0'', rq_id = Some (),
       rq_method = bytes_str bs, rq_params = ()\<rparr>)\<rparr>,
     ne_env = (\<lambda>_. wit_server_env), ne_others = (\<lambda>_ st. st), ne_delay = (\<lambda>_. 1),
     ne_request = (\<lambda>q. str_bytes (cq_method q)), ne_reply = (\<lambda>_. []), ne_attach = (\<lambda>_ _. Inl ''e'')\<rparr>"

definition wit_net_world :: "unit net_world" where
  "wit_net_world = \<lparr>nw_state = wit_opened, nw_time = 0, nw_turn = 0, nw_output = []\<rparr>"

definition wit_session :: session_open_response where
  "wit_session = \<lparr>sor_session_id = session_id_of 1, sor_granted_tier = DevNone, sor_cap_token = ''ct_''\<rparr>"

lemma wit_close_arrives:
  "close_arrives wit_net wit_codec \<lparr>sc_session_id = sor_session_id wit_session, sc_cap_token = sor_cap_token wit_session\<rparr>"
proof -
  have "bytes_str (str_bytes ''session.close'') = ''session.close''" by code_simp
  then show ?thesis by (simp add: close_arrives_def wit_net_def wit_codec_def wit_session_def wit_wire_def)
qed

lemma demo_leaves_no_session_witness:
  "authorized (nw_state wit_net_world) (session_id_of 1) ''ct_'' \<and>
   (\<exists>w' r. runtime_session (net_client wit_net wit_client_wire wit_codec) (\<lambda>_. Inr []) runtime_args_default 0
       (wit_session, 0) wit_net_world = Some (w', r) \<and> \<not> authorized (nw_state w') (session_id_of 1) ''ct_'')"
proof -
  have "0 < ra_poll_interval_ms runtime_args_default"
    by (simp add: runtime_args_default_def DEFAULT_POLL_INTERVAL_MS_def)
  from this demo_leaves_no_session [OF wit_close_arrives] show ?thesis
    using wit_opened_engine(4) by (fastforce simp: wit_session_def wit_net_world_def)
qed

text \<open>C37: Polling ends: with an interval that is not zero, \<open>wait_terminal\<close> returns, and the calls of
  \<open>job.status\<close> it made, counted in the client, are at least one and at most one more than the
  intervals the timeout is made of, however it ends: with a terminal status, and then the count it
  returns is exactly the number of those calls; with the error of a failed call; or with a timeout, and
  then the timeout has really passed. Counting changes nothing: the plain client ends the same way.\<close>

theorem wait_terminal_bounds:
  assumes "0 < interval"
  shows "\<exists>w' r polls.
    wait_terminal (counting (net_client ne cw ke)) session jid timeout interval (w, 0) = Some ((w', polls), r) \<and>
    wait_terminal (net_client ne cw ke) session jid timeout interval w = Some (w', r) \<and>
    0 < polls \<and> polls \<le> Suc ((timeout + interval - 1) div interval) \<and>
    (case r of
       Inr (status, k) \<Rightarrow> is_terminal (jtr_status status) \<and> k = of_nat polls
     | Inl e \<Rightarrow> (\<exists>c. e = DemoClient c) \<or>
         e = DemoMessage ''job did not reach a terminal state within timeout'' \<and> nw_time w + timeout \<le> nw_time w')"
proof -
  obtain w' r m where run: "wait_terminal (counting (net_client ne cw ke)) session jid timeout interval (w, 0) =
        Some (w', r)" "snd w' = m"
      and outcome: "poll_outcome 0 m (Suc (poll_rounds interval timeout)) (nw_time w + timeout)
        (nw_time (fst w')) r"
    using counted.wait_terminal_bounded [OF assms, of ne cw ke session jid timeout "(w, 0)"] by auto
  have w': "w' = (fst w', m)" using run(2) by (metis prod.collapse)
  show ?thesis
    using run(1) wait_terminal_counting [of _ session jid timeout interval w 0 "fst w'" m r] outcome w'
    unfolding poll_outcome_def poll_rounds_def
    by (intro exI [of _ "fst w'"] exI [of _ r] exI [of _ m]) (auto split: sum.splits prod.splits)
qed

lemma wait_terminal_bounds_witness:
  "\<exists>w' r. wait_terminal (net_client wit_net wit_client_wire wit_codec) wit_session (JobId ''j_1'') 100 30 wit_net_world =
     Some (w', r)"
  using wait_terminal_bounds [of 30 wit_net wit_client_wire wit_codec wit_session "JobId ''j_1''" 100 wit_net_world]
  by auto

section \<open>The program\<close>

datatype demo_command = DemoRuntime runtime_args
datatype cli_command = CmdServe serve_args | CmdDemo demo_command
datatype exit_code = ExitSuccess | ExitFailure

definition demo_run ::
    "(string \<Rightarrow> (string, url) result) \<Rightarrow> (url \<Rightarrow> ('w, 'j) demo_client) \<Rightarrow> ('w \<Rightarrow> 'w \<times> (string, string) result)
      \<Rightarrow> (string \<Rightarrow> 'w \<Rightarrow> 'w) \<Rightarrow> (measurement \<Rightarrow> (string, string) result) \<Rightarrow> demo_command
      \<Rightarrow> ('w, 'j demo_error, unit) action" where
  "demo_run parse connect tempdir remove_dir to_json command =
     (case command of DemoRuntime args \<Rightarrow> runtime parse connect tempdir remove_dir to_json args)"

text \<open>
  The entry point: \<open>runtime_new\<close> makes the async runtime, \<open>serving\<close> and \<open>demoing\<close> are how the two
  commands end, with the error's text. It prints lines on stdout and stderr and exits with a code.
\<close>

definition cli_run ::
    "string \<Rightarrow> string \<Rightarrow> (string, unit) result \<Rightarrow> (serve_args \<Rightarrow> (string, unit) result)
      \<Rightarrow> (demo_command \<Rightarrow> (string, unit) result) \<Rightarrow> cli_command option \<Rightarrow> string list \<times> string list \<times> exit_code" where
  "cli_run name version runtime_new serving demoing command =
     (case command of
        None \<Rightarrow> ([name @ '' '' @ version], [], ExitSuccess)
      | Some (CmdServe args) \<Rightarrow>
          (case runtime_new of
             Inl e \<Rightarrow> ([], [''failed to start async runtime: '' @ e], ExitFailure)
           | Inr _ \<Rightarrow>
               (case serving args of
                  Inr _ \<Rightarrow> ([], [], ExitSuccess)
                | Inl e \<Rightarrow> ([], [''server error: '' @ e], ExitFailure)))
      | Some (CmdDemo args) \<Rightarrow>
          (case runtime_new of
             Inl e \<Rightarrow> ([], [''failed to start async runtime: '' @ e], ExitFailure)
           | Inr _ \<Rightarrow>
               (case demoing args of
                  Inr _ \<Rightarrow> ([], [], ExitSuccess)
                | Inl e \<Rightarrow> ([], [''demo error: '' @ e], ExitFailure))))"

end
