(* ===== verification/Start_Parts.thy ===== *)
theory Start_Parts
  imports Job_Lifecycle
begin

text \<open>
  \<open>JobEngine::start\<close> cut where another thread can come between: the part that only reads the
  engine and can fail (\<open>start_check\<close>), and the parts that insert the job, register its cancel
  entry, and write the audit log and spawn the task. Run without a pause they are
  \<open>engine_start\<close>.
\<close>

section \<open>Checking and committing\<close>

text \<open>What \<open>start\<close> has in its hands once nothing can fail any more: the grants it cloned out of the
  session, the working directory, and the spawned child or the decoded component with its runner.\<close>

datatype planned_run = RunProcess child_command | RunCode "byte list"

record start_plan =
  pl_session :: session
  pl_cwd :: string
  pl_run :: planned_run

definition plan_process ::
    "start_env \<Rightarrow> session \<Rightarrow> 'j job_start_request \<Rightarrow> runnable \<Rightarrow> start_plan core_result" where
  "plan_process env se req runnable =
     rbind (prepare_process env se req runnable) (\<lambda>(cwd, cmd).
       Inr \<lparr>pl_session = se, pl_cwd = cwd, pl_run = RunProcess cmd\<rparr>)"

text \<open>Steps 1 to 7 of \<open>start\<close>, and \<open>start_code_job\<close> up to its runner: the engine is only read.\<close>

definition start_check ::
    "start_env \<Rightarrow> 'j job_engine \<Rightarrow> 'j job_start_request \<Rightarrow> start_plan core_result" where
  "start_check env eng req =
     (case Option.bind (store_get (en_sessions eng) (js_session_id req)) (am_read (en_sessions eng)) of
        None \<Rightarrow> Inl (SessionNotFound (js_session_id req))
      | Some se \<Rightarrow>
          (case js_payload req of
             PCommand command \<Rightarrow>
               if \<not> cs_permits (se_capabilities se) ProcSpawn then Inl (CapabilityDenied ''proc.spawn'')
               else plan_process env se req (Shell command)
           | PCode code lang \<Rightarrow>
               rbind (decode_code_payload (sv_base64 env) code lang) (\<lambda>bytes.
               rbind (resolve_cwd (sv_canonicalize env) (js_cwd req) (se_workspace se)) (\<lambda>cwd.
               rbind (validate_job_capabilities (js_capabilities req) (se_capabilities se)) (\<lambda>_.
               case sv_runner env of
                 Some e \<Rightarrow> Inl (JobSpawn e)
               | None \<Rightarrow> Inr \<lparr>pl_session = se, pl_cwd = cwd, pl_run = RunCode bytes\<rparr>)))
           | PCapability name params \<Rightarrow>
               if \<not> cs_permits (se_capabilities se) (Tool name) \<and>
                  \<not> cs_permits (se_capabilities se) ProcSpawn then
                 Inl (CapabilityDenied (''tool:'' @ name))
               else rbind (registry_resolve (en_registry eng) name params) (\<lambda>resolved.
                 plan_process env se req (Argv resolved))))"

text \<open>The job just inserted: its id and handle, its work, and the flags of a component's run.\<close>

record new_job =
  nj_id :: job_id
  nj_handle :: nat
  nj_work :: task_work
  nj_interrupt :: "nat option"
  nj_host_cancel :: "nat option"

text \<open>Step 8: insert the job.\<close>

definition start_insert ::
    "int \<Rightarrow> 'j job_engine \<Rightarrow> 'j job_start_request \<Rightarrow> start_plan \<Rightarrow> 'j job_engine \<times> new_job" where
  "start_insert now eng req plan =
     (case pl_run plan of
        RunProcess cmd \<Rightarrow>
          let (eng, jid, handle) = insert_running_job now eng req (pl_cwd plan) in
          (eng, \<lparr>nj_id = jid, nj_handle = handle, nj_work = WProcess cmd,
            nj_interrupt = None, nj_host_cancel = None\<rparr>)
      | RunCode bytes \<Rightarrow>
          let interrupt = length (en_interrupts eng);
              host_cancel = length (en_host_cancels eng);
              se = pl_session plan;
              context = \<lparr>cx_capabilities = se_capabilities se, cx_workspace = se_workspace se,
                cx_tier = se_tier se, cx_cwd = pl_cwd plan, cx_stdout_byte_cap = en_log_byte_cap eng,
                cx_cancel = host_cancel\<rparr>;
              (eng, jid, handle) = insert_running_job now (new_flags eng) req (pl_cwd plan) in
          (eng, \<lparr>nj_id = jid, nj_handle = handle, nj_work = WCode bytes interrupt context,
            nj_interrupt = Some interrupt, nj_host_cancel = Some host_cancel\<rparr>))"

text \<open>Step 9: register the cancel entry.\<close>

definition start_register :: "'j job_engine \<Rightarrow> new_job \<Rightarrow> 'j job_engine" where
  "start_register eng nj = register_cancel eng (nj_id nj) (nj_interrupt nj) (nj_host_cancel nj)"

text \<open>Steps 9a to 12: the audit entry and the task.\<close>

definition start_spawn ::
    "int \<Rightarrow> 'j job_engine \<Rightarrow> session_id \<Rightarrow> new_job \<Rightarrow> nat \<Rightarrow> 'j job_engine" where
  "start_spawn now eng sid nj signal =
     spawn_task (record_session_audit now eng sid (JobStarted (nj_id nj)))
       \<lparr>tk_job_id = nj_id nj, tk_session_id = sid, tk_handle = nj_handle nj, tk_signal = signal,
        tk_work = nj_work nj\<rparr>"

definition start_commit ::
    "int \<Rightarrow> 'j job_engine \<Rightarrow> 'j job_start_request \<Rightarrow> start_plan \<Rightarrow> 'j job_engine \<times> job_id" where
  "start_commit now eng req plan =
     (let (eng, nj) = start_insert now eng req plan in
      (start_spawn now (start_register eng nj) (js_session_id req) nj (length (en_signals eng)), nj_id nj))"

text \<open>Run without a pause, the parts are \<open>start\<close>.\<close>

lemma start_process_parts:
  "start_process env eng se req runnable =
     (case plan_process env se req runnable of
        Inl e \<Rightarrow> (eng, Inl e)
      | Inr plan \<Rightarrow> (case start_commit (sv_now env) eng req plan of (eng', jid) \<Rightarrow> (eng', Inr jid)))"
proof (cases "prepare_process env se req runnable")
  case (Inr p)
  obtain cwd cmd where p: "p = (cwd, cmd)" by fastforce
  show ?thesis
    unfolding start_process_sections [OF Inr [unfolded p]] plan_process_def
    by (simp add: Inr p start_commit_def start_insert_def start_register_def start_spawn_def Let_def split: prod.split)
qed (simp add: start_process_def plan_process_def)

lemma start_code_job_parts:
  assumes "sv_runner env = None"
  shows "start_code_job env eng se req cwd bytes =
    (case start_commit (sv_now env) eng req \<lparr>pl_session = se, pl_cwd = cwd, pl_run = RunCode bytes\<rparr> of
       (eng', jid) \<Rightarrow> (eng', Inr jid))"
  unfolding start_code_job_sections [OF assms]
  by (simp add: start_commit_def start_insert_def start_register_def start_spawn_def Let_def split: prod.split)

lemma engine_start_parts:
  "engine_start env eng req =
     (case start_check env eng req of
        Inl e \<Rightarrow> (eng, Inl e)
      | Inr plan \<Rightarrow> (case start_commit (sv_now env) eng req plan of (eng', jid) \<Rightarrow> (eng', Inr jid)))"
proof (cases "Option.bind (store_get (en_sessions eng) (js_session_id req)) (am_read (en_sessions eng))")
  case (Some se)
  show ?thesis
  proof (cases "js_payload req")
    case (PCode code lang)
    let ?r = "rbind (decode_code_payload (sv_base64 env) code lang) (\<lambda>bytes.
               rbind (resolve_cwd (sv_canonicalize env) (js_cwd req) (se_workspace se)) (\<lambda>cwd.
               rbind (validate_job_capabilities (js_capabilities req) (se_capabilities se)) (\<lambda>_. Inr (bytes, cwd))))"
    show ?thesis
    proof (cases "sv_runner env")
      case None
      then show ?thesis
        using Some PCode start_code_job_parts [OF None, of eng se req]
        by (cases "decode_code_payload (sv_base64 env) code lang";
            cases "resolve_cwd (sv_canonicalize env) (js_cwd req) (se_workspace se)";
            cases "validate_job_capabilities (js_capabilities req) (se_capabilities se)")
          (simp_all add: engine_start_def start_check_def)
    next
      case (Some e)
      then show ?thesis
        using \<open>Option.bind _ _ = Some se\<close> PCode
        by (cases "decode_code_payload (sv_base64 env) code lang";
            cases "resolve_cwd (sv_canonicalize env) (js_cwd req) (se_workspace se)";
            cases "validate_job_capabilities (js_capabilities req) (se_capabilities se)")
          (simp_all add: engine_start_def start_check_def start_code_job_def Let_def)
    qed
  next
    case (PCapability name params)
    then show ?thesis
      using Some by (cases "registry_resolve (en_registry eng) name params")
        (simp_all add: engine_start_def start_check_def start_process_parts)
  qed (use Some in \<open>simp add: engine_start_def start_check_def start_process_parts\<close>)
qed (simp add: engine_start_def start_check_def)

text \<open>A plan comes from a live session and its grants.\<close>

definition plan_work :: "start_plan \<Rightarrow> task_work \<Rightarrow> bool" where
  "plan_work plan work \<longleftrightarrow>
     (case pl_run plan of
        RunProcess cmd \<Rightarrow> work = WProcess cmd
      | RunCode bytes \<Rightarrow> (\<exists>interrupt cx. work = WCode bytes interrupt cx \<and>
          cx_capabilities cx = se_capabilities (pl_session plan) \<and>
          cx_workspace cx = se_workspace (pl_session plan) \<and> cx_tier cx = se_tier (pl_session plan) \<and>
          cx_cwd cx = pl_cwd plan))"

lemma plan_process_Inr:
  assumes "plan_process env se req runnable = Inr plan"
  obtains cmd where "plan = \<lparr>pl_session = se, pl_cwd = cc_cwd cmd, pl_run = RunProcess cmd\<rparr>"
    and "prepare_process env se req runnable = Inr (cc_cwd cmd, cmd)"
proof -
  obtain cwd cmd where p: "prepare_process env se req runnable = Inr (cwd, cmd)"
      "plan = \<lparr>pl_session = se, pl_cwd = cwd, pl_run = RunProcess cmd\<rparr>"
    using assms by (auto simp: plan_process_def rbind_Inr_iff)
  have "cc_cwd (c\<lparr>cc_hooks := hs\<rparr>) = cc_cwd c" for c hs by simp
  moreover have "cc_cwd (build_command runnable cwd) = cwd" by (simp add: build_command_def split: runnable.split)
  ultimately have "cc_cwd cmd = cwd" using prepare_process_Inr [OF p(1)] by metis
  then show ?thesis using that [of cmd] p by simp
qed

lemma start_check_Inr:
  assumes "start_check env eng req = Inr plan" and "plan_work plan work"
  shows "am_lookup (en_sessions eng) (js_session_id req) = Some (pl_session plan) \<and>
    resolve_cwd (sv_canonicalize env) (js_cwd req) (se_workspace (pl_session plan)) = Inr (pl_cwd plan) \<and>
    validate_job_capabilities (js_capabilities req) (se_capabilities (pl_session plan)) = Inr () \<and>
    start_work env eng (pl_session plan) req (pl_cwd plan) work"
proof -
  obtain se where se: "Option.bind (store_get (en_sessions eng) (js_session_id req)) (am_read (en_sessions eng)) = Some se"
    using assms(1) by (auto simp: start_check_def split: option.splits)
  then have l: "am_lookup (en_sessions eng) (js_session_id req) = Some se" by (simp add: store_get_def am_lookup_def)
  note check = assms(1) [unfolded start_check_def se]
  show ?thesis
  proof (cases "js_payload req")
    case (PCommand command)
    then have permits: "cs_permits (se_capabilities se) ProcSpawn" and "plan_process env se req (Shell command) = Inr plan"
      using check by (auto split: if_splits)
    from this(2) obtain cmd where cmd: "plan = \<lparr>pl_session = se, pl_cwd = cc_cwd cmd, pl_run = RunProcess cmd\<rparr>"
        "prepare_process env se req (Shell command) = Inr (cc_cwd cmd, cmd)" by (rule plan_process_Inr)
    note p = prepare_process_Inr [OF cmd(2)]
    have w: "work = WProcess cmd" using assms(2) by (simp add: plan_work_def cmd(1))
    show ?thesis
      unfolding start_work_def w cmd(1) using l permits p PCommand
      by (simp del: ex_simps)
  next
    case (PCapability name params)
    then obtain resolved where permits: "tool_permitted (se_capabilities se) name"
        and res: "registry_resolve (en_registry eng) name params = Inr resolved"
        and "plan_process env se req (Argv resolved) = Inr plan"
      using check by (auto simp: tool_permitted_def rbind_Inr_iff split: if_splits)
    from this(3) obtain cmd where cmd: "plan = \<lparr>pl_session = se, pl_cwd = cc_cwd cmd, pl_run = RunProcess cmd\<rparr>"
        "prepare_process env se req (Argv resolved) = Inr (cc_cwd cmd, cmd)" by (rule plan_process_Inr)
    note p = prepare_process_Inr [OF cmd(2)]
    have w: "work = WProcess cmd" using assms(2) by (simp add: plan_work_def cmd(1))
    show ?thesis
      unfolding start_work_def w cmd(1) using l permits p PCapability res
      by (simp del: ex_simps)
  next
    case (PCode code lang)
    then show ?thesis
      using check l assms(2) by (auto simp: rbind_Inr_iff start_work_def plan_work_def split: option.splits)
  qed
qed

lemma start_insert_work: "start_insert now eng req plan = (eng', nj) \<Longrightarrow> plan_work plan (nj_work nj)"
  by (auto simp: start_insert_def plan_work_def Let_def split: planned_run.splits prod.splits)

end
