(* ===== verification/Concurrent.thy ===== *)
theory Concurrent
  imports Start_Parts Server
begin

text \<open>
  The server with many requests in flight at once. The router serves every connection on a task of
  its own and the tasks run on several threads, so a handler may be overtaken by others between
  any two of its locks. Each handler that changes state is cut here where it gives up a
  lock, its local variables are kept in a pool of threads, and the pool steps in any order,
  together with the tasks of running jobs. The handlers that only read take no step.
\<close>

section \<open>The parts of the other handlers\<close>

definition open_begin ::
    "'j wire \<Rightarrow> server_env \<Rightarrow> 'j \<Rightarrow> (transport_error, session_open_request \<times> workspace \<times> capability_set) result" where
  "open_begin wi env params =
     rbind (parse_params (wi_open wi) params) (\<lambda>req.
     rbind (map_err Runtime (workspace_new (sv_canonicalize (ve_start env)) (so_workspace req))) (\<lambda>ws.
     rbind (map_err Runtime (cs_from_wire (so_capabilities req))) (\<lambda>caps. Inr (req, ws, caps))))"

text \<open>The id is taken in between, by \<open>next_session_id\<close>.\<close>

definition open_commit ::
    "'j wire \<Rightarrow> server_env \<Rightarrow> 'j app_state \<Rightarrow> session_open_request \<Rightarrow> workspace \<Rightarrow> capability_set \<Rightarrow> session_id
      \<Rightarrow> 'j handled" where
  "open_commit wi env st req ws caps sid =
     (case cap_token_generate (ve_entropy env) of
        Inl e \<Rightarrow> (st, Inl (Runtime e))
      | Inr cap_token \<Rightarrow>
          let resp = \<lparr>sor_session_id = sid, sor_granted_tier = so_sandbox_tier req,
                sor_cap_token = cap_token_expose cap_token\<rparr>;
              (sessions, _) = store_open (sv_now (ve_start env)) (en_sessions (st_engine st)) sid ws
                (so_sandbox_tier req) caps cap_token in
          (st\<lparr>st_engine := (st_engine st)\<lparr>en_sessions := sessions\<rparr>\<rparr>, to_value wi (ROpen resp)))"

definition close_begin ::
    "'j wire \<Rightarrow> 'j app_state \<Rightarrow> 'j \<Rightarrow> (transport_error, session_close_request) result" where
  "close_begin wi st params =
     rbind (parse_params (wi_close wi) params) (\<lambda>req.
     rbind (require_authorized_session st (sc_session_id req) (sc_cap_token req)) (\<lambda>_. Inr req))"

definition close_commit :: "'j wire \<Rightarrow> server_env \<Rightarrow> 'j app_state \<Rightarrow> session_close_request \<Rightarrow> 'j handled" where
  "close_commit wi env st req =
     (case store_close (sv_now (ve_start env)) (en_sessions (st_engine st)) (sc_session_id req) of
        (sessions, closed) \<Rightarrow>
          (st\<lparr>st_engine := (st_engine st)\<lparr>en_sessions := sessions\<rparr>\<rparr>,
           rbind (map_err (\<lambda>_. Unauthorized) closed) (\<lambda>_. to_value wi (RClose \<lparr>scr_ok = True\<rparr>))))"

definition cancel_begin ::
    "'j wire \<Rightarrow> 'j app_state \<Rightarrow> 'j \<Rightarrow> (transport_error, job_cancel_request) result" where
  "cancel_begin wi st params =
     rbind (parse_params (wi_cancel wi) params) (\<lambda>req.
     rbind (require_authorized_session st (jc_session_id req) (jc_cap_token req)) (\<lambda>_. Inr req))"

definition cancel_commit :: "'j wire \<Rightarrow> 'j app_state \<Rightarrow> job_cancel_request \<Rightarrow> 'j handled" where
  "cancel_commit wi st req =
     (case engine_cancel (st_engine st) req of
        (eng, r) \<Rightarrow>
          (st\<lparr>st_engine := eng\<rparr>, rbind (map_err Runtime r) (\<lambda>resp. to_value wi (RCancel resp))))"

definition start_begin ::
    "'j wire \<Rightarrow> 'j app_state \<Rightarrow> 'j \<Rightarrow> (transport_error, 'j job_start_request) result" where
  "start_begin wi st params =
     rbind (parse_params (wi_start wi) params) (\<lambda>req.
     rbind (require_authorized_session st (js_session_id req) (js_cap_token req)) (\<lambda>_. Inr req))"

lemma session_open_parts:
  "session_open wi env st params =
     (case open_begin wi env params of
        Inl e \<Rightarrow> (st, Inl e)
      | Inr (req, ws, caps) \<Rightarrow> (case next_session_id st of (st, sid) \<Rightarrow> open_commit wi env st req ws caps sid))"
  unfolding session_open_def open_begin_def open_commit_def Let_def by (rule refl)

lemma session_close_parts:
  "session_close wi env st params =
     (case close_begin wi st params of Inl e \<Rightarrow> (st, Inl e) | Inr req \<Rightarrow> close_commit wi env st req)"
  unfolding session_close_def close_begin_def close_commit_def by (rule refl)

lemma job_cancel_parts:
  "job_cancel wi st params =
     (case cancel_begin wi st params of Inl e \<Rightarrow> (st, Inl e) | Inr req \<Rightarrow> cancel_commit wi st req)"
  unfolding job_cancel_def cancel_begin_def cancel_commit_def by (rule refl)

lemma job_start_parts:
  "job_start wi env st params =
     (case start_begin wi st params of
        Inl e \<Rightarrow> (st, Inl e)
      | Inr req \<Rightarrow>
          (case start_check (ve_start env) (st_engine st) req of
             Inl e \<Rightarrow> (st, Inl (Runtime e))
           | Inr plan \<Rightarrow> (case start_commit (sv_now (ve_start env)) (st_engine st) req plan of
               (eng, jid) \<Rightarrow> (st\<lparr>st_engine := eng\<rparr>, to_value wi (RStart \<lparr>jsr_job_id = jid\<rparr>)))))"
  by (cases "start_check (ve_start env) (st_engine st) (projr (start_begin wi st params))")
    (auto simp: job_start_def start_begin_def engine_start_parts split: sum.split prod.split)

lemma begin_authorized:
  "close_begin wi st params = Inr creq \<Longrightarrow> authorized st (sc_session_id creq) (sc_cap_token creq)"
  "start_begin wi st params = Inr req \<Longrightarrow> authorized st (js_session_id req) (js_cap_token req)"
  "cancel_begin wi st params = Inr kreq \<Longrightarrow> authorized st (jc_session_id kreq) (jc_cap_token kreq)"
  by (auto simp: close_begin_def start_begin_def cancel_begin_def require_authorized_session_def result_simps
      split: if_splits)

section \<open>The pool of requests\<close>

text \<open>The local variables of a handler between two of its parts.\<close>

datatype 'j thread =
  TOpening session_open_request workspace capability_set session_id
| TClosing session_close_request
| TCancelling job_cancel_request
| TStarting "'j job_start_request"
| TPrepared "'j job_start_request" start_plan
| TInserted "'j job_start_request" new_job
| TRegistered "'j job_start_request" new_job nat

record 'j pool =
  po_server :: "'j server"
  po_threads :: "nat \<Rightarrow> 'j thread option"

abbreviation pool_world :: "'j pool \<Rightarrow> 'j world" where
  "pool_world p \<equiv> sr_world (po_server p)"

abbreviation pool_engine :: "'j pool \<Rightarrow> 'j job_engine" where
  "pool_engine p \<equiv> wd_engine (pool_world p)"

abbreviation pool_state :: "'j pool \<Rightarrow> 'j app_state" where
  "pool_state p \<equiv> server_state (po_server p)"

text \<open>One thread moves on; the others keep their local variables.\<close>

definition pool_move :: "'j pool \<Rightarrow> u64 \<Rightarrow> 'j world \<Rightarrow> nat \<Rightarrow> 'j thread option \<Rightarrow> 'j pool" where
  "pool_move p c w i t = \<lparr>po_server = \<lparr>sr_world = w, sr_counter = c\<rparr>, po_threads = (po_threads p)(i := t)\<rparr>"

definition thread_local :: "'j pool \<Rightarrow> nat \<Rightarrow> 'j thread option \<Rightarrow> 'j pool" where
  "thread_local p i t = pool_move p (sr_counter (po_server p)) (pool_world p) i t"

text \<open>A handler's last part: its effect on the state, and it is done.\<close>

definition thread_done :: "'j pool \<Rightarrow> nat \<Rightarrow> 'j app_state \<Rightarrow> 'j pool" where
  "thread_done p i st = pool_move p (st_session_counter st) ((pool_world p)\<lparr>wd_engine := st_engine st\<rparr>) i None"

text \<open>A part of \<open>start\<close>: the job's program point moves with it.\<close>

definition thread_start ::
    "'j pool \<Rightarrow> nat \<Rightarrow> 'j job_engine \<Rightarrow> program_point \<Rightarrow> session_id \<Rightarrow> new_job \<Rightarrow> 'j thread option \<Rightarrow> 'j pool" where
  "thread_start p i eng point sid nj t =
     pool_move p (sr_counter (po_server p)) (advance (pool_world p) eng (nj_id nj) point sid (nj_handle nj)) i t"

inductive pool_step :: "'j pool \<Rightarrow> 'j pool \<Rightarrow> bool" where
  pl_open_begin:
    "po_threads p i = None \<Longrightarrow> sr_counter (po_server p) \<noteq> - 1 \<Longrightarrow>
     open_begin (wi :: 'j wire) env params = Inr (oreq, ws, caps) \<Longrightarrow> next_session_id (pool_state p) = (st, sid) \<Longrightarrow>
     pool_step p (pool_move p (st_session_counter st) (pool_world p) i (Some (TOpening oreq ws caps sid)))"
| pl_open_commit:
    "po_threads p i = Some (TOpening oreq ws caps sid) \<Longrightarrow>
     open_commit wi env (pool_state p) oreq ws caps sid = (st, r) \<Longrightarrow> pool_step p (thread_done p i st)"
| pl_close_begin:
    "po_threads p i = None \<Longrightarrow> close_begin wi (pool_state p) params = Inr creq \<Longrightarrow>
     pool_step p (thread_local p i (Some (TClosing creq)))"
| pl_close_commit:
    "po_threads p i = Some (TClosing creq) \<Longrightarrow> close_commit wi env (pool_state p) creq = (st, r) \<Longrightarrow>
     pool_step p (thread_done p i st)"
| pl_cancel_begin:
    "po_threads p i = None \<Longrightarrow> cancel_begin wi (pool_state p) params = Inr kreq \<Longrightarrow>
     pool_step p (thread_local p i (Some (TCancelling kreq)))"
| pl_cancel_commit:
    "po_threads p i = Some (TCancelling kreq) \<Longrightarrow> cancel_commit wi (pool_state p) kreq = (st, r) \<Longrightarrow>
     pool_step p (thread_done p i st)"
| pl_start_begin:
    "po_threads p i = None \<Longrightarrow> start_begin wi (pool_state p) params = Inr req \<Longrightarrow>
     pool_step p (thread_local p i (Some (TStarting req)))"
| pl_start_check:
    "po_threads p i = Some (TStarting req) \<Longrightarrow> start_check env (pool_engine p) req = Inr plan \<Longrightarrow>
     pool_step p (thread_local p i (Some (TPrepared req plan)))"
| pl_start_refused:
    "po_threads p i = Some (TStarting req) \<Longrightarrow> start_check env (pool_engine p) req = Inl e \<Longrightarrow>
     pool_step p (thread_local p i None)"
| pl_start_insert:
    "po_threads p i = Some (TPrepared req plan) \<Longrightarrow> en_next_id (pool_engine p) \<noteq> - 1 \<Longrightarrow>
     start_insert now (pool_engine p) req plan = (eng, nj) \<Longrightarrow>
     pool_step p (thread_start p i eng PInserted (js_session_id req) nj (Some (TInserted req nj)))"
| pl_start_register:
    "po_threads p i = Some (TInserted req nj) \<Longrightarrow>
     pool_step p (thread_start p i (start_register (pool_engine p) nj) PRegistered (js_session_id req) nj
       (Some (TRegistered req nj (length (en_signals (pool_engine p))))))"
| pl_start_spawn:
    "po_threads p i = Some (TRegistered req nj signal) \<Longrightarrow>
     pool_step p (thread_start p i (start_spawn now (pool_engine p) (js_session_id req) nj signal) PActive
       (js_session_id req) nj None)"
| pl_task:
    "task_step (pool_world p) w \<Longrightarrow> pool_step p (p\<lparr>po_server := (po_server p)\<lparr>sr_world := w\<rparr>\<rparr>)"

definition pool_new :: "'j provider_registry \<Rightarrow> 'j pool" where
  "pool_new registry = \<lparr>po_server = server_new registry, po_threads = (\<lambda>_. None)\<rparr>"

inductive pool_reachable :: "'j pool \<Rightarrow> bool" where
  pr_new: "pool_reachable (pool_new registry)"
| pr_step: "pool_reachable p \<Longrightarrow> pool_step p p' \<Longrightarrow> pool_reachable p'"

lemma pool_run_reachable: "pool_step\<^sup>*\<^sup>* p q \<Longrightarrow> pool_reachable p \<Longrightarrow> pool_reachable q"
  by (induction rule: rtranclp_induct) (auto intro: pr_step)

lemma pool_move_sel [simp]:
  "po_threads (pool_move p c w i t) = (po_threads p)(i := t)"
  "sr_counter (po_server (pool_move p c w i t)) = c" "pool_world (pool_move p c w i t) = w"
  "po_threads (thread_local p i t) = (po_threads p)(i := t)" "po_server (thread_local p i t) = po_server p"
  "po_threads (thread_done p i st) = (po_threads p)(i := None)" "pool_state (thread_done p i st) = st"
  "pool_engine (thread_done p i st) = st_engine st" "sr_counter (po_server (thread_done p i st)) = st_session_counter st"
  "wd_point (pool_world (thread_done p i st)) = wd_point (pool_world p)"
  "po_threads (thread_start p i eng pt sid nj t) = (po_threads p)(i := t)"
  "pool_world (thread_start p i eng pt sid nj t) = advance (pool_world p) eng (nj_id nj) pt sid (nj_handle nj)"
  "sr_counter (po_server (thread_start p i eng pt sid nj t)) = sr_counter (po_server p)"
  by (simp_all add: pool_move_def thread_local_def thread_done_def thread_start_def server_state_def)

section \<open>A request on its own is a run of the pool\<close>

lemma server_state_sel [simp]:
  "st_engine (server_state s) = wd_engine (sr_world s)" "st_session_counter (server_state s) = sr_counter s"
  by (simp_all add: server_state_def)

definition pool_run :: "'j pool \<Rightarrow> 'j app_state \<Rightarrow> bool" where
  "pool_run p st \<longleftrightarrow> (\<exists>q. pool_step\<^sup>*\<^sup>* p q \<and> pool_state q = st \<and> po_threads q = po_threads p)"

lemma pool_run_refl [simp]: "pool_run p (pool_state p)"
  unfolding pool_run_def by blast

lemma idle_upd [simp]: "f i = None \<Longrightarrow> f(i := None) = f"
  by (rule fun_upd_idem)

lemma pool_run_open:
  assumes "po_threads p i = None" and "sr_counter (po_server p) \<noteq> - 1"
    and "session_open wi env (pool_state p) params = (st, r)"
  shows "pool_run p st"
proof (cases "open_begin wi env params")
  case (Inr x)
  obtain oreq ws caps where x: "x = (oreq, ws, caps)" by (cases x) auto
  obtain st1 sid where n: "next_session_id (pool_state p) = (st1, sid)" by fastforce
  let ?p = "pool_move p (st_session_counter st1) (pool_world p) i (Some (TOpening oreq ws caps sid))"
  have "pool_state ?p = st1" using n by (auto simp: next_session_id_def server_state_def)
  then have c: "open_commit wi env (pool_state ?p) oreq ws caps sid = (st, r)"
    using assms(3) by (simp add: session_open_parts Inr x n)
  have "pool_step p ?p" by (rule pl_open_begin [OF assms(1,2) Inr [unfolded x] n])
  moreover have "pool_step ?p (thread_done ?p i st)" by (rule pl_open_commit [OF _ c]) simp
  ultimately show ?thesis
    using assms(1) unfolding pool_run_def
    by (intro exI [of _ "thread_done ?p i st"]) (auto intro: converse_rtranclp_into_rtranclp)
qed (use assms(3) in \<open>auto simp: session_open_parts\<close>)

lemma thread_local_state [simp]: "pool_state (thread_local p i t) = pool_state p"
  by (simp add: server_state_def)

lemma pool_run_two:
  assumes "po_threads p i = None" and "pool_step p (thread_local p i t)"
    and "pool_step (thread_local p i t) (thread_done (thread_local p i t) i st)"
  shows "pool_run p st"
  unfolding pool_run_def using assms
  by (intro exI [of _ "thread_done (thread_local p i t) i st"]) (auto intro: converse_rtranclp_into_rtranclp)

lemma pool_run_close:
  assumes "po_threads p i = None" and "session_close wi env (pool_state p) params = (st, r)"
  shows "pool_run p st"
proof (cases "close_begin wi (pool_state p) params")
  case (Inr creq)
  let ?p = "thread_local p i (Some (TClosing creq))"
  have c: "close_commit wi env (pool_state ?p) creq = (st, r)"
    using assms(2) by (simp add: session_close_parts Inr)
  show ?thesis
    by (rule pool_run_two [OF assms(1) pl_close_begin [OF assms(1) Inr]], rule pl_close_commit [OF _ c]) simp
qed (use assms(2) in \<open>auto simp: session_close_parts\<close>)

lemma pool_run_cancel:
  assumes "po_threads p i = None" and "job_cancel wi (pool_state p) params = (st, r)"
  shows "pool_run p st"
proof (cases "cancel_begin wi (pool_state p) params")
  case (Inr kreq)
  let ?p = "thread_local p i (Some (TCancelling kreq))"
  have c: "cancel_commit wi (pool_state ?p) kreq = (st, r)"
    using assms(2) by (simp add: job_cancel_parts Inr)
  show ?thesis
    by (rule pool_run_two [OF assms(1) pl_cancel_begin [OF assms(1) Inr]], rule pl_cancel_commit [OF _ c]) simp
qed (use assms(2) in \<open>auto simp: job_cancel_parts\<close>)

lemma pool_run_start:
  assumes "po_threads p i = None" and "en_next_id (pool_engine p) \<noteq> - 1"
    and "job_start wi env (pool_state p) params = (st, r)"
  shows "pool_run p st"
proof (cases "start_begin wi (pool_state p) params")
  case (Inr req)
  let ?p1 = "thread_local p i (Some (TStarting req))"
  have s1: "pool_step p ?p1" by (rule pl_start_begin [OF assms(1) Inr])
  show ?thesis
  proof (cases "start_check (ve_start env) (pool_engine p) req")
    case (Inl e)
    then show ?thesis using assms(3) by (auto simp: job_start_parts Inr)
  next
    case plan: (Inr plan)
    let ?now = "sv_now (ve_start env)" and ?sid = "js_session_id req"
    obtain eng nj where ins: "start_insert ?now (pool_engine p) req plan = (eng, nj)" by fastforce
    let ?p2 = "thread_local ?p1 i (Some (TPrepared req plan))"
    let ?p3 = "thread_start ?p2 i eng PInserted ?sid nj (Some (TInserted req nj))"
    let ?p4 = "thread_start ?p3 i (start_register eng nj) PRegistered ?sid nj (Some (TRegistered req nj (length (en_signals eng))))"
    let ?p5 = "thread_start ?p4 i (start_spawn ?now (start_register eng nj) ?sid nj (length (en_signals eng))) PActive ?sid nj None"
    have s2: "pool_step ?p1 ?p2" by (rule pl_start_check [of _ _ _ "ve_start env"]) (simp_all add: plan)
    have s3: "pool_step ?p2 ?p3" using pl_start_insert [of ?p2 i req plan ?now eng nj] assms(2) ins by simp
    have s4: "pool_step ?p3 ?p4" using pl_start_register [of ?p3 i req nj] by simp
    have s5: "pool_step ?p4 ?p5" using pl_start_spawn [of ?p4 i req nj "length (en_signals eng)" ?now] by simp
    have "pool_step\<^sup>*\<^sup>* p ?p5" using s1 s2 s3 s4 s5 by (meson converse_rtranclp_into_rtranclp rtranclp.rtrancl_refl)
    moreover have "pool_state ?p5 = st"
      using assms(3) by (simp add: job_start_parts Inr plan start_commit_def ins Let_def) (simp add: server_state_def)
    ultimately show ?thesis using assms(1) unfolding pool_run_def by (intro exI [of _ ?p5]) simp
  qed
qed (use assms(3) in \<open>auto simp: job_start_parts\<close>)

lemma dispatch_pool_run:
  assumes "po_threads p i = None" and "sr_counter (po_server p) \<noteq> - 1" and "en_next_id (pool_engine p) \<noteq> - 1"
    and "dispatch wi env (pool_state p) req = (st, resp)"
  shows "pool_run p st"
proof -
  consider "st = pool_state p" | r where "call_method wi env (pool_state p) (rq_method req) (rq_params req) = Some (st, r)"
    using assms(4) by (auto simp: dispatch_def Let_def split: option.splits sum.splits prod.splits)
  then show ?thesis
  proof cases
    case 2
    then show ?thesis
      using pool_run_open [OF assms(1,2)] pool_run_close [OF assms(1)] pool_run_cancel [OF assms(1)]
        pool_run_start [OF assms(1,3)]
      by (auto simp: call_method_def session_audit_def rpc_index_def rpc_describe_def job_status_def split: if_splits)
  qed simp
qed

section \<open>What the threads rely on\<close>

definition handed :: "u64 \<Rightarrow> session_id \<Rightarrow> bool" where
  "handed c sid \<longleftrightarrow> (\<exists>n < c. sid = session_id_of n)"

lemma handed_next: "handed c sid \<Longrightarrow> c \<noteq> - 1 \<Longrightarrow> handed (c + 1) sid"
  unfolding handed_def using u64_less_next less_trans by blast

lemma handed_new: "c \<noteq> - 1 \<Longrightarrow> handed (c + 1) (session_id_of c)" "\<not> handed c (session_id_of c)"
  unfolding handed_def by (auto dest: u64_less_next)

text \<open>The jobs of a session, and the sessions that own a job.\<close>

definition jobs_of :: "'j job_store \<Rightarrow> session_id \<Rightarrow> job_id set" where
  "jobs_of jobs sid = {jid. \<exists>job. job_lookup jobs jid = Some job \<and> jb_session_id job = sid}"

definition job_sessions :: "'j job_store \<Rightarrow> session_id set" where
  "job_sessions jobs = {sid. jobs_of jobs sid \<noteq> {}}"

lemma issued_handed:
  "issued c sessions jobs \<longleftrightarrow>
     (\<forall>sid. am_lookup sessions sid \<noteq> None \<longrightarrow> handed c sid) \<and> (\<forall>sid \<in> job_sessions jobs. handed c sid)"
  unfolding issued_def handed_def job_sessions_def jobs_of_def by blast

text \<open>The session id a thread is about to open, the one it is about to insert a job for, and the job
  whose start it is in the middle of.\<close>

fun thread_opens :: "'j thread \<Rightarrow> session_id option" where
  "thread_opens (TOpening oreq ws caps sid) = Some sid"
| "thread_opens t = None"

fun thread_uses :: "'j thread \<Rightarrow> session_id option" where
  "thread_uses (TStarting req) = Some (js_session_id req)"
| "thread_uses (TPrepared req plan) = Some (js_session_id req)"
| "thread_uses t = None"

fun thread_owns :: "'j thread \<Rightarrow> job_id option" where
  "thread_owns (TInserted req nj) = Some (nj_id nj)"
| "thread_owns (TRegistered req nj signal) = Some (nj_id nj)"
| "thread_owns t = None"

fun thread_ok :: "u64 \<Rightarrow> 'j world \<Rightarrow> 'j thread \<Rightarrow> bool" where
  "thread_ok c w (TOpening oreq ws caps sid) \<longleftrightarrow>
     handed c sid \<and> am_lookup (en_sessions (wd_engine w)) sid = None \<and> sid \<notin> job_sessions (en_jobs (wd_engine w))"
| "thread_ok c w (TStarting req) \<longleftrightarrow> handed c (js_session_id req) \<and>
     (\<forall>se. am_lookup (en_sessions (wd_engine w)) (js_session_id req) = Some se \<longrightarrow>
        js_cap_token req = cap_token_expose (se_cap_token se))"
| "thread_ok c w (TPrepared req plan) \<longleftrightarrow> handed c (js_session_id req)"
| "thread_ok c w (TInserted req nj) \<longleftrightarrow> at_point w (nj_id nj) PInserted (js_session_id req) (nj_handle nj)"
| "thread_ok c w (TRegistered req nj signal) \<longleftrightarrow>
     at_point w (nj_id nj) PRegistered (js_session_id req) (nj_handle nj)"
| "thread_ok c w t \<longleftrightarrow> True"

definition apart :: "'j thread \<Rightarrow> 'j thread \<Rightarrow> bool" where
  "apart t u \<longleftrightarrow>
     (\<forall>sid. thread_opens t = Some sid \<longrightarrow> thread_opens u \<noteq> Some sid \<and> thread_uses u \<noteq> Some sid) \<and>
     (\<forall>jid. thread_owns t = Some jid \<longrightarrow> thread_owns u \<noteq> Some jid)"

definition pool_inv :: "'j pool \<Rightarrow> bool" where
  "pool_inv p \<longleftrightarrow> server_inv (po_server p) \<and>
     (\<forall>i t. po_threads p i = Some t \<longrightarrow> thread_ok (sr_counter (po_server p)) (pool_world p) t) \<and>
     (\<forall>i j t u. i \<noteq> j \<longrightarrow> po_threads p i = Some t \<longrightarrow> po_threads p j = Some u \<longrightarrow> apart t u)"

lemma pool_invD:
  assumes "pool_inv p"
  shows "world_inv (pool_world p)"
    and "issued (sr_counter (po_server p)) (en_sessions (pool_engine p)) (en_jobs (pool_engine p))"
    and "po_threads p i = Some t \<Longrightarrow> thread_ok (sr_counter (po_server p)) (pool_world p) t"
    and "i \<noteq> j \<Longrightarrow> po_threads p i = Some t \<Longrightarrow> po_threads p j = Some u \<Longrightarrow> apart t u"
    and "store_inv (en_sessions (pool_engine p))" and "engine_inv (pool_engine p)"
  using assms unfolding pool_inv_def server_inv_def world_inv_def engine_inv_def by blast+

text \<open>A session that is still there after a step has the token it had, unless the step opened it.\<close>

definition kept :: "session_store \<Rightarrow> session_store \<Rightarrow> bool" where
  "kept s s' \<longleftrightarrow> (\<forall>sid se'. am_lookup s' sid = Some se' \<longrightarrow>
     (\<exists>se. am_lookup s sid = Some se \<and> se_cap_token se' = se_cap_token se))"

lemma kept_refl [simp]: "kept s s"
  by (simp add: kept_def)

lemma kept_close: "store_inv s \<Longrightarrow> store_close now s sid = (s', r) \<Longrightarrow> kept s s'"
  by (auto simp: kept_def store_close_lookup(1) split: if_splits)

lemma kept_audit: "store_inv s \<Longrightarrow> kept s (audited_sessions now s sid k)"
  by (auto simp: kept_def audited_sessions_lookup record_audit_def split: if_splits)

lemma kept_None: "kept s s' \<Longrightarrow> am_lookup s sid = None \<Longrightarrow> am_lookup s' sid = None"
  by (cases "am_lookup s' sid") (fastforce simp: kept_def)+

lemma thread_ok_frame:
  assumes "thread_ok c w u" and "c \<le> c'"
    and "\<And>sid se. thread_opens u = Some sid \<or> thread_uses u = Some sid \<Longrightarrow>
      am_lookup (en_sessions (wd_engine w')) sid = Some se \<Longrightarrow>
      \<exists>se0. am_lookup (en_sessions (wd_engine w)) sid = Some se0 \<and> se_cap_token se = se_cap_token se0"
    and "\<And>sid. thread_opens u = Some sid \<Longrightarrow> sid \<in> job_sessions (en_jobs (wd_engine w')) \<Longrightarrow>
      sid \<in> job_sessions (en_jobs (wd_engine w))"
    and "\<And>jid. thread_owns u = Some jid \<Longrightarrow> wd_point w' jid = wd_point w jid"
  shows "thread_ok c' w' u"
proof -
  have handed: "handed c sid \<Longrightarrow> handed c' sid" for sid
    using assms(2) by (auto simp: handed_def intro: less_le_trans)
  show ?thesis
  proof (cases u)
    case (TOpening oreq ws caps sid)
    then show ?thesis
      using assms(1,4) assms(3) [of sid] handed by (cases "am_lookup (en_sessions (wd_engine w')) sid") auto
  next
    case (TStarting req)
    then show ?thesis using assms(1) assms(3) [of "js_session_id req"] handed by fastforce
  qed (use assms(1,5) handed in \<open>auto simp: at_point_def\<close>)
qed

text \<open>The general step: thread \<open>i\<close> moves, the others still hold what they rely on.\<close>

lemma pool_inv_move:
  assumes "pool_inv p" and "world_inv w" and "issued c (en_sessions (wd_engine w)) (en_jobs (wd_engine w))"
    and "\<And>j u. j \<noteq> i \<Longrightarrow> po_threads p j = Some u \<Longrightarrow> thread_ok c w u"
    and "\<And>t. t' = Some t \<Longrightarrow> thread_ok c w t"
    and "\<And>t j u. t' = Some t \<Longrightarrow> j \<noteq> i \<Longrightarrow> po_threads p j = Some u \<Longrightarrow> apart t u \<and> apart u t"
  shows "pool_inv (pool_move p c w i t')"
proof -
  have "thread_ok c w u" if "((po_threads p)(i := t')) j = Some u" for j u
    using that assms(4,5) by (cases "j = i") auto
  moreover have "apart t u" if "j \<noteq> k" "((po_threads p)(i := t')) j = Some t" "((po_threads p)(i := t')) k = Some u" for j k t u
    using that assms(6) pool_invD(4) [OF assms(1) that(1)] by (cases "j = i"; cases "k = i") auto
  ultimately show ?thesis
    using assms(2,3) unfolding pool_inv_def server_inv_def by (simp add: pool_move_def)
qed

text \<open>A step that changes no engine: only the counter and the thread.\<close>

lemma pool_inv_local:
  assumes "pool_inv p" and "sr_counter (po_server p) \<le> c"
    and "\<And>t. t' = Some t \<Longrightarrow> thread_ok c (pool_world p) t"
    and "\<And>t j u. t' = Some t \<Longrightarrow> j \<noteq> i \<Longrightarrow> po_threads p j = Some u \<Longrightarrow> apart t u \<and> apart u t"
  shows "pool_inv (pool_move p c (pool_world p) i t')"
proof (rule pool_inv_move [OF assms(1) pool_invD(1) [OF assms(1)] _ _ assms(3,4)])
  show "issued c (en_sessions (pool_engine p)) (en_jobs (pool_engine p))"
    using pool_invD(2) [OF assms(1)] assms(2) unfolding issued_def by (meson less_le_trans)
  show "thread_ok c (pool_world p) u" if "po_threads p j = Some u" for j u
    using thread_ok_frame [OF pool_invD(3) [OF assms(1) that] assms(2)] by blast
qed

text \<open>The parts of \<open>start\<close> after a plan is made: the job's point moves, no session comes or goes.\<close>

lemma pool_inv_start:
  assumes "pool_inv p" and "world_inv (advance (pool_world p) eng (nj_id nj) pt sid (nj_handle nj))"
    and "kept (en_sessions (pool_engine p)) (en_sessions eng)"
    and "\<And>s. s \<in> job_sessions (en_jobs eng) \<Longrightarrow> s \<in> job_sessions (en_jobs (pool_engine p)) \<or>
      s = sid \<and> po_threads p i = Some (TPrepared req plan) \<and> sid = js_session_id req"
    and "\<And>j u. j \<noteq> i \<Longrightarrow> po_threads p j = Some u \<Longrightarrow> thread_owns u \<noteq> Some (nj_id nj)"
    and "\<And>t. t' = Some t \<Longrightarrow> thread_owns t = Some (nj_id nj) \<and>
      thread_ok (sr_counter (po_server p)) (advance (pool_world p) eng (nj_id nj) pt sid (nj_handle nj)) t"
  shows "pool_inv (thread_start p i eng pt sid nj t')"
  unfolding thread_start_def
proof (rule pool_inv_move [OF assms(1,2)])
  let ?c = "sr_counter (po_server p)" and ?w = "advance (pool_world p) eng (nj_id nj) pt sid (nj_handle nj)"
  show "issued ?c (en_sessions (wd_engine ?w)) (en_jobs (wd_engine ?w))"
    using pool_invD(2) [OF assms(1)] assms(3,4) pool_invD(3) [OF assms(1), of i] kept_None [OF assms(3)]
    unfolding issued_handed by fastforce
  show "thread_ok ?c ?w u" if "j \<noteq> i" "po_threads p j = Some u" for j u
  proof (rule thread_ok_frame [OF pool_invD(3) [OF assms(1) that(2)] order_refl])
    show "\<exists>se0. am_lookup (en_sessions (pool_engine p)) s = Some se0 \<and> se_cap_token se = se_cap_token se0"
      if "am_lookup (en_sessions (wd_engine ?w)) s = Some se" for s se
      using assms(3) that by (auto simp: kept_def)
    show "s \<in> job_sessions (en_jobs (pool_engine p))"
      if "thread_opens u = Some s" "s \<in> job_sessions (en_jobs (wd_engine ?w))" for s
    proof -
      have "po_threads p i = Some (TPrepared req plan) \<Longrightarrow> js_session_id req \<noteq> s"
        using pool_invD(4) [OF assms(1) \<open>j \<noteq> i\<close> \<open>po_threads p j = Some u\<close>] that(1) by (auto simp: apart_def)
      then show ?thesis using assms(4) that(2) by auto
    qed
    show "wd_point ?w jid = wd_point (pool_world p) jid" if "thread_owns u = Some jid" for jid
      using assms(5) [OF \<open>j \<noteq> i\<close> \<open>po_threads p j = Some u\<close>] that by auto
  qed
  show "apart t u \<and> apart u t" if "t' = Some t" "j \<noteq> i" "po_threads p j = Some u" for t j u
    using assms(5) [OF that(2,3)] assms(6) [OF that(1)] by (cases t) (auto simp: apart_def)
qed (use assms(6) in blast)

lemma thread_handed:
  "thread_ok c w u \<Longrightarrow> thread_opens u = Some sid \<or> thread_uses u = Some sid \<Longrightarrow> handed c sid"
  by (cases u) auto

lemma thread_owns_at:
  "thread_ok c w u \<Longrightarrow> thread_owns u = Some jid \<Longrightarrow>
     \<exists>pt sid h. at_point w jid pt sid h \<and> (pt = PInserted \<or> pt = PRegistered)"
  by (cases u) auto

text \<open>A handler's last part.\<close>

lemma pool_inv_done:
  assumes "pool_inv p" and "world_inv ((pool_world p)\<lparr>wd_engine := st_engine st\<rparr>)"
    and "st_session_counter st = sr_counter (po_server p)" and "en_jobs (st_engine st) = en_jobs (pool_engine p)"
    and "\<And>sid se'. am_lookup (en_sessions (st_engine st)) sid = Some se' \<Longrightarrow>
      (\<exists>se. am_lookup (en_sessions (pool_engine p)) sid = Some se \<and> se_cap_token se' = se_cap_token se) \<or>
      (\<exists>oreq ws caps. po_threads p i = Some (TOpening oreq ws caps sid))"
  shows "pool_inv (thread_done p i st)"
  unfolding thread_done_def
proof (rule pool_inv_move [OF assms(1,2)])
  let ?w = "(pool_world p)\<lparr>wd_engine := st_engine st\<rparr>" and ?c = "st_session_counter st"
  note inv = pool_invD [OF assms(1)]
  have "handed ?c sid" if "am_lookup (en_sessions (st_engine st)) sid \<noteq> None" for sid
    using that assms(5) [of sid] inv(2) inv(3) [of i] assms(3)
    unfolding issued_handed by fastforce
  then show "issued ?c (en_sessions (wd_engine ?w)) (en_jobs (wd_engine ?w))"
    using inv(2) assms(3,4) unfolding issued_handed by simp
  show "thread_ok ?c ?w u" if j: "j \<noteq> i" "po_threads p j = Some u" for j u
  proof (rule thread_ok_frame [OF inv(3) [OF j(2)]])
    show "\<exists>se0. am_lookup (en_sessions (pool_engine p)) sid = Some se0 \<and> se_cap_token se = se_cap_token se0"
      if "thread_opens u = Some sid \<or> thread_uses u = Some sid" "am_lookup (en_sessions (wd_engine ?w)) sid = Some se" for sid se
    proof -
      have "po_threads p i \<noteq> Some (TOpening oreq ws caps sid)" for oreq ws caps
        using inv(4) [OF j(1) [symmetric] _ j(2)] that(1) by (auto simp: apart_def)
      then show ?thesis using assms(5) that(2) by fastforce
    qed
  qed (simp_all add: assms(3,4))
qed simp_all

lemma open_commit_effect:
  assumes "open_commit wi env st oreq ws caps sid = (st', r)"
  obtains "st' = st" | now tier tok sessions h where
    "store_open now (en_sessions (st_engine st)) sid ws tier caps tok = (sessions, h)"
    "st' = st\<lparr>st_engine := (st_engine st)\<lparr>en_sessions := sessions\<rparr>\<rparr>"
proof (cases "cap_token_generate (ve_entropy env)")
  case (Inl e)
  then show ?thesis using assms that(1) by (simp add: open_commit_def)
next
  case (Inr tok)
  obtain sessions h where
      "store_open (sv_now (ve_start env)) (en_sessions (st_engine st)) sid ws (so_sandbox_tier oreq) caps tok = (sessions, h)"
    by fastforce
  then show ?thesis using assms Inr that(2) by (simp add: open_commit_def)
qed

lemma close_commit_effect:
  assumes "close_commit wi env st creq = (st', r)"
  obtains now sessions c where "store_close now (en_sessions (st_engine st)) (sc_session_id creq) = (sessions, c)"
    "st' = st\<lparr>st_engine := (st_engine st)\<lparr>en_sessions := sessions\<rparr>\<rparr>"
  using assms by (auto simp: close_commit_def split: prod.splits)

lemma cancel_commit_effect:
  assumes "cancel_commit wi st kreq = (st', r)"
  obtains eng c where "engine_cancel (st_engine st) kreq = (eng, c)" "st' = st\<lparr>st_engine := eng\<rparr>"
  using assms by (auto simp: cancel_commit_def split: prod.splits)

lemma start_insert_eq:
  assumes "start_insert now eng req plan = (eng', nj)"
  obtains eng0 where "eng0 = eng \<or> eng0 = new_flags eng"
    and "insert_running_job now eng0 req (pl_cwd plan) = (eng', nj_id nj, nj_handle nj)"
  using assms that [of eng] that [of "new_flags eng"]
  by (auto simp: start_insert_def Let_def split: planned_run.splits prod.splits)

section \<open>Every step of the pool is a run of the engine's atomic steps\<close>

lemma with_engine_id [simp]: "w\<lparr>wd_engine := wd_engine w\<rparr> = w"
  by simp

lemma pool_step_world:
  assumes "pool_step p p'" and "pool_inv p"
  shows "job_step\<^sup>*\<^sup>* (pool_world p) (pool_world p')"
  using assms(1)
proof cases
  case (pl_open_commit i oreq ws caps sid wi env st r)
  from pl_open_commit(3) show ?thesis
  proof (cases rule: open_commit_effect)
    case 2
    then have "job_step (pool_world p) (pool_world p')"
      using job_step.js_open [of _ "pool_world p"] by (simp add: pl_open_commit(1) thread_done_def)
    then show ?thesis by blast
  qed (simp add: pl_open_commit(1) thread_done_def)
next
  case (pl_close_commit i creq wi env st r)
  from pl_close_commit(3) show ?thesis
  proof (cases rule: close_commit_effect)
    case 1
    then have "job_step (pool_world p) (pool_world p')"
      using job_step.js_close [of _ "pool_world p"] by (simp add: pl_close_commit(1) thread_done_def)
    then show ?thesis by blast
  qed
next
  case (pl_cancel_commit i kreq wi st r)
  from pl_cancel_commit(3) show ?thesis
  proof (cases rule: cancel_commit_effect)
    case 1
    then have "job_step (pool_world p) (pool_world p')"
      using job_step.js_cancel [of "pool_world p"] by (simp add: pl_cancel_commit(1) thread_done_def)
    then show ?thesis by blast
  qed
next
  case (pl_start_insert i req plan now eng nj)
  from pl_start_insert(4) obtain eng0 where eng0: "eng0 = pool_engine p \<or> eng0 = new_flags (pool_engine p)"
      "insert_running_job now eng0 req (pl_cwd plan) = (eng, nj_id nj, nj_handle nj)" by (rule start_insert_eq)
  let ?w = "(pool_world p)\<lparr>wd_engine := eng0\<rparr>"
  have "job_step\<^sup>*\<^sup>* (pool_world p) ?w"
    using eng0(1) job_step.js_flags [of "pool_world p"] by auto
  moreover have "en_next_id (wd_engine ?w) \<noteq> - 1"
    using eng0(1) pl_start_insert(3) by (auto simp: new_flags_def)
  then have "job_step ?w (advance ?w eng (nj_id nj) PInserted (js_session_id req) (nj_handle nj))"
    using eng0(2) by (intro job_step.js_insert) simp_all
  moreover have "advance ?w eng (nj_id nj) PInserted (js_session_id req) (nj_handle nj) = pool_world p'"
    by (simp add: pl_start_insert(1)) (simp add: advance_def)
  ultimately show ?thesis by (metis rtranclp.rtrancl_into_rtrancl)
next
  case (pl_start_register i req nj)
  have "at_point (pool_world p) (nj_id nj) PInserted (js_session_id req) (nj_handle nj)"
    using pool_invD(3) [OF assms(2) pl_start_register(2)] by simp
  then have "job_step (pool_world p) (pool_world p')"
    unfolding pl_start_register(1) start_register_def by (simp add: job_step.js_register)
  then show ?thesis by blast
next
  case (pl_start_spawn i req nj signal now)
  have "at_point (pool_world p) (nj_id nj) PRegistered (js_session_id req) (nj_handle nj)"
    using pool_invD(3) [OF assms(2) pl_start_spawn(2)] by simp
  then have "job_step (pool_world p) (pool_world p')"
    unfolding pl_start_spawn(1) start_spawn_def by (simp add: job_step.js_started)
  then show ?thesis by blast
next
  case (pl_task w)
  then show ?thesis using task_step_job_step by auto
qed simp_all

lemma pool_step_world_inv: "pool_step p p' \<Longrightarrow> pool_inv p \<Longrightarrow> world_inv (pool_world p')"
proof -
  assume "pool_step p p'" "pool_inv p"
  from pool_step_world [OF this] pool_invD(1) [OF \<open>pool_inv p\<close>] show ?thesis
    by (induction rule: rtranclp_induct) (auto intro: job_step_inv)
qed

text \<open>What a start's insertion does to the stores.\<close>

lemma start_insert_facts:
  assumes "engine_inv eng" and "en_next_id eng \<noteq> - 1" and "start_insert now eng req plan = (eng', nj)"
  shows "job_lookup (en_jobs eng) (nj_id nj) = None" and "en_sessions eng' = en_sessions eng"
    and "job_lookup (en_jobs eng') k =
      (if k = nj_id nj then Some (registered_job now eng req (pl_cwd plan)) else job_lookup (en_jobs eng) k)"
    and "en_tasks eng' = en_tasks eng" and "en_cancels eng' = en_cancels eng"
    and "jobs_of (en_jobs eng') sid =
      (if sid = js_session_id req then insert (nj_id nj) (jobs_of (en_jobs eng) sid) else jobs_of (en_jobs eng) sid)"
    and "job_sessions (en_jobs eng') = insert (js_session_id req) (job_sessions (en_jobs eng))"
proof -
  obtain eng0 where eng0: "eng0 = eng \<or> eng0 = new_flags eng"
    and ins: "insert_running_job now eng0 req (pl_cwd plan) = (eng', nj_id nj, nj_handle nj)"
    using assms(3) by (rule start_insert_eq)
  have same: "en_jobs eng0 = en_jobs eng" "en_sessions eng0 = en_sessions eng" "en_next_id eng0 = en_next_id eng"
      "en_tasks eng0 = en_tasks eng" "en_cancels eng0 = en_cancels eng"
      "registered_job now eng0 req (pl_cwd plan) = registered_job now eng req (pl_cwd plan)" "engine_inv eng0"
    using eng0 assms(1) by (auto simp: new_flags_def registered_job_def engine_inv_def)
  note facts = insert_running_job_inv [OF same(7) _ ins, unfolded same(1-6), OF assms(2)]
  show fresh: "job_lookup (en_jobs eng) (nj_id nj) = None" and "en_sessions eng' = en_sessions eng"
      "en_cancels eng' = en_cancels eng" by (rule facts)+
  show l: "job_lookup (en_jobs eng') k =
      (if k = nj_id nj then Some (registered_job now eng req (pl_cwd plan)) else job_lookup (en_jobs eng) k)" for k
    by (rule facts)
  show "en_tasks eng' = en_tasks eng" using ins same(4) by (auto simp: insert_running_job_eq)
  show jobs: "jobs_of (en_jobs eng') sid =
      (if sid = js_session_id req then insert (nj_id nj) (jobs_of (en_jobs eng) sid) else jobs_of (en_jobs eng) sid)" for sid
    using fresh by (auto simp: jobs_of_def l split: if_splits)
  then show "job_sessions (en_jobs eng') = insert (js_session_id req) (job_sessions (en_jobs eng))"
    by (auto simp: job_sessions_def split: if_splits)
qed

lemma update_jobs_of:
  assumes "world_inv w" and "at_point w jid pt sid h" and "same_job f"
  shows "jobs_of (update_job f (en_jobs (wd_engine w)) h) s = jobs_of (en_jobs (wd_engine w)) s"
proof -
  have inv: "job_store_inv (en_jobs (wd_engine w))" using assms(1) by (simp add: world_inv_def engine_inv_def)
  have get: "job_store_get (en_jobs (wd_engine w)) jid = Some h"
    using world_inv_point [OF assms(1,2)] by (simp add: point_ok_def)
  show ?thesis
    using assms(3) by (auto simp: jobs_of_def update_job_lookup [OF inv get] same_job_def split: if_splits)
qed

lemma task_step_frame:
  assumes "task_step w w'" and "world_inv w"
  shows "kept (en_sessions (wd_engine w)) (en_sessions (wd_engine w'))"
    and "jobs_of (en_jobs (wd_engine w')) = jobs_of (en_jobs (wd_engine w))"
    and "at_point w jid pt sid h \<Longrightarrow> pt = PInserted \<or> pt = PRegistered \<Longrightarrow> wd_point w' jid = wd_point w jid"
    and "en_tasks (wd_engine w') = en_tasks (wd_engine w)"
    and "job_lookup (en_jobs (wd_engine w')) jid = None \<longleftrightarrow> job_lookup (en_jobs (wd_engine w)) jid = None"
proof -
  have inv: "store_inv (en_sessions (wd_engine w))" "job_store_inv (en_jobs (wd_engine w))"
    using assms(2) by (simp_all add: world_inv_def engine_inv_def)
  have get: "job_store_get (en_jobs (wd_engine w)) k = Some g" if "at_point w k q s g" for k q s g
    using world_inv_point [OF assms(2) that] by (simp add: point_ok_def)
  show "kept (en_sessions (wd_engine w)) (en_sessions (wd_engine w'))"
    using assms(1) by cases (simp_all add: finish_write_update finish_notify_update finish_remove_def kept_audit [OF inv(1)])
  show "jobs_of (en_jobs (wd_engine w')) = jobs_of (en_jobs (wd_engine w))"
    using assms(1)
    by cases (simp_all add: push_log_update finish_write_update finish_notify_update finish_remove_def
        update_jobs_of [OF assms(2)] same_job_def fun_eq_iff)
  show "wd_point w' jid = wd_point w jid" if "at_point w jid pt sid h" "pt = PInserted \<or> pt = PRegistered"
    using assms(1) that by cases (auto simp: at_point_def)
  show "en_tasks (wd_engine w') = en_tasks (wd_engine w)"
    using assms(1) by cases (simp_all add: finish_write_update finish_notify_update finish_remove_def)
  show "job_lookup (en_jobs (wd_engine w')) jid = None \<longleftrightarrow> job_lookup (en_jobs (wd_engine w)) jid = None"
    using assms(1)
    by cases (simp_all add: push_log_update finish_write_update finish_notify_update finish_remove_def
        update_job_lookup [OF inv(2) get])
qed

lemma pool_inv_task:
  assumes "pool_inv p" and "task_step (pool_world p) w"
  shows "pool_inv (p\<lparr>po_server := (po_server p)\<lparr>sr_world := w\<rparr>\<rparr>)"
proof -
  note inv = pool_invD [OF assms(1)]
  note frame = task_step_frame [OF assms(2) inv(1)]
  have "thread_ok (sr_counter (po_server p)) w u" if "po_threads p j = Some u" for j u
    using frame(1-3) thread_owns_at [OF inv(3) [OF that]]
    by (intro thread_ok_frame [OF inv(3) [OF that] order_refl]) (auto simp: kept_def job_sessions_def)
  moreover have "world_inv w" using job_step_inv [OF task_step_job_step [OF assms(2)] inv(1)] .
  ultimately show ?thesis
    using issued_task [OF assms(2) inv(1,2)] inv(4) unfolding pool_inv_def server_inv_def by simp
qed

lemma pool_inv_thread:
  assumes "pool_inv p" and "\<And>t. t' = Some t \<Longrightarrow> thread_ok (sr_counter (po_server p)) (pool_world p) t"
    and "\<And>t j u. t' = Some t \<Longrightarrow> j \<noteq> i \<Longrightarrow> po_threads p j = Some u \<Longrightarrow> apart t u \<and> apart u t"
  shows "pool_inv (thread_local p i t')"
  unfolding thread_local_def using pool_inv_local [OF assms(1) order_refl assms(2,3)] .

lemma pool_inv_open_begin:
  assumes "pool_inv p" and "sr_counter (po_server p) \<noteq> - 1" and "next_session_id (pool_state p) = (st, sid)"
  shows "pool_inv (pool_move p (st_session_counter st) (pool_world p) i (Some (TOpening oreq ws caps sid)))"
proof -
  let ?c = "sr_counter (po_server p)"
  note inv = pool_invD [OF assms(1)]
  have st: "st_session_counter st = ?c + 1" and sid: "sid = session_id_of ?c"
    using assms(3) by (auto simp: next_session_id_def)
  note new = handed_new(1) [OF assms(2)] handed_new(2) [of ?c]
  have "am_lookup (en_sessions (pool_engine p)) sid = None" "sid \<notin> job_sessions (en_jobs (pool_engine p))"
    using inv(2) new(2) unfolding issued_handed sid by blast+
  moreover have "thread_opens u \<noteq> Some sid \<and> thread_uses u \<noteq> Some sid" if "po_threads p j = Some u" for j u
    using thread_handed [OF inv(3) [OF that]] new(2) unfolding sid by blast
  moreover have "?c \<le> ?c + 1" using u64_less_next [OF assms(2)] less_imp_le by blast
  ultimately show ?thesis
    using new(1) unfolding st by (intro pool_inv_local [OF assms(1)]) (auto simp: sid apart_def)
qed

lemma pool_step_inv:
  assumes "pool_step p p'" and "pool_inv p"
  shows "pool_inv p'"
proof -
  note inv = pool_invD [OF assms(2)]
  note world = pool_step_world_inv [OF assms]
  from assms(1) show ?thesis
  proof cases
    case (pl_open_begin i wi env params oreq ws caps st sid)
    show ?thesis unfolding pl_open_begin(1) by (rule pool_inv_open_begin [OF assms(2) pl_open_begin(3,5)])
  next
    case (pl_open_commit i oreq ws caps sid wi env st r)
    show ?thesis
      unfolding pl_open_commit(1)
    proof (rule pool_inv_done [OF assms(2)])
      show "world_inv ((pool_world p)\<lparr>wd_engine := st_engine st\<rparr>)"
        using world by (simp add: pl_open_commit(1) thread_done_def)
      from pl_open_commit(3) show "st_session_counter st = sr_counter (po_server p)"
        "en_jobs (st_engine st) = en_jobs (pool_engine p)" by (cases rule: open_commit_effect; simp)+
      show "(\<exists>se. am_lookup (en_sessions (pool_engine p)) s = Some se \<and> se_cap_token se' = se_cap_token se) \<or>
          (\<exists>oreq ws caps. po_threads p i = Some (TOpening oreq ws caps s))"
        if "am_lookup (en_sessions (st_engine st)) s = Some se'" for s se'
        using pl_open_commit(3)
      proof (cases rule: open_commit_effect)
        case (2 now tier tok sessions h)
        have "store_inv (en_sessions (st_engine (pool_state p)))" using inv(5) by simp
        from store_open_lookup(1) [OF this 2(1), of s] show ?thesis
          using that pl_open_commit(2) by (simp add: 2(2) split: if_splits)
      qed (use that in simp)
    qed
  next
    case (pl_close_begin i wi params creq)
    show ?thesis unfolding pl_close_begin(1) by (rule pool_inv_thread [OF assms(2)]) (auto simp: apart_def)
  next
    case (pl_close_commit i creq wi env st r)
    from pl_close_commit(3) show ?thesis
    proof (cases rule: close_commit_effect)
      case (1 now sessions c)
      have "kept (en_sessions (pool_engine p)) sessions" using kept_close [OF inv(5)] 1(1) by simp
      then show ?thesis
        using world unfolding pl_close_commit(1)
        by (intro pool_inv_done [OF assms(2)]) (auto simp: 1(2) kept_def thread_done_def)
    qed
  next
    case (pl_cancel_begin i wi params kreq)
    show ?thesis unfolding pl_cancel_begin(1) by (rule pool_inv_thread [OF assms(2)]) (auto simp: apart_def)
  next
    case (pl_cancel_commit i kreq wi st r)
    from pl_cancel_commit(3) show ?thesis
    proof (cases rule: cancel_commit_effect)
      case (1 eng c)
      then show ?thesis
        using world engine_cancel_quieter [OF 1(1)] unfolding pl_cancel_commit(1)
        by (intro pool_inv_done [OF assms(2)]) (auto simp: quieter_def thread_done_def)
    qed
  next
    case (pl_start_begin i wi params req)
    obtain se where se: "am_lookup (en_sessions (pool_engine p)) (js_session_id req) = Some se"
        "js_cap_token req = cap_token_expose (se_cap_token se)"
      using begin_authorized(2) [OF pl_start_begin(3)] by (auto simp: store_authorize_iff)
    then have "handed (sr_counter (po_server p)) (js_session_id req)" using inv(2) unfolding issued_handed by blast
    moreover have "thread_opens u \<noteq> Some (js_session_id req)" if "po_threads p j = Some u" for j u
      using inv(3) [OF that] se(1) by (cases u) auto
    ultimately show ?thesis
      unfolding pl_start_begin(1) using se by (intro pool_inv_thread [OF assms(2)]) (auto simp: apart_def)
  next
    case (pl_start_check i req env plan)
    show ?thesis
      unfolding pl_start_check(1) using inv(3) [OF pl_start_check(2)] inv(4) [OF _ pl_start_check(2)] inv(4) [OF _ _ pl_start_check(2)]
      by (intro pool_inv_thread [OF assms(2)]) (auto simp: apart_def)
  next
    case (pl_start_refused i req env e)
    show ?thesis unfolding pl_start_refused(1) by (rule pool_inv_thread [OF assms(2)]) simp_all
  next
    case (pl_start_insert i req plan now eng nj)
    note ins = start_insert_facts [OF inv(6) pl_start_insert(3,4)]
    have owns: "thread_owns u \<noteq> Some (nj_id nj)" if u: "po_threads p j = Some u" for j u
    proof
      assume "thread_owns u = Some (nj_id nj)"
      then obtain pt sid h where "at_point (pool_world p) (nj_id nj) pt sid h"
        using thread_owns_at [OF inv(3) [OF u]] by blast
      from world_inv_point [OF inv(1) this] show False using ins(1) by (auto simp: point_ok_def)
    qed
    show ?thesis
      unfolding pl_start_insert(1)
      by (rule pool_inv_start [OF assms(2), where req = req and plan = plan])
        (use world ins owns pl_start_insert(1,2) in \<open>auto simp: at_point_def\<close>)
  next
    case (pl_start_register i req nj)
    show ?thesis
      unfolding pl_start_register(1)
      by (rule pool_inv_start [OF assms(2)])
        (use world inv(4) [OF _ _ pl_start_register(2)] pl_start_register(1) in
          \<open>auto simp: at_point_def start_register_def apart_def\<close>)
  next
    case (pl_start_spawn i req nj signal now)
    show ?thesis
      unfolding pl_start_spawn(1)
      by (rule pool_inv_start [OF assms(2)])
        (use world inv(4) [OF _ _ pl_start_spawn(2)] pl_start_spawn(1) kept_audit [OF inv(5)] in
          \<open>auto simp: start_spawn_def spawn_task_def apart_def\<close>)
  next
    case (pl_task w)
    show ?thesis unfolding pl_task(1) by (rule pool_inv_task [OF assms(2) pl_task(2)])
  qed
qed

lemma pool_new_inv: "pool_inv (pool_new registry)"
  using server_reachable_inv [OF server_new_reachable, of registry] by (simp add: pool_inv_def pool_new_def)

lemma pool_reachable_inv: "pool_reachable p \<Longrightarrow> pool_inv p"
  by (induction rule: pool_reachable.induct) (auto intro: pool_new_inv pool_step_inv)

lemma pool_new_world: "pool_world (pool_new registry) = world_new registry DEFAULT_LOG_BYTE_CAP"
  by (simp add: pool_new_def server_new_def)

lemma pool_reachable_world: "pool_reachable p \<Longrightarrow> job_reachable (pool_world p)"
proof (induction rule: pool_reachable.induct)
  case (pr_new registry)
  show ?case unfolding pool_new_world by (rule jr_new)
next
  case (pr_step p p')
  then show ?case using job_step_star_reachable pool_step_world [OF _ pool_reachable_inv] by blast
qed

end
