(* ===== verification/Overlap.thy ===== *)
theory Overlap
  imports Concurrent
begin

text \<open>
  What holds however requests overlap: where the authority of a job comes from, what is left of a
  session once it is closed, and a run in which a session is closed while one of its starts is
  under way.
\<close>

section \<open>Where a job's authority comes from\<close>













lemma plan_work_ex: "\<exists>work. plan_work plan work"
proof (cases "pl_run plan")
  case (RunCode bytes)
  let ?se = "pl_session plan"
  have "plan_work plan (WCode bytes 0 \<lparr>cx_capabilities = se_capabilities ?se, cx_workspace = se_workspace ?se,
      cx_tier = se_tier ?se, cx_cwd = pl_cwd plan, cx_stdout_byte_cap = 0, cx_cancel = 0\<rparr>)"
    by (simp add: plan_work_def RunCode)
  then show ?thesis by blast
qed (simp add: plan_work_def)

lemma start_check_session:
  "start_check env eng req = Inr plan \<Longrightarrow> am_lookup (en_sessions eng) (js_session_id req) = Some (pl_session plan)"
  using start_check_Inr [of env eng req plan] plan_work_ex [of plan] by blast



section \<open>What a step can bring to a session\<close>

lemma pool_step_counter:
  assumes "pool_step p p'" and "handed (sr_counter (po_server p)) sid"
  shows "handed (sr_counter (po_server p')) sid"
  using assms(1)
proof cases
  case (pl_open_begin i wi env params oreq ws caps st s)
  then show ?thesis using handed_next [OF assms(2)] by (auto simp: next_session_id_def)
next
  case (pl_open_commit i oreq ws caps s wi env st r)
  from pl_open_commit(3) show ?thesis using assms(2) by (cases rule: open_commit_effect) (simp_all add: pl_open_commit(1))
next
  case (pl_close_commit i creq wi env st r)
  from pl_close_commit(3) show ?thesis using assms(2) by (cases rule: close_commit_effect) (simp add: pl_close_commit(1))
next
  case (pl_cancel_commit i kreq wi st r)
  from pl_cancel_commit(3) show ?thesis using assms(2) by (cases rule: cancel_commit_effect) (simp add: pl_cancel_commit(1))
qed (use assms(2) in simp_all)

lemma pool_step_session:
  assumes "pool_step p p'" and "pool_inv p" and "am_lookup (en_sessions (pool_engine p)) sid = None"
    and "\<And>i oreq ws caps. po_threads p i \<noteq> Some (TOpening oreq ws caps sid)"
  shows "am_lookup (en_sessions (pool_engine p')) sid = None"
proof -
  note inv = pool_invD [OF assms(2)]
  from assms(1) show ?thesis
  proof cases
    case (pl_open_commit i oreq ws caps s wi env st r)
    from pl_open_commit(3) show ?thesis
    proof (cases rule: open_commit_effect)
      case (2 now tier tok sessions h)
      have "store_inv (en_sessions (st_engine (pool_state p)))" using inv(5) by simp
      from store_open_lookup(1) [OF this 2(1), of sid] show ?thesis
        using assms(3,4) pl_open_commit(1,2) 2(2) by auto
    qed (use assms(3) pl_open_commit(1) in simp)
  next
    case (pl_close_commit i creq wi env st r)
    from pl_close_commit(3) show ?thesis
    proof (cases rule: close_commit_effect)
      case (1 now sessions c)
      then show ?thesis using kept_None [OF kept_close [OF inv(5)] assms(3)] pl_close_commit(1) by simp
    qed
  next
    case (pl_cancel_commit i kreq wi st r)
    from pl_cancel_commit(3) show ?thesis
    proof (cases rule: cancel_commit_effect)
      case (1 eng c)
      then show ?thesis using engine_cancel_quieter [OF 1(1)] assms(3) pl_cancel_commit(1) by (simp add: quieter_def)
    qed
  next
    case (pl_start_insert i req plan now eng nj)
    then show ?thesis using start_insert_facts(2) [OF inv(6) pl_start_insert(3,4)] assms(3) by simp
  next
    case (pl_start_spawn i req nj signal now)
    then show ?thesis
      using kept_None [OF kept_audit [OF inv(5)] assms(3)] by (simp add: start_spawn_def spawn_task_def)
  next
    case (pl_task w)
    then show ?thesis using kept_None [OF task_step_frame(1) [OF pl_task(2) inv(1)] assms(3)] by simp
  qed (use assms(3) in \<open>simp_all add: start_register_def\<close>)
qed

lemma pool_step_opening:
  assumes "pool_step p p'" and "po_threads p' i = Some (TOpening oreq ws caps sid)"
    and "handed (sr_counter (po_server p)) sid"
  shows "\<exists>j. po_threads p j = Some (TOpening oreq ws caps sid)"
  using assms(1)
proof cases
  case (pl_open_begin k wi env params oreq' ws' caps' st s)
  then show ?thesis
    using assms(2,3) handed_new(2) [of "sr_counter (po_server p)"] by (auto simp: next_session_id_def split: if_splits)
qed (use assms(2) in \<open>auto split: if_splits\<close>)

lemma pool_step_prepared:
  assumes "pool_step p p'" and "po_threads p' i = Some (TPrepared req plan)"
    and "am_lookup (en_sessions (pool_engine p)) (js_session_id req) = None"
  shows "\<exists>j. po_threads p j = Some (TPrepared req plan)"
  using assms(1)
proof cases
  case (pl_start_check k req' env plan')
  then show ?thesis
    using assms(2,3) start_check_session [OF pl_start_check(3)] by (auto split: if_splits)
qed (use assms(2) in \<open>auto split: if_splits\<close>)

lemma pool_step_jobs:
  assumes "pool_step p p'" and "pool_inv p" and "\<And>i req plan. po_threads p i = Some (TPrepared req plan) \<Longrightarrow> js_session_id req \<noteq> sid"
  shows "jobs_of (en_jobs (pool_engine p')) sid = jobs_of (en_jobs (pool_engine p)) sid"
proof -
  note inv = pool_invD [OF assms(2)]
  from assms(1) show ?thesis
  proof cases
    case (pl_open_commit i oreq ws caps s wi env st r)
    from pl_open_commit(3) show ?thesis by (cases rule: open_commit_effect) (simp_all add: pl_open_commit(1))
  next
    case (pl_close_commit i creq wi env st r)
    from pl_close_commit(3) show ?thesis by (cases rule: close_commit_effect) (simp add: pl_close_commit(1))
  next
    case (pl_cancel_commit i kreq wi st r)
    from pl_cancel_commit(3) show ?thesis
      by (cases rule: cancel_commit_effect) (use engine_cancel_quieter in \<open>fastforce simp: pl_cancel_commit(1) quieter_def\<close>)
  next
    case (pl_start_insert i req plan now eng nj)
    then show ?thesis
      using start_insert_facts(6) [OF inv(6) pl_start_insert(3,4), of sid] assms(3) [OF pl_start_insert(2)] by simp
  next
    case (pl_task w)
    then show ?thesis using task_step_frame(2) [OF pl_task(2) inv(1)] by simp
  qed (simp_all add: start_register_def start_spawn_def spawn_task_def)
qed

text \<open>A session that was closed: its id is used up, and no thread is about to open it.\<close>

definition closed :: "session_id \<Rightarrow> 'j pool \<Rightarrow> bool" where
  "closed sid p \<longleftrightarrow> handed (sr_counter (po_server p)) sid \<and> am_lookup (en_sessions (pool_engine p)) sid = None \<and>
     (\<forall>i oreq ws caps. po_threads p i \<noteq> Some (TOpening oreq ws caps sid))"

definition start_in_flight :: "session_id \<Rightarrow> 'j pool \<Rightarrow> bool" where
  "start_in_flight sid p \<longleftrightarrow> (\<exists>i req plan. po_threads p i = Some (TPrepared req plan) \<and> js_session_id req = sid)"

lemma closed_step:
  assumes "pool_step p p'" and "pool_inv p" and "closed sid p"
  shows "closed sid p'"
  unfolding closed_def
proof (intro conjI allI notI)
  have c: "handed (sr_counter (po_server p)) sid" "am_lookup (en_sessions (pool_engine p)) sid = None"
      "po_threads p j \<noteq> Some (TOpening oreq ws caps sid)" for j oreq ws caps
    using assms(3) by (simp_all add: closed_def)
  show "handed (sr_counter (po_server p')) sid" by (rule pool_step_counter [OF assms(1) c(1)])
  show "am_lookup (en_sessions (pool_engine p')) sid = None" by (rule pool_step_session [OF assms(1,2) c(2,3)])
  show False if "po_threads p' i = Some (TOpening oreq ws caps sid)" for i oreq ws caps
    using pool_step_opening [OF assms(1) that c(1)] c(3) by blast
qed

lemma closed_run:
  assumes "pool_step\<^sup>*\<^sup>* p q" and "pool_reachable p" and "closed sid p"
  shows "closed sid q \<and> (\<not> start_in_flight sid p \<longrightarrow>
    \<not> start_in_flight sid q \<and> jobs_of (en_jobs (pool_engine q)) sid = jobs_of (en_jobs (pool_engine p)) sid)"
  using assms(1)
proof (induction rule: rtranclp_induct)
  case base
  show ?case using assms(3) by simp
next
  case (step q r)
  have inv: "pool_inv q" using pool_run_reachable [OF step.hyps(1) assms(2)] by (rule pool_reachable_inv)
  have "\<not> start_in_flight sid r" if "\<not> start_in_flight sid q" "closed sid q"
    using that pool_step_prepared [OF step.hyps(2)] unfolding start_in_flight_def closed_def by blast
  moreover have "jobs_of (en_jobs (pool_engine r)) sid = jobs_of (en_jobs (pool_engine q)) sid" if "\<not> start_in_flight sid q"
    using that pool_step_jobs [OF step.hyps(2) inv] unfolding start_in_flight_def by blast
  ultimately show ?case using step.IH closed_step [OF step.hyps(2) inv] by metis
qed

section \<open>A run in which a session is closed while one of its starts is under way\<close>

definition race_request :: "unit job_start_request" where
  "race_request = \<lparr>js_session_id = session_id_of 1, js_cap_token = ''ct_'', js_payload = PCode ''x'' None,
     js_cwd = None, js_capabilities = []\<rparr>"

definition race_close :: session_close_request where
  "race_close = \<lparr>sc_session_id = session_id_of 1, sc_cap_token = ''ct_''\<rparr>"

definition race_wire :: "unit wire" where
  "race_wire = wit_wire\<lparr>wi_start := (\<lambda>_. Inr race_request)\<rparr>"

lemma pool_new_opened:
  "\<exists>p. pool_reachable p \<and> pool_state p = wit_opened \<and> po_threads p = (\<lambda>_. None)"
proof -
  let ?p = "pool_new registry_new :: unit pool"
  have "session_open wit_wire wit_server_env (pool_state ?p) () = (wit_opened, Inr ())"
    using wit_open_result(1) by (simp add: pool_new_def server_new_state)
  from pool_run_open [OF _ _ this, of 0] have "pool_run ?p wit_opened"
    by (simp add: pool_new_def server_new_def)
  then show ?thesis
    using pool_run_reachable [OF _ pr_new] unfolding pool_run_def by (fastforce simp: pool_new_def)
qed

lemma race_prepared:
  "\<exists>p plan. pool_reachable p \<and> po_threads p 0 = Some (TPrepared race_request plan) \<and>
     po_threads p 1 = Some (TClosing race_close) \<and> authorized (pool_state p) (session_id_of 1) ''ct_'' \<and>
     en_jobs (pool_engine p) = job_store_new \<and> en_next_id (pool_engine p) = 1"
proof -
  obtain p0 :: "unit pool" where p0: "pool_reachable p0" "pool_state p0 = wit_opened" "po_threads p0 = (\<lambda>_. None)"
    using pool_new_opened by blast
  have auth: "authorized (pool_state p0) (session_id_of 1) ''ct_''" unfolding p0(2) by (rule wit_opened_engine(4))
  let ?p1 = "thread_local p0 0 (Some (TStarting race_request))"
  have "start_begin race_wire (pool_state p0) () = Inr race_request"
    using auth by (simp add: start_begin_def race_wire_def parse_params_def require_authorized_session_def race_request_def)
  then have s1: "pool_step p0 ?p1" by (intro pl_start_begin) (simp_all add: p0(3))
  obtain se where se: "am_lookup (en_sessions (pool_engine p0)) (session_id_of 1) = Some se"
    using auth by (auto simp: store_authorize_iff)
  then have "\<exists>plan. start_check wit_start_env (pool_engine p0) race_request = Inr plan"
    by (simp add: start_check_def race_request_def am_lookup_def store_get_def wit_start_env_def decode_code_payload_def
        resolve_cwd_def ws_contains_def validate_job_capabilities_def)
  then obtain plan where plan: "start_check wit_start_env (pool_engine p0) race_request = Inr plan" by blast
  let ?p2 = "thread_local ?p1 0 (Some (TPrepared race_request plan))"
  have s2: "pool_step ?p1 ?p2" by (rule pl_start_check [of _ _ _ wit_start_env]) (simp_all add: plan)
  let ?p3 = "thread_local ?p2 1 (Some (TClosing race_close))"
  have "close_begin race_wire (pool_state ?p2) () = Inr race_close"
    using auth by (simp add: close_begin_def race_wire_def wit_wire_def parse_params_def require_authorized_session_def race_close_def)
  then have s3: "pool_step ?p2 ?p3" by (intro pl_close_begin) (simp_all add: p0(3))
  have "pool_reachable ?p3" using p0(1) s1 s2 s3 by (meson pr_step)
  moreover have "pool_engine p0 = st_engine wit_opened" using p0(2) by (metis server_state_sel(1))
  ultimately show ?thesis
    using auth wit_opened_engine(1,3) by (intro exI [of _ ?p3] exI [of _ plan]) simp
qed

text \<open>The session is closed, the client is told so, and then the start goes on to its end: the job
  runs.\<close>

lemma race_run:
  "\<exists>(p :: unit pool) st q task job. pool_reachable p \<and> po_threads p 1 = Some (TClosing race_close) \<and>
     close_commit race_wire wit_server_env (pool_state p) race_close = (st, Inr ()) \<and>
     pool_step\<^sup>*\<^sup>* (thread_done p 1 st) q \<and> en_jobs (pool_engine p) = job_store_new \<and>
     task \<in> set (en_tasks (pool_engine q)) \<and> tk_session_id task = session_id_of 1 \<and>
     job_lookup (en_jobs (pool_engine q)) (tk_job_id task) = Some job \<and> jb_status job = Running"
proof -
  obtain p :: "unit pool" and plan where p: "pool_reachable p" "po_threads p 0 = Some (TPrepared race_request plan)"
      "po_threads p 1 = Some (TClosing race_close)" "authorized (pool_state p) (session_id_of 1) ''ct_''"
      "en_jobs (pool_engine p) = job_store_new" "en_next_id (pool_engine p) = 1"
    using race_prepared by blast
  let ?now = "sv_now (ve_start wit_server_env)" and ?sid = "session_id_of 1"
  obtain sessions c where close: "store_close ?now (en_sessions (pool_engine p)) ?sid = (sessions, c)" by fastforce
  have "c = Inr ()" using authorized_close [OF p(4), of ?now] close by simp
  then obtain st where st: "close_commit race_wire wit_server_env (pool_state p) race_close = (st, Inr ())"
      "st_engine st = (pool_engine p)\<lparr>en_sessions := sessions\<rparr>"
    using close by (simp add: close_commit_def race_close_def to_value_def race_wire_def wit_wire_def)
  let ?p0 = "thread_done p 1 st"
  have s0: "pool_step p ?p0" by (rule pl_close_commit [OF p(3) st(1)])
  then have inv: "engine_inv (pool_engine ?p0)"
    using pool_invD(6) [OF pool_reachable_inv] pr_step [OF p(1)] by blast
  obtain eng nj where ins: "start_insert 0 (pool_engine ?p0) race_request plan = (eng, nj)" by fastforce
  have n: "en_next_id (pool_engine ?p0) \<noteq> - 1" by (simp add: st(2) p(6))
  let ?p1 = "thread_start ?p0 0 eng PInserted ?sid nj (Some (TInserted race_request nj))"
  let ?p2 = "thread_start ?p1 0 (start_register eng nj) PRegistered ?sid nj (Some (TRegistered race_request nj (length (en_signals eng))))"
  let ?p3 = "thread_start ?p2 0 (start_spawn 0 (start_register eng nj) ?sid nj (length (en_signals eng))) PActive ?sid nj None"
  have sid: "js_session_id race_request = ?sid" by (simp add: race_request_def)
  have "pool_step ?p0 ?p1" using pl_start_insert [of ?p0 0 race_request plan 0 eng nj] p(2) n ins by (simp add: sid)
  moreover have "pool_step ?p1 ?p2" using pl_start_register [of ?p1 0 race_request nj] by (simp add: sid)
  moreover have "pool_step ?p2 ?p3"
    using pl_start_spawn [of ?p2 0 race_request nj "length (en_signals eng)" 0] by (simp add: sid)
  ultimately have run: "pool_step\<^sup>*\<^sup>* ?p0 ?p3"
    by (meson converse_rtranclp_into_rtranclp rtranclp.rtrancl_refl)
  let ?task = "\<lparr>tk_job_id = nj_id nj, tk_session_id = ?sid, tk_handle = nj_handle nj,
    tk_signal = length (en_signals eng), tk_work = nj_work nj\<rparr>"
  have "?task \<in> set (en_tasks (pool_engine ?p3))" by (simp add: start_spawn_def spawn_task_def)
  moreover have "job_lookup (en_jobs (pool_engine ?p3)) (nj_id nj) =
      Some (registered_job 0 (pool_engine ?p0) race_request (pl_cwd plan))"
    using start_insert_facts(3) [OF inv n ins, of "nj_id nj"]
    by (simp add: start_spawn_def spawn_task_def start_register_def)
  ultimately show ?thesis
    using p(1,3,5) st(1) run by (intro exI [of _ p] exI [of _ st] exI [of _ ?p3] exI [of _ ?task]) simp
qed

section \<open>Properties\<close>

text \<open>C25: Requests that overlap are still runs of the engine's atomic steps: whatever the order in which
  the handlers in flight and the tasks of jobs move, every step of the pool is a run of those steps,
  so what holds in all their reachable worlds holds here; and a request that meets no other is
  handled by the pool just as \<open>dispatch\<close> does.\<close>

theorem concurrent_requests_refine_steps:
  assumes "pool_reachable p"
  shows "job_reachable (pool_world p) \<and>
    (\<forall>p'. pool_step p p' \<longrightarrow> job_step\<^sup>*\<^sup>* (pool_world p) (pool_world p')) \<and>
    (\<forall>i wi env req st resp. po_threads p i = None \<longrightarrow> sr_counter (po_server p) \<noteq> - 1 \<longrightarrow>
       en_next_id (pool_engine p) \<noteq> - 1 \<longrightarrow> dispatch wi env (pool_state p) req = (st, resp) \<longrightarrow>
       (\<exists>q. pool_step\<^sup>*\<^sup>* p q \<and> pool_state q = st \<and> po_threads q = po_threads p))"
  using pool_reachable_world [OF assms] pool_step_world [OF _ pool_reachable_inv [OF assms]]
    dispatch_pool_run [of p] unfolding pool_run_def by blast

lemma concurrent_requests_refine_steps_witness:
  "\<exists>q. pool_step\<^sup>*\<^sup>* (pool_new (registry_new :: unit provider_registry)) q \<and> pool_state q = wit_opened"
proof -
  let ?p = "pool_new registry_new :: unit pool"
  have st: "pool_state ?p = with_registry registry_new" by (simp add: pool_new_def server_new_state)
  have "po_threads ?p 0 = None" "sr_counter (po_server ?p) \<noteq> - 1" "en_next_id (pool_engine ?p) \<noteq> - 1"
    by (simp_all add: pool_new_def server_new_def world_new_def with_log_byte_cap_def engine_new_def)
  moreover have "dispatch wit_wire wit_server_env (pool_state ?p) (wit_rpc ''session.open'') = (wit_opened, response_success () ())"
    by (simp only: st wit_open_result(2))
  ultimately show ?thesis
    using concurrent_requests_refine_steps [OF pr_new, of "registry_new :: unit provider_registry"] by blast
qed



text \<open>C23: Closing is final however requests overlap: once \<open>close\<close> has removed the session no token is
  authorized for its id again, every later request that names it is answered \<open>UNAUTHORIZED\<close>
  without effect, and its jobs, their cancel entries and signals were left alone, so they run on and
  no later request can cancel them. A job of the session appears afterwards only if a start had passed its
  checks when the session went.\<close>

theorem concurrent_close_is_final:
  assumes "pool_reachable p" and "po_threads p i = Some (TClosing creq)"
    and "close_commit wi env (pool_state p) creq = (st, Inr v)"
    and "pool_step\<^sup>*\<^sup>* (thread_done p i st) q"
  shows "(\<forall>tok. \<not> authorized (pool_state q) (sc_session_id creq) tok) \<and>
    (\<forall>wi env m ps tok. request_credentials wi m ps = Some (sc_session_id creq, tok) \<longrightarrow>
      call_method wi env (pool_state q) m ps = Some (pool_state q, Inl Unauthorized)) \<and>
    en_jobs (st_engine st) = en_jobs (pool_engine p) \<and> en_cancels (st_engine st) = en_cancels (pool_engine p) \<and>
    en_signals (st_engine st) = en_signals (pool_engine p) \<and>
    ((\<forall>j req plan. po_threads p j = Some (TPrepared req plan) \<longrightarrow> js_session_id req \<noteq> sc_session_id creq) \<longrightarrow>
      (\<forall>jid job. job_lookup (en_jobs (pool_engine q)) jid = Some job \<longrightarrow> jb_session_id job = sc_session_id creq \<longrightarrow>
        job_lookup (en_jobs (pool_engine p)) jid \<noteq> None))"
proof -
  let ?sid = "sc_session_id creq" and ?p = "thread_done p i st"
  note inv = pool_invD [OF pool_reachable_inv [OF assms(1)]]
  have step: "pool_step p ?p" by (rule pl_close_commit [OF assms(2,3)])
  obtain now sessions where c: "store_close now (en_sessions (pool_engine p)) ?sid = (sessions, Inr ())"
      and st: "st = (pool_state p)\<lparr>st_engine := (pool_engine p)\<lparr>en_sessions := sessions\<rparr>\<rparr>"
    using assms(3) by (auto simp: close_commit_def result_simps split: prod.splits)
  have live: "am_lookup (en_sessions (pool_engine p)) ?sid \<noteq> None"
    using store_close_lookup(3) [OF inv(5) c] inv(5) by (auto simp: am_lookup_None store_inv_def split: if_splits)
  then have "closed ?sid ?p"
    using inv(2,3) store_close_lookup(1) [OF inv(5) c] unfolding issued_handed
    by (fastforce simp: closed_def st split: if_splits)
  note run = closed_run [OF assms(4) pr_step [OF assms(1) step] this]
  then have un: "\<not> authorized (pool_state q) ?sid tok" for tok by (simp add: closed_def store_authorize_iff)
  have "job_lookup (en_jobs (pool_engine p)) jid \<noteq> None"
    if "\<forall>j req plan. po_threads p j = Some (TPrepared req plan) \<longrightarrow> js_session_id req \<noteq> ?sid"
      "job_lookup (en_jobs (pool_engine q)) jid = Some job" "jb_session_id job = ?sid" for jid job
  proof -
    have "\<not> start_in_flight ?sid ?p" using that(1) by (auto simp: start_in_flight_def)
    then have "jid \<in> jobs_of (en_jobs (pool_engine p)) ?sid" using run that(2,3) by (auto simp: jobs_of_def st)
    then show ?thesis by (auto simp: jobs_of_def)
  qed
  moreover have "call_method wi env (pool_state q) m ps = Some (pool_state q, Inl Unauthorized)"
    if "request_credentials wi m ps = Some (?sid, tok)" for wi env m ps tok
    using that un by (rule unauthorized_call)
  ultimately show ?thesis using un by (simp add: st)
qed

text \<open>The condition on starts in flight is needed: here the session is closed, the reply is \<open>ok\<close>, and
  only then its job is inserted and runs, out of everybody's reach.\<close>

lemma concurrent_close_is_final_witness:
  "\<exists>(p :: unit pool) st q jid job. close_commit race_wire wit_server_env (pool_state p) race_close = (st, Inr ()) \<and>
     pool_step\<^sup>*\<^sup>* (thread_done p 1 st) q \<and> (\<forall>tok. \<not> authorized (pool_state q) (session_id_of 1) tok) \<and>
     job_lookup (en_jobs (pool_engine p)) jid = None \<and>
     job_lookup (en_jobs (pool_engine q)) jid = Some job \<and> jb_status job = Running"
proof -
  obtain p :: "unit pool" and st q task job where r: "pool_reachable p" "po_threads p 1 = Some (TClosing race_close)"
      "close_commit race_wire wit_server_env (pool_state p) race_close = (st, Inr ())"
      "pool_step\<^sup>*\<^sup>* (thread_done p 1 st) q" "en_jobs (pool_engine p) = job_store_new"
      "task \<in> set (en_tasks (pool_engine q))" "job_lookup (en_jobs (pool_engine q)) (tk_job_id task) = Some job" "jb_status job = Running"
    using race_run by blast
  have "job_lookup (en_jobs (pool_engine p)) (tk_job_id task) = None"
    by (simp add: r(5) job_lookup_def job_store_new_def)
  moreover have "\<forall>tok. \<not> authorized (pool_state q) (session_id_of 1) tok"
    using conjunct1 [OF concurrent_close_is_final [OF r(1-4)]] by (simp add: race_close_def)
  ultimately show ?thesis using r(3,4,7,8) by blast
qed

end
