(* ===== verification/Spec2Isabelle.thy ===== *)
theory Spec2Isabelle
  imports File_Log Codemode Demo Overlap
begin

text \<open>
  AXP is a runtime that gives an agent a session: a workspace, a set of capability grants, a
  sandbox tier and jobs whose output is kept in a log that can be replayed. This library models its
  Rust crates (\<open>src/crates/axp-*\<close>) and proves what makes them correct.

  \<^bold>\<open>The program.\<close> A client (\<open>axp-client\<close>) sends JSON-RPC over HTTP. The transport
  (\<open>axp-transport\<close>) decodes the envelope, authenticates the session named in the parameters and
  calls the core (\<open>axp-core\<close>): the session store, the provider registry, the job engine. The
  engine checks a job against the session's grants, builds the sandbox its child runs in
  (\<open>axp-sandbox\<close>) or a runner for a WebAssembly component (\<open>axp-codemode\<close>), stores the
  job and spawns a task that drives it to its end; a client attaches to the job's log and reads it as
  an event stream. \<open>axp-cli\<close> puts a server together and mounts MCP servers as providers.

  \<^bold>\<open>Theories.\<close>
  \<^item> \<open>Prelude\<close>: results, loops of checks, bytes, little-endian integers. \<open>Rust_Text\<close>: the
    operations of \<open>str\<close> and \<open>std::path\<close> the sources call.
  \<^item> \<open>Proto\<close> (\<open>axp-proto\<close>) and \<open>Core_Error\<close> (\<open>error.rs\<close> of core and sandbox):
    payload types, error types and their messages.
  \<^item> \<open>Replay_Log\<close>, \<open>File_Log\<close> (\<open>job/log.rs\<close>): the trait of a replay log, the in-memory log and
    the buffer with its wake signal; the file format, its encoder and decoder, the log over a file.
  \<^item> \<open>Capability\<close> (\<open>capability.rs\<close>), \<open>Auth\<close> (\<open>auth.rs\<close>), \<open>Handle_Store\<close> and \<open>Session\<close>
    (\<open>session.rs\<close>, \<open>workspace.rs\<close>): grants and attenuation, tokens, the store of live sessions.
  \<^item> \<open>Provider\<close> (\<open>provider.rs\<close>, \<open>mcp.rs\<close>, \<open>builtins.rs\<close>) and \<open>Registry\<close>
    (\<open>registry.rs\<close>): the providers, the catalog, discovery and resolution.
  \<^item> \<open>Sandbox\<close> (\<open>axp-sandbox\<close>, \<open>build_sandbox_policy\<close>): policy, rule sets and the hooks
    installed on a child.
  \<^item> \<open>Job_Store\<close> (\<open>job/status.rs\<close>, \<open>job/store.rs\<close>) and \<open>Engine\<close> (\<open>job/engine.rs\<close>):
    the store with two indices, and \<open>start\<close>, \<open>cancel\<close>, \<open>finish_job\<close>, \<open>status\<close>.
  \<^item> \<open>Job_Lifecycle\<close>, \<open>Drain\<close>, \<open>Code_Capability\<close>, \<open>Log_Stream\<close> (\<open>job/engine.rs\<close>): its
    threads. The atomic sections are the rules of \<open>job_step\<close>; the tasks that drive a job; the host
    call of a component; the attached stream, a small machine beside every step of the engine.
  \<^item> \<open>Transport\<close>, \<open>Server\<close> (\<open>axp-transport\<close>): envelope, error mapping, handlers, dispatcher
    router and event-stream endpoint; what a request may do, and runs of requests and background tasks.
  \<^item> \<open>Start_Parts\<close>, \<open>Concurrent\<close>, \<open>Overlap\<close>: \<open>JobEngine::start\<close> and the handlers of
    \<open>handlers.rs\<close> cut where they give up a lock; the pool of handlers in flight, which steps in any
    order beside the tasks of jobs, with what each thread relies on; what holds in all its runs.
  \<^item> \<open>Client\<close> (\<open>axp-client\<close>), \<open>Codemode\<close> (\<open>axp-codemode\<close>), \<open>Cli\<close> and \<open>Demo\<close>
    (\<open>axp-cli\<close>): the typed methods and the response and event-stream decoders; the runner and its
    interruption; the program's commands, \<open>serve\<close> with its MCP mount and the demo, a client run
    against the server of \<open>Transport\<close>.

  \<^bold>\<open>State and effects.\<close> A struct is a record with a prefix per type, an enum a datatype. A method
  that changes its receiver returns the new state beside its result; \<open>Result\<close> is a sum with the
  error on the left. \<open>Arc\<close> and locks are handles into a heap that only grows; a lock is held within
  one step. A channel or shared flag is a cell of a growing list. Integers of the wire and the log
  are words of their width; \<open>usize\<close> has 64 bits.

  \<^bold>\<open>Interfaces.\<close> \<open>handle_store\<close> (interpreted by the map of handles that sessions and jobs
  share), \<open>attenuation\<close> (by the order on capabilities), \<open>replay_log\<close> (by the in-memory log,
  the buffer and the file log), \<open>capability_provider\<close> (by the native provider, the MCP provider
  and the trait object the registry keeps), \<open>poll_clock\<close> with \<open>poll_counter\<close>, and \<open>untouched\<close>
  (the clock a poll loop needs, the polls it makes and what a run leaves alone, by the client connected to
  the server). Capabilities are an instance of the library's
  \<open>preorder\<close>: \<open>c \<le> d\<close> when holding \<open>d\<close> permits \<open>c\<close>.

  \<^bold>\<open>What is shown.\<close>
  \<^item> Authority: a request without a live session's token is refused alike whether or not the session
    exists, and changes nothing (\<open>rpc_auth_gate\<close>, \<open>session_authority\<close>); a job starts only with
    granted authority (\<open>start_is_authorized\<close>), in its workspace (\<open>Job_Store\<close>), under the
    rules of its grants (\<open>sandbox_rules_from_grants\<close>, \<open>policy_apply_never_downgrades\<close>); what a
    set of grants permits, exactly, and that attenuation narrows it (\<open>attenuated_set_narrows\<close>). Overlapping requests add no authority to a job
    (\<open>concurrent_start_authority\<close>), and a closed session stays closed and gets no job but from a start
    that had passed its checks (\<open>concurrent_close_is_final\<close>).
  \<^item> Jobs: a failed start changes nothing (\<open>start_all_or_nothing\<close>); the life of a job under every
    interleaving (\<open>job_lifecycle\<close>, \<open>finished_job_is_final\<close>); the operations and the server's requests,
    also when they overlap, are runs of those steps (\<open>operations_refine_steps\<close>,
    \<open>requests_refine_engine_steps\<close>, \<open>concurrent_requests_refine_steps\<close>); the drivers
    record a job's output and end (\<open>run_to_completion_records\<close>, \<open>run_to_completion_returns\<close>).
  \<^item> Logs: the files that decode, exactly, and what the encoder refuses of them (\<open>file_log_exact\<close>), the file log as a refinement of the one in
    memory (\<open>file_log_refines_mem_log\<close>), streams that deliver every event once, in order, miss no
    wake-up and end (\<open>log_stream_exactly_once\<close>, \<open>log_stream_no_lost_wakeup\<close>, \<open>log_stream_ends\<close>).
  \<^item> Discovery: registration is all or nothing and what it leaves in the registry (\<open>register_atomic\<close>), every listed name is routed to its
    provider (\<open>registry_routing\<close>), a session sees what its grants allow (\<open>discovery_is_scoped\<close>).
  \<^item> The wire: replies and error codes (\<open>error_reply_no_effect\<close>), calls and event streams from server
    to client (\<open>client_server_call\<close>, \<open>sse_roundtrip\<close>), whatever chunks they arrive in
    (\<open>sse_chunks_irrelevant\<close>).
  \<^item> From end to end: what a child writes on its pipes is what a client of the job's event stream decodes
    (\<open>output_reaches_client\<close>, below, over the drivers, the log, the stream, the endpoint and the client).
  \<^item> A whole client run: the demo against the server leaves no session behind wherever it fails, and
    returns when its poll interval is not zero or its calls take time (\<open>demo_leaves_no_session\<close>); the
    polls it makes are counted and bounded (\<open>wait_terminal_bounds\<close>).
  \<^item> Two theorems state what callers must know: an append that is reported as failed can reappear when
    the file is reopened (\<open>failed_sync_then_append_poisons_reopen\<close>), and the answer of \<open>cancel\<close>,
    known at every point of a job's life, differs from the job's status in two windows
    (\<open>cancel_answer_windows\<close>).

  \<^bold>\<open>Loops and bounds.\<close> A \<open>select!\<close> loop is a recursion over the list of rounds that says which
  futures are ready; a list that ends first gives \<open>None\<close>, the task still waiting, and
  \<open>run_to_completion_returns\<close> shows that rounds in which the pipes are ready often enough suffice.
  A stream gives up its frames and its end within the number of calls \<open>log_stream_ends\<close> states: the
  events that are left, the pending frames and five more. The client's collecting loops take a bound
  on the number of frames; the theorems ask for more than there are. Sequence numbers and id counters
  are 64-bit; where a theorem needs a counter below its last value it says so.

  \<^bold>\<open>Not modelled.\<close> The derived \<open>serde\<close> encodings and JSON itself (decoders and encoders are
  parameters, with the round-trip they promise as a hypothesis), axum's matching of routes and its
  extractors (arguments of \<open>http_serve\<close>),
  \<open>reqwest\<close>, \<open>wasmtime\<close>, tokio's scheduler, the \<open>landlock\<close> and \<open>seccompiler\<close> crates and
  the kernel (what they answer is a parameter); the timing of the token comparison (it is a function
  here); the parsing of arguments by clap (the parsed arguments are the input); tests.
\<close>

section \<open>From a child's output to a client\<close>

text \<open>Every chunk a pipe delivers has a byte, so there are no more chunks than bytes.\<close>

lemma chunks_le_bytes: "length (pipe_of out err st) \<le> sum_list (map length (pipe_of out err st))"
proof -
  have "length (pipe_output rs) \<le> sum_list (map length (pipe_output rs))" for rs
  proof (induction rs rule: pipe_output.induct)
    case (2 d rs)
    then show ?case by (cases d) auto
  qed simp_all
  then show ?thesis by (cases st) (auto split: option.split)
qed

text \<open>A stream attached to a finished job from the start of its log.\<close>

lemma attached_stream:
  assumes "engine_attach eng req = Inr stream" and "job_lookup (en_jobs eng) (ja_job_id req) = Some job"
    and "status_is_terminal (jb_status job)" and "log_ok cap (jb_replay_log job)"
    and "length (ml_events (jb_replay_log job)) + 4 \<le> n" and "length (ml_events (jb_replay_log job)) \<le> usize_max"
    and "ja_from_offset req = 0"
  shows "stream_collect n (en_jobs eng) stream NTop =
    Some (map (event_to_frame (ja_job_id req)) (ml_events (jb_replay_log job)))"
proof -
  obtain h where h: "lookup_owned eng (ja_session_id req) (ja_job_id req) = Inr h"
      "stream = \<lparr>jl_job_id = ja_job_id req, jl_handle = h, jl_cursor = 0, jl_pending = []\<rparr>"
    using assms(1,7) by (auto simp: engine_attach_def result_simps)
  then have "job_store_get (en_jobs eng) (ja_job_id req) = Some h" by (simp add: lookup_owned_Inr)
  then have "job_read (en_jobs eng) h = Some job"
    using assms(2) by (simp add: job_lookup_def am_lookup_def job_store_get_def job_read_def)
  then have fin: "finished (en_jobs eng) h (ml_events (jb_replay_log job))"
    using assms(3,4,6) by (auto simp: finished_def)
  show ?thesis using collect_top [OF fin, of 0 stream n] h(2) assms(5) by simp
qed

lemma frames_of_stream:
  "map lf_data (filter (\<lambda>f. lf_stream f = stream_to_proto st) (map (event_to_frame jid) (ml_events l))) = stream_data st l"
proof -
  have "stream_to_proto a = stream_to_proto b \<longleftrightarrow> a = b" for a b by (cases a; cases b) simp_all
  then show ?thesis by (simp add: stream_data_def filter_map o_def event_to_frame_def)
qed

text \<open>C6: From end to end: what a child process writes on its two pipes, when it fits the log's cap, is what
  a client reads. Whatever the schedule of the drain loop, and whether or not the job was cancelled
  meanwhile, once the job's task has ended a client that is given a stream of the job from offset 0
  is sent every chunk of each pipe, once and in order, as frames numbered from 0; and however the
  event stream's body is cut into chunks, and wherever keep-alive comments stand in it, the client
  decodes exactly these frames and then the end. The job's status is the exit status, or \<open>Killed\<close>
  if a cancel arrived.\<close>

theorem output_reaches_client:
  assumes "job_store_inv (en_jobs eng)" and "job_store_get (en_jobs eng) (tk_job_id task) = Some (tk_handle task)"
    and "job_lookup (en_jobs eng) (tk_job_id task) = Some job0"
    and "run_to_completion now eng task out err rounds w = Some (st_engine st)"
    and "ml_events (jb_replay_log job0) = []" and "log_ok cap (jb_replay_log job0)"
    and "output_bytes out err \<le> min cap usize_max"
    and "http_serve match_route wi env st call = (st', EventStream stream)"
    and "hc_query call = Inr params" and "JobId (ap_job_id params) = tk_job_id task"
    and "resume_offset params (hc_last_event_id call) = 0"
    and "length (pipe_of out err Stdout) + length (pipe_of out err Stderr) + 4 \<le> n"
  shows "\<exists>sent job. stream_collect n (en_jobs (st_engine st)) stream NTop = Some sent \<and>
    (\<forall>s. map lf_data (filter (\<lambda>f. lf_stream f = stream_to_proto s) sent) = pipe_of out err s) \<and>
    map lf_seq sent = map of_nat [0..<length sent] \<and> (\<forall>f \<in> set sent. lf_job_id f = tk_job_id task) \<and>
    (\<forall>(cw :: 'k client_wire) to_json sep blocks chunks.
      (sep = [] \<or> sep = [32]) \<longrightarrow> [ev. Some ev \<leftarrow> blocks] = sse_events to_json sent \<longrightarrow>
      (\<forall>f \<in> set sent. \<exists>data. to_json f = Inr data \<and> plain (utf8 data) \<and> cw_frame cw (sep @ utf8 data) = Inr f) \<longrightarrow>
      concat chunks = body_of sep blocks \<longrightarrow>
      collect_frames n cw \<lparr>aj_chunks = map Inr chunks, aj_decoder = decoder_default, aj_pending = []\<rparr> =
        Some (sent, None)) \<and>
    job_lookup (en_jobs (st_engine st)) (tk_job_id task) = Some job \<and>
    (jb_status job = wait_status w \<or> jb_status job = Killed \<and> (\<exists>r \<in> set rounds. rd_cancel r))"
proof (rule run_to_completion_fits [OF assms(1-7)])
  fix job
  assume job: "job_lookup (en_jobs (st_engine st)) (tk_job_id task) = Some job"
      "jb_status job = wait_status w \<or> jb_status job = Killed \<and> (\<exists>r \<in> set rounds. rd_cancel r)"
    and terminal: "status_is_terminal (jb_status job)" and ok: "log_ok cap (jb_replay_log job)"
    and data: "\<And>s. stream_data s (jb_replay_log job) = pipe_of out err s"
  let ?evs = "ml_events (jb_replay_log job)" and ?sent = "map (event_to_frame (tk_job_id task)) (ml_events (jb_replay_log job))"
  let ?req = "\<lparr>ja_session_id = SessionId (ap_session_id params), ja_cap_token = ap_cap_token params,
    ja_job_id = tk_job_id task, ja_from_offset = 0\<rparr>"
  have len: "length ?evs = length (pipe_of out err Stdout) + length (pipe_of out err Stderr)"
    using streams_total(2) [of "jb_replay_log job"] data by simp
  then have max: "length ?evs \<le> usize_max"
    using chunks_le_bytes [of out err Stdout] chunks_le_bytes [of out err Stderr] assms(7) by (simp add: output_bytes_def)
  have "engine_attach (st_engine st) ?req = Inr stream"
    by (rule http_serve_stream [OF assms(8)]) (use assms(9-11) in \<open>auto simp: attach_sse_def Let_def result_simps split: if_splits\<close>)
  from attached_stream [OF this _ terminal ok _ max, of n] have sent: "stream_collect n (en_jobs (st_engine st)) stream NTop = Some ?sent"
    using job(1) len assms(12) by simp
  have streams: "map lf_data (filter (\<lambda>f. lf_stream f = stream_to_proto s) ?sent) = pipe_of out err s" for s
    by (simp only: frames_of_stream data)
  have seqs: "map lf_seq ?sent = map of_nat [0..<length ?sent]"
    using ok by (intro nth_equalityI) (simp_all add: event_to_frame_def log_ok_def)
  have "length ?sent < n" using len assms(12) by simp
  note client = sse_frames_received [OF _ _ _ _ this]
  have ids: "\<forall>f \<in> set ?sent. lf_job_id f = tk_job_id task" by (simp add: event_to_frame_def)
  show ?thesis
    by (intro exI [of _ ?sent] exI [of _ job] conjI allI impI sent streams seqs ids job) (rule client; assumption)
qed

text \<open>A job of an open session that writes one chunk, and the call that attaches to it.\<close>

definition wit_end_engine :: "unit job_engine" where
  "wit_end_engine = wit_run_engine\<lparr>en_sessions := en_sessions wit_engine\<rparr>"

definition wit_end_state :: "unit app_state" where
  "wit_end_state = \<lparr>st_engine = the (run_to_completion 0 wit_end_engine wit_run_task (Some [Read [104, 105]]) (Some [])
     wit_rounds (Inr (Some 3))), st_session_counter = 2\<rparr>"

definition wit_end_call :: http_call where
  "wit_end_call = \<lparr>hc_method = HttpGet, hc_path = ''/job/attach'',
     hc_query = Inr \<lparr>ap_session_id = ''s'', ap_cap_token = ''t'', ap_job_id = ''j_1'', ap_from_offset = 0\<rparr>,
     hc_last_event_id = None, hc_body = []\<rparr>"

definition wit_end_stream :: job_log_stream where
  "wit_end_stream = \<lparr>jl_job_id = JobId ''j_1'', jl_handle = 0, jl_cursor = 0, jl_pending = []\<rparr>"

lemma wit_end_run:
  "run_to_completion 0 wit_end_engine wit_run_task (Some [Read [104, 105]]) (Some []) wit_rounds (Inr (Some 3)) =
     Some (st_engine wit_end_state)"
  "http_serve (\<lambda>_ _ _. Inr AttachEndpoint) wit_wire wit_server_env wit_end_state wit_end_call =
     (wit_end_state, EventStream wit_end_stream)"
proof -
  let ?run = "run_to_completion 0 wit_end_engine wit_run_task (Some [Read [104, 105]]) (Some []) wit_rounds (Inr (Some 3))"
  have "\<exists>eng. ?run = Some eng" by (rule run_to_completion_Some) (simp_all add: wit_rounds_def)
  then show run: "?run = Some (st_engine wit_end_state)"
    by (auto simp: wit_end_state_def)
  have "map_option (\<lambda>eng. lookup_owned eng (SessionId ''s'') (JobId ''j_1'')) ?run = Some (Inr 0)"
    by (simp add: wit_rounds_eq wit_end_engine_def lookup_owned_def result_simps run_to_completion_def drain_init_def
        drain_select_def drain_stdout_def drain_stderr_def read_into_def push_log_def mem_append_def
        checked_add_usize_def usize_max_def finish_job_def finish_write_def finish_notify_def finish_remove_def wit_run_eval)
  then have owned: "lookup_owned (st_engine wit_end_state) (SessionId ''s'') (JobId ''j_1'') = Inr 0"
    using run by simp
  obtain k where "en_sessions (st_engine wit_end_state) = audited_sessions 0 (en_sessions wit_engine) (SessionId ''s'') k"
    using run_to_completion_sessions [OF run] by (auto simp: wit_end_engine_def)
  moreover have "store_inv (en_sessions wit_engine)" using wit_engine_inv by (simp add: engine_inv_def)
  ultimately have "authorized wit_end_state (SessionId ''s'') ''t''"
    using wit_session by (simp add: store_authorize_iff audited_sessions_lookup cap_token_expose_def)
  then show "http_serve (\<lambda>_ _ _. Inr AttachEndpoint) wit_wire wit_server_env wit_end_state wit_end_call =
     (wit_end_state, EventStream wit_end_stream)"
    using owned by (simp add: http_serve_def wit_end_call_def attach_sse_def engine_attach_def resume_offset_def
        wit_end_stream_def result_simps Let_def)
qed

lemma output_reaches_client_witness:
  "\<exists>f. stream_collect 5 (en_jobs (st_engine wit_end_state)) wit_end_stream NTop = Some [f] \<and> lf_data f = [104, 105] \<and>
     collect_frames 5 (wit_client_wire\<lparr>cw_frame := \<lambda>_. Inr f\<rparr>) \<lparr>aj_chunks = map Inr [body_of [] [None, Some \<lparr>sv_id = ''0'',
       sv_data = ''{}''\<rparr>]], aj_decoder = decoder_default, aj_pending = []\<rparr> = Some ([f], None)"
proof -
  have jobs: "en_jobs wit_end_engine = en_jobs wit_run_engine" by (simp add: wit_end_engine_def)
  have log: "ml_events (jb_replay_log wit_job) = []" "log_ok 100 (jb_replay_log wit_job)"
      "output_bytes (Some [Read [104, 105]]) (Some []) \<le> min 100 usize_max"
    by (simp_all add: wit_job_def mem_with_cap_def log_ok_def output_bytes_def usize_max_def)
  let ?p = "\<lparr>ap_session_id = ''s'', ap_cap_token = ''t'', ap_job_id = ''j_1'', ap_from_offset = 0\<rparr>"
  have call: "hc_query wit_end_call = Inr ?p" "JobId (ap_job_id ?p) = tk_job_id wit_run_task"
      "resume_offset ?p (hc_last_event_id wit_end_call) = 0"
      "length (pipe_of (Some [Read [104, 105]]) (Some []) Stdout) + length (pipe_of (Some [Read [104, 105]]) (Some []) Stderr) + 4 \<le> 5"
    by (simp_all add: wit_end_call_def resume_offset_def)
  obtain sent where sent: "stream_collect 5 (en_jobs (st_engine wit_end_state)) wit_end_stream NTop = Some sent"
    and data: "\<forall>s. map lf_data (filter (\<lambda>f. lf_stream f = stream_to_proto s) sent) =
      pipe_of (Some [Read [104, 105]]) (Some []) s" and seqs: "map lf_seq sent = map of_nat [0..<length sent]"
    and client: "\<forall>(cw :: unit client_wire) to_json sep blocks chunks.
      (sep = [] \<or> sep = [32]) \<longrightarrow> [ev. Some ev \<leftarrow> blocks] = sse_events to_json sent \<longrightarrow>
      (\<forall>f \<in> set sent. \<exists>data. to_json f = Inr data \<and> plain (utf8 data) \<and> cw_frame cw (sep @ utf8 data) = Inr f) \<longrightarrow>
      concat chunks = body_of sep blocks \<longrightarrow>
      collect_frames 5 cw \<lparr>aj_chunks = map Inr chunks, aj_decoder = decoder_default, aj_pending = []\<rparr> =
        Some (sent, None)"
    using output_reaches_client [OF wit_run [folded jobs] wit_end_run(1) log wit_end_run(2) call, where 'k = unit] by blast
  have "\<forall>f \<in> set sent. lf_stream f = ProtoStdout"
  proof
    fix f assume "f \<in> set sent"
    moreover have "\<forall>f \<in> set sent. lf_stream f \<noteq> ProtoStderr" using spec [OF data, of Stderr] by (simp add: filter_empty_conv)
    ultimately show "lf_stream f = ProtoStdout" by (cases "lf_stream f") auto
  qed
  then have "map lf_data sent = [[104, 105]]" using spec [OF data, of Stdout] by simp
  then obtain f where f: "sent = [f]" "lf_data f = [104, 105]" by auto
  then have "lf_seq f = 0" using seqs by simp
  moreover have "dec_digits 0 = ''0''" by code_simp
  ultimately have events: "[ev. Some ev \<leftarrow> [None, Some \<lparr>sv_id = ''0'', sv_data = ''{}''\<rparr>]] = sse_events (\<lambda>_. Inr ''{}'') sent"
    using f(1) by simp
  have "\<forall>g \<in> set sent. \<exists>data. (Inr ''{}'' :: (string, string) result) = Inr data \<and> plain (utf8 data) \<and>
      cw_frame (wit_client_wire\<lparr>cw_frame := \<lambda>_. Inr f\<rparr>) ([] @ utf8 data) = Inr g"
    using f(1) by (simp add: utf8_def char_byte_def)
  with events show ?thesis
    using client [THEN spec [of _ "wit_client_wire\<lparr>cw_frame := \<lambda>_. Inr f\<rparr>"], THEN spec [of _ "\<lambda>_. Inr ''{}''"],
        THEN spec [of _ "[]"], THEN spec [of _ "[None, Some \<lparr>sv_id = ''0'', sv_data = ''{}''\<rparr>]"],
        THEN spec [of _ "[body_of [] [None, Some \<lparr>sv_id = ''0'', sv_data = ''{}''\<rparr>]]"]] sent f by simp
qed

end
